(* ===== verification/Prelude.thy ===== *)
theory Prelude
  imports Main "HOL-Library.Sublist" "HOL-Library.AList" "HOL-Library.Char_ord" "HOL-Library.List_Lexorder" "HOL-Library.Multiset"
begin

text \<open>
  Shared vocabulary of the development: the fact collections, the result type in which
  every Python exception of the modelled code is a value, and the part of the Python
  string library the code uses (\<open>split\<close>, \<open>join\<close>, \<open>strip\<close>, \<open>replace\<close>, \<open>int\<close>, \<open>str\<close>),
  with the generic lemmas the components share. A Python string is a HOL \<open>string\<close>, one
  \<open>char\<close> per code point below 256.
\<close>

named_theorems path_facts \<open>facts on path strings and components\<close>
named_theorems result_facts \<open>introduction and elimination of results\<close>
named_theorems inv_facts \<open>preservation of component invariants\<close>

section \<open>Results: exceptions as values\<close>

datatype py_error =
    PathSafetyError string
  | PathDeniedError string
  | ScopeViolationError string
  | ScopeSeqMismatch int int
  | ValueError string
  | KeyError string
  | TypeError string
  | FileNotFoundError string
  | OSError string
  | RuntimeError string
  | AttributeError string
  | SystemExit string

type_synonym 'a result = "py_error + 'a"

abbreviation raise_err :: "py_error \<Rightarrow> 'a result" where
  "raise_err e \<equiv> Inl e"

abbreviation ok :: "'a \<Rightarrow> 'a result" where
  "ok x \<equiv> Inr x"

definition rbind :: "'a result \<Rightarrow> ('a \<Rightarrow> 'b result) \<Rightarrow> 'b result" where
  "rbind r f = (case r of Inl e \<Rightarrow> Inl e | Inr x \<Rightarrow> f x)"

definition is_ok :: "'a result \<Rightarrow> bool" where
  "is_ok r = (case r of Inl _ \<Rightarrow> False | Inr _ \<Rightarrow> True)"

text \<open>The exceptions derived from \<open>PathSafetyError\<close> in the source (the class and its
  subclass \<open>PathDeniedError\<close>): what an \<open>except PathSafetyError\<close> clause catches.\<close>

fun is_path_safety :: "py_error \<Rightarrow> bool" where
  "is_path_safety (PathSafetyError _) = True"
| "is_path_safety (PathDeniedError _) = True"
| "is_path_safety _ = False"

lemma rbind_simps [simp]:
  "rbind (Inl e) f = Inl e"
  "rbind (Inr x) f = f x"
  by (simp_all add: rbind_def)

lemma rbind_eq_Inr [simp]: "rbind r f = Inr y \<longleftrightarrow> (\<exists>x. r = Inr x \<and> f x = Inr y)"
  by (cases r) simp_all

lemma rbind_eq_Inl: "rbind r f = Inl e \<longleftrightarrow> r = Inl e \<or> (\<exists>x. r = Inr x \<and> f x = Inl e)"
  by (cases r) simp_all

lemma is_ok_simps [simp]: "\<not> is_ok (Inl e)" "is_ok (Inr x)"
  by (simp_all add: is_ok_def)

lemma is_ok_iff [result_facts]: "is_ok r \<longleftrightarrow> (\<exists>x. r = Inr x)"
  by (cases r) simp_all

text \<open>Checking every element of a list, stopping at the first error: the shape of the
  validation loops of the source (\<open>for x in xs: if bad(x): raise\<close>).\<close>

fun check_all :: "('a \<Rightarrow> unit result) \<Rightarrow> 'a list \<Rightarrow> unit result" where
  "check_all f [] = ok ()"
| "check_all f (x # xs) = rbind (f x) (\<lambda>_. check_all f xs)"

lemma check_all_ok: "check_all f xs = ok u \<longleftrightarrow> (\<forall>x \<in> set xs. f x = ok ())"
  by (induction xs) auto

lemma check_all_err: "check_all f xs = Inl e \<Longrightarrow> \<exists>x \<in> set xs. f x = Inl e"
  by (induction xs) (auto simp: rbind_eq_Inl)

text \<open>A list comprehension whose body may raise.\<close>

fun collect :: "('a \<Rightarrow> 'b result) \<Rightarrow> 'a list \<Rightarrow> 'b list result" where
  "collect f [] = ok []"
| "collect f (x # xs) = rbind (f x) (\<lambda>y. rbind (collect f xs) (\<lambda>ys. ok (y # ys)))"

lemma collect_ok: "collect f xs = ok ys \<longleftrightarrow> list_all2 (\<lambda>x y. f x = ok y) xs ys"
  by (induction xs arbitrary: ys) (auto simp: list_all2_Cons1)

definition from_option :: "py_error \<Rightarrow> 'a option \<Rightarrow> 'a result" where
  "from_option e r = (case r of None \<Rightarrow> Inl e | Some x \<Rightarrow> ok x)"

lemma from_option_ok [simp]: "from_option e r = Inr x \<longleftrightarrow> r = Some x"
  by (cases r) (simp_all add: from_option_def)

lemma from_option_err [simp]: "from_option e r = Inl e' \<longleftrightarrow> r = None \<and> e' = e"
  by (cases r) (auto simp: from_option_def)

section \<open>Strings\<close>

definition is_space :: "char \<Rightarrow> bool" where
  "is_space c \<longleftrightarrow> (let n = (of_char c :: nat) in
     (9 \<le> n \<and> n \<le> 13) \<or> (28 \<le> n \<and> n \<le> 32) \<or> n = 133 \<or> n = 160)"

definition strip_str :: "string \<Rightarrow> string" where
  "strip_str s = rev (dropWhile is_space (rev (dropWhile is_space s)))"

fun split_ws_go :: "string \<Rightarrow> string \<Rightarrow> string list" where
  "split_ws_go cur [] = (if cur = [] then [] else [cur])"
| "split_ws_go cur (c # s) =
     (if is_space c then (if cur = [] then split_ws_go [] s else cur # split_ws_go [] s)
      else split_ws_go (cur @ [c]) s)"

text \<open>\<open>s.split()\<close>.\<close>

definition split_ws :: "string \<Rightarrow> string list" where
  "split_ws s = split_ws_go [] s"

text \<open>\<open>s.splitlines()\<close>, up to empty lines where a carriage return precedes a newline.\<close>

definition is_line_end :: "char \<Rightarrow> bool" where
  "is_line_end c \<longleftrightarrow> (let n = (of_char c :: nat) in (10 \<le> n \<and> n \<le> 13) \<or> (28 \<le> n \<and> n \<le> 30) \<or> n = 133)"

text \<open>\<open>s.replace(old, new)\<close> for a non-empty \<open>old\<close>, and \<open>s.partition(sep)\<close>.\<close>

fun replace_skip :: "nat \<Rightarrow> string \<Rightarrow> string \<Rightarrow> string \<Rightarrow> string" where
  "replace_skip k old new [] = []"
| "replace_skip (Suc k) old new (c # s) = replace_skip k old new s"
| "replace_skip 0 old new (c # s) =
     (if prefix old (c # s) then new @ replace_skip (length old - 1) old new s
      else c # replace_skip 0 old new s)"

definition replace_all :: "string \<Rightarrow> string \<Rightarrow> string \<Rightarrow> string" where
  "replace_all old new s = replace_skip 0 old new s"

fun partition_str :: "string \<Rightarrow> string \<Rightarrow> (string \<times> string) option" where
  "partition_str sep [] = (if sep = [] then Some ([], []) else None)"
| "partition_str sep (c # s) =
     (if prefix sep (c # s) then Some ([], drop (length sep) (c # s))
      else map_option (\<lambda>(a, b). (c # a, b)) (partition_str sep s))"

text \<open>Python's \<open>s.split(c)\<close> for a one-character separator.\<close>

fun split_on :: "char \<Rightarrow> string \<Rightarrow> string list" where
  "split_on c [] = [[]]"
| "split_on c (x # xs) =
     (if x = c then [] # split_on c xs
      else case split_on c xs of [] \<Rightarrow> [[x]] | y # ys \<Rightarrow> (x # y) # ys)"

fun join_str :: "string \<Rightarrow> string list \<Rightarrow> string" where
  "join_str sep [] = []"
| "join_str sep [x] = x"
| "join_str sep (x # y # ys) = x @ sep @ join_str sep (y # ys)"

definition splitlines :: "string \<Rightarrow> string list" where
  "splitlines s = split_on (CHR 0x0A) (map (\<lambda>c. if is_line_end c then CHR 0x0A else c) s)"

lemma partition_str_sound: "partition_str sep s = Some (a, b) \<Longrightarrow> s = a @ sep @ b"
  by (induction sep s arbitrary: a rule: partition_str.induct)
    (auto simp: prefix_def split: if_splits)

lemma split_on_ne [simp]: "split_on c s \<noteq> []"
  by (induction s) (auto split: list.splits)

lemma split_on_no_sep: "p \<in> set (split_on c s) \<Longrightarrow> c \<notin> set p"
  by (induction s arbitrary: p) (auto split: if_splits list.splits)

lemma split_on_id: "c \<notin> set s \<Longrightarrow> split_on c s = [s]"
  by (induction s) auto

lemma split_on_append: "c \<notin> set s \<Longrightarrow> split_on c (s @ c # t) = s # split_on c t"
  by (induction s) auto

lemma split_join:
  "xs \<noteq> [] \<Longrightarrow> \<forall>x \<in> set xs. c \<notin> set x \<Longrightarrow> split_on c (join_str [c] xs) = xs"
  by (induction "[c]" xs rule: join_str.induct) (auto simp: split_on_id split_on_append)

lemma join_split: "join_str [c] (split_on c s) = s"
proof (induction s)
  case (Cons x s)
  then show ?case
    by (cases "split_on c s"; cases "tl (split_on c s)") auto
qed simp

lemma split_on_inj: "split_on c s = split_on c t \<Longrightarrow> s = t"
  by (metis join_split)

text \<open>\<open>sub in s\<close> for strings.\<close>

fun has_substr :: "string \<Rightarrow> string \<Rightarrow> bool" where
  "has_substr sub [] = (sub = [])"
| "has_substr sub (x # xs) = (prefix sub (x # xs) \<or> has_substr sub xs)"

lemma has_substr_iff: "has_substr sub s \<longleftrightarrow> (\<exists>u v. s = u @ sub @ v)"
proof (induction s)
  case Nil
  then show ?case by auto
next
  case (Cons x s)
  show ?case
  proof
    assume "has_substr sub (x # s)"
    then consider "prefix sub (x # s)" | "has_substr sub s" by auto
    then show "\<exists>u v. x # s = u @ sub @ v"
    proof cases
      case 1
      then show ?thesis by (auto simp: prefix_def intro: exI [of _ "[]"])
    next
      case 2
      with Cons show ?thesis by (metis append_Cons)
    qed
  next
    assume "\<exists>u v. x # s = u @ sub @ v"
    then obtain u v where uv: "x # s = u @ sub @ v" by blast
    show "has_substr sub (x # s)"
    proof (cases u)
      case Nil
      with uv have "prefix sub (x # s)" by (auto simp: prefix_def)
      then show ?thesis by simp
    next
      case (Cons y u')
      with uv have "s = u' @ sub @ v" by simp
      with Cons.IH show ?thesis by auto
    qed
  qed
qed

definition lower_chr :: "char \<Rightarrow> char" where
  "lower_chr c = (let n = (of_char c :: nat) in if 65 \<le> n \<and> n \<le> 90 then char_of (n + 32) else c)"

definition lower_str :: "string \<Rightarrow> string" where
  "lower_str s = map lower_chr s"

section \<open>Decimal numbers\<close>

definition digit_chr :: "nat \<Rightarrow> char" where
  "digit_chr d = char_of (48 + d)"

definition is_digit :: "char \<Rightarrow> bool" where
  "is_digit c \<longleftrightarrow> 48 \<le> (of_char c :: nat) \<and> (of_char c :: nat) \<le> 57"

definition digit_val :: "char \<Rightarrow> nat" where
  "digit_val c = (of_char c :: nat) - 48"

fun nat_str :: "nat \<Rightarrow> string" where
  "nat_str n = (if n < 10 then [digit_chr n] else nat_str (n div 10) @ [digit_chr (n mod 10)])"

declare nat_str.simps [simp del]

definition int_str :: "int \<Rightarrow> string" where
  "int_str i = (if i < 0 then CHR ''-'' # nat_str (nat (- i)) else nat_str (nat i))"

definition digits_val :: "string \<Rightarrow> nat" where
  "digits_val s = foldl (\<lambda>a c. 10 * a + digit_val c) 0 s"

text \<open>Python's \<open>int(s)\<close> on a string: surrounding whitespace, one sign and single
  underscores between digits are accepted; \<open>None\<close> is \<open>ValueError\<close>.\<close>

definition py_int :: "string \<Rightarrow> int option" where
  "py_int s =
     (let t = strip_str s;
          neg = (t \<noteq> [] \<and> hd t = CHR ''-'');
          body = (if t \<noteq> [] \<and> hd t \<in> {CHR ''-'', CHR ''+''} then tl t else t);
          groups = split_on (CHR ''_'') body
      in if list_all (\<lambda>g. g \<noteq> [] \<and> list_all is_digit g) groups
         then Some ((if neg then -1 else 1) * int (digits_val (concat groups)))
         else None)"

lemma of_char_digit_chr: "d < 10 \<Longrightarrow> (of_char (digit_chr d) :: nat) = 48 + d"
  by (simp add: digit_chr_def of_char_of)

lemma digit_chr_facts:
  assumes "d < 10"
  shows "is_digit (digit_chr d)" "digit_val (digit_chr d) = d" "\<not> is_space (digit_chr d)"
    "digit_chr d \<noteq> CHR ''-''" "digit_chr d \<noteq> CHR ''+''" "digit_chr d \<noteq> CHR ''_''"
    "digit_chr d \<noteq> CHR ''/''" "digit_chr d \<noteq> CHR ''.''"
proof -
  note [simp] = of_char_digit_chr [OF assms]
  show "is_digit (digit_chr d)" "digit_val (digit_chr d) = d" "\<not> is_space (digit_chr d)"
    using assms by (simp_all add: is_digit_def digit_val_def is_space_def Let_def)
  have ne: "(of_char (digit_chr d) :: nat) \<noteq> of_char c \<Longrightarrow> digit_chr d \<noteq> c" for c
    by auto
  show "digit_chr d \<noteq> CHR ''-''" "digit_chr d \<noteq> CHR ''+''" "digit_chr d \<noteq> CHR ''_''"
    "digit_chr d \<noteq> CHR ''/''" "digit_chr d \<noteq> CHR ''.''"
    using assms by (auto intro!: ne)
qed

lemma nat_str_ne [simp]: "nat_str n \<noteq> []"
  by (subst nat_str.simps) simp

lemma nat_str_digits: "c \<in> set (nat_str n) \<Longrightarrow> \<exists>d < 10. c = digit_chr d"
proof (induction n arbitrary: c rule: nat_str.induct)
  case (1 n)
  show ?case
  proof (cases "n < 10")
    case True
    with "1.prems" show ?thesis by (subst (asm) nat_str.simps) auto
  next
    case False
    from "1.prems" False consider "c \<in> set (nat_str (n div 10))" | "c = digit_chr (n mod 10)"
      by (subst (asm) nat_str.simps) auto
    then show ?thesis
    proof cases
      case 1
      with False "1.IH" show ?thesis by blast
    next
      case 2
      then show ?thesis by (metis mod_less_divisor zero_less_numeral)
    qed
  qed
qed

lemma digits_val_nat_str: "digits_val (nat_str n) = n"
proof (induction n rule: nat_str.induct)
  case (1 n)
  show ?case
  proof (cases "n < 10")
    case True
    then show ?thesis by (subst nat_str.simps) (simp add: digits_val_def digit_chr_facts)
  next
    case False
    with "1.IH" have "digits_val (nat_str (n div 10)) = n div 10" by simp
    with False show ?thesis
      by (subst nat_str.simps) (simp add: digits_val_def digit_chr_facts)
  qed
qed

lemma nat_str_inj: "nat_str m = nat_str n \<Longrightarrow> m = n"
  by (metis digits_val_nat_str)

lemma dropWhile_all_not: "\<forall>x \<in> set xs. \<not> P x \<Longrightarrow> dropWhile P xs = xs"
  by (cases xs) auto

lemma strip_str_id: "\<forall>c \<in> set s. \<not> is_space c \<Longrightarrow> strip_str s = s"
  by (simp add: strip_str_def dropWhile_all_not)

lemma nat_str_no_space: "\<forall>c \<in> set (nat_str n). \<not> is_space c"
  using nat_str_digits digit_chr_facts(3) by blast

lemma nat_str_avoids: "CHR ''_'' \<notin> set (nat_str n)" "CHR ''/'' \<notin> set (nat_str n)"
  by (metis nat_str_digits digit_chr_facts(6), metis nat_str_digits digit_chr_facts(7))

lemma nat_str_hd: "hd (nat_str n) \<noteq> CHR ''-''" "hd (nat_str n) \<noteq> CHR ''+''"
  by (metis nat_str_digits hd_in_set nat_str_ne digit_chr_facts(4),
      metis nat_str_digits hd_in_set nat_str_ne digit_chr_facts(5))

lemma nat_str_all_digits: "list_all is_digit (nat_str n)"
  using nat_str_digits digit_chr_facts(1) by (auto simp: list_all_iff)

lemma py_int_nat_str: "py_int (nat_str n) = Some (int n)"
proof -
  have s: "strip_str (nat_str n) = nat_str n"
    by (rule strip_str_id) (rule nat_str_no_space)
  show ?thesis
    by (simp add: py_int_def Let_def s split_on_id digits_val_nat_str nat_str_avoids
        nat_str_hd nat_str_all_digits)
qed

lemma py_int_int_str: "py_int (int_str i) = Some i"
proof (cases "i < 0")
  case False
  then show ?thesis by (simp add: int_str_def py_int_nat_str)
next
  case True
  let ?n = "nat (- i)"
  have sp: "\<not> is_space (CHR ''-'')" by (simp add: is_space_def)
  have s: "strip_str (CHR ''-'' # nat_str ?n) = CHR ''-'' # nat_str ?n"
    by (rule strip_str_id) (use sp nat_str_no_space in auto)
  from True s show ?thesis
    by (simp add: int_str_def py_int_def Let_def split_on_id digits_val_nat_str nat_str_avoids
        nat_str_all_digits)
qed

lemma int_str_inj [simp]: "int_str i = int_str j \<longleftrightarrow> i = j"
  by (metis option.inject py_int_int_str)

section \<open>Lists and association lists\<close>

text \<open>A Python dict keeps insertion order and overwrites in place: \<open>AList.update\<close>.\<close>

lemma map_of_filter_key: "map_of (filter (\<lambda>(k, v). P k) xs) k = (if P k then map_of xs k else None)"
  by (induction xs) auto

lemma dom_map_of_update: "dom (map_of (AList.update k v xs)) = insert k (dom (map_of xs))"
  by (simp add: update_conv')

lemma count_filter_le: "length (filter P xs) \<le> length xs"
  by simp

end
