(* ===== verification/Arguments.thy ===== *)
theory Arguments
  imports Prelude
begin

text \<open>
  The argument parser of \<open>hares/cli.py\<close>: the options it declares, and what \<open>argparse\<close> makes of an
  argument vector with them - exact and abbreviated options, \<open>--option=value\<close> and
  \<open>--option value\<close>, choices and defaults. Help, version and every error leave with \<open>SystemExit\<close>.
\<close>

record cli_args =
  arg_enable :: string
  arg_scope_id :: "string option"
  arg_ceiling :: "string option"
  arg_read_only :: bool
  arg_deny :: "string option"
  arg_suspect :: "string option"
  arg_network :: "string option"
  arg_network_allow :: "string option"
  arg_state_file :: "string option"

datatype cli_option = OHelp | OVersion | OEnable | OScopeId | OCeiling | OReadOnly | ODeny | OSuspect
  | ONetwork | ONetworkAllow | OStateFile

definition option_strings :: "(string \<times> cli_option) list" where
  "option_strings = [(''-h'', OHelp), (''--help'', OHelp), (''--version'', OVersion), (''--enable'', OEnable),
     (''--scope-id'', OScopeId), (''--ceiling'', OCeiling), (''--read-only'', OReadOnly), (''--deny'', ODeny),
     (''--suspect'', OSuspect), (''--network'', ONetwork), (''--network-allow'', ONetworkAllow),
     (''--state-file'', OStateFile)]"

definition enable_choices :: "string list" where
  "enable_choices = [''shell'', ''fs'', ''fs+shell'', ''lsf'', ''slurm'']"

definition network_choices :: "string list" where
  "network_choices = [''on'', ''off'', ''allowlist'']"

definition default_args :: cli_args where
  "default_args = \<lparr>arg_enable = ''shell'', arg_scope_id = None, arg_ceiling = None, arg_read_only = False,
     arg_deny = None, arg_suspect = None, arg_network = None, arg_network_allow = None, arg_state_file = None\<rparr>"

text \<open>How an argument is read: as an option with an attached value or without, as a value, or not at all.
  A lone \<open>--\<close>, with which no value and no option can follow here, counts as not readable.\<close>

datatype arg_class = IsOption cli_option "string option" | IsValue | Unreadable

definition split_value :: "string \<Rightarrow> string \<times> string option" where
  "split_value s = (case partition_str ''='' s of None \<Rightarrow> (s, None) | Some (a, b) \<Rightarrow> (a, Some b))"

text \<open>\<open>^-\d+$|^-\d*\.\d+$\<close>, the arguments that look like a negative number.\<close>

definition looks_negative :: "string \<Rightarrow> bool" where
  "looks_negative s \<longleftrightarrow> s \<noteq> [] \<and> hd s = CHR ''-'' \<and>
     (case partition_str ''.'' (tl s) of
        None \<Rightarrow> tl s \<noteq> [] \<and> list_all is_digit (tl s)
      | Some (a, b) \<Rightarrow> list_all is_digit a \<and> b \<noteq> [] \<and> list_all is_digit b)"

definition classify :: "string \<Rightarrow> arg_class" where
  "classify s =
     (if \<not> prefix ''-'' s \<or> s = ''-'' then IsValue
      else if s = ''--'' then Unreadable
      else case map_of option_strings s of
        Some opt \<Rightarrow> IsOption opt None
      | None \<Rightarrow>
          (let (name, value) = split_value s in
           case (map_of option_strings name, value) of
             (Some opt, Some v) \<Rightarrow> IsOption opt (Some v)
           | _ \<Rightarrow>
               (case filter (\<lambda>(n, _). prefix ''--'' s \<and> prefix name n) option_strings of
                  [(n, opt)] \<Rightarrow> IsOption opt value
                | [] \<Rightarrow> if prefix ''-h'' s then IsOption OHelp None
                        else if looks_negative s \<or> CHR '' '' \<in> set s then IsValue else Unreadable
                | _ \<Rightarrow> Unreadable)))"

definition usage_exit :: "'a result" where
  "usage_exit = raise_err (SystemExit ''usage'')"

text \<open>Storing the value of an option, with its choices.\<close>

definition store_option :: "cli_option \<Rightarrow> string \<Rightarrow> cli_args \<Rightarrow> cli_args result" where
  "store_option opt v a = (case opt of
      OEnable \<Rightarrow> if v \<in> set enable_choices then ok (a\<lparr>arg_enable := v\<rparr>) else usage_exit
    | OScopeId \<Rightarrow> ok (a\<lparr>arg_scope_id := Some v\<rparr>)
    | OCeiling \<Rightarrow> ok (a\<lparr>arg_ceiling := Some v\<rparr>)
    | ODeny \<Rightarrow> ok (a\<lparr>arg_deny := Some v\<rparr>)
    | OSuspect \<Rightarrow> ok (a\<lparr>arg_suspect := Some v\<rparr>)
    | ONetwork \<Rightarrow> if v \<in> set network_choices then ok (a\<lparr>arg_network := Some v\<rparr>) else usage_exit
    | ONetworkAllow \<Rightarrow> ok (a\<lparr>arg_network_allow := Some v\<rparr>)
    | OStateFile \<Rightarrow> ok (a\<lparr>arg_state_file := Some v\<rparr>)
    | _ \<Rightarrow> usage_exit)"

function parse_from :: "cli_args \<Rightarrow> string list \<Rightarrow> cli_args result" where
  "parse_from a [] = ok a"
| "parse_from a (s # argv) = (case classify s of
      IsOption OReadOnly None \<Rightarrow> parse_from (a\<lparr>arg_read_only := True\<rparr>) argv
    | IsOption OReadOnly (Some v) \<Rightarrow> usage_exit
    | IsOption opt (Some v) \<Rightarrow> rbind (store_option opt v a) (\<lambda>a1. parse_from a1 argv)
    | IsOption opt None \<Rightarrow>
        (if opt = OHelp \<or> opt = OVersion \<or> argv = [] \<or> classify (hd argv) \<noteq> IsValue then usage_exit
         else rbind (store_option opt (hd argv) a) (\<lambda>a1. parse_from a1 (tl argv)))
    | _ \<Rightarrow> usage_exit)"
  by pat_completeness auto

termination parse_from
  by (relation "measure (\<lambda>(a, argv). length argv)") auto

definition parse_args :: "string list \<Rightarrow> cli_args result" where
  "parse_args = parse_from default_args"

section \<open>What a parsed command line is\<close>

definition in_choices :: "cli_args \<Rightarrow> bool" where
  "in_choices a \<longleftrightarrow> arg_enable a \<in> set enable_choices \<and>
     (case arg_network a of None \<Rightarrow> True | Some m \<Rightarrow> m \<in> set network_choices)"

lemma store_option_choices: "in_choices a \<Longrightarrow> store_option opt v a = ok a1 \<Longrightarrow> in_choices a1"
  by (cases opt) (auto simp: store_option_def in_choices_def usage_exit_def split: if_splits)

lemma parse_from_choices: "in_choices a \<Longrightarrow> parse_from a argv = ok b \<Longrightarrow> in_choices b"
proof (induction a argv rule: parse_from.induct)
  case (2 a s argv)
  then show ?case
    by (auto simp: usage_exit_def in_choices_def [of "a\<lparr>arg_read_only := True\<rparr>"] in_choices_def [of a, symmetric]
        split: arg_class.splits option.splits cli_option.splits if_splits dest: store_option_choices)
qed simp

text \<open>Both forms of giving a value are the same, unless the value reads as an option.\<close>

lemma no_equals: "(n, opt) \<in> set option_strings \<Longrightarrow> CHR ''='' \<notin> set n \<and> prefix ''-'' n \<and> 2 \<le> length n \<and> n \<noteq> ''--''"
  by (auto simp: option_strings_def)

lemma option_found: "(n, opt) \<in> set option_strings \<Longrightarrow> map_of option_strings n = Some opt"
proof -
  have "distinct (map fst option_strings)" by code_simp
  then show "(n, opt) \<in> set option_strings \<Longrightarrow> map_of option_strings n = Some opt" by simp
qed

lemma split_value_join: "CHR ''='' \<notin> set n \<Longrightarrow> split_value (n @ ''='' @ v) = (n, Some v)"
proof -
  assume "CHR ''='' \<notin> set n"
  then have "partition_str ''='' (n @ ''='' @ v) = Some (n, v)" by (induction n) auto
  then show ?thesis by (simp add: split_value_def)
qed

lemma classify_option:
  assumes "(n, opt) \<in> set option_strings"
  shows "classify n = IsOption opt None" "classify (n @ ''='' @ v) = IsOption opt (Some v)"
proof -
  note n = no_equals [OF assms] option_found [OF assms]
  then show "classify n = IsOption opt None" by (auto simp: classify_def)
  have "n @ ''='' @ v \<notin> fst ` set option_strings"
  proof
    assume "n @ ''='' @ v \<in> fst ` set option_strings"
    then obtain opt' where "(n @ ''='' @ v, opt') \<in> set option_strings" by auto
    from no_equals [OF this] show False by simp
  qed
  then have "map_of option_strings (n @ ''='' @ v) = None" by (simp add: map_of_eq_None_iff)
  moreover have "n @ ''='' @ v \<noteq> ''--''" "n @ ''='' @ v \<noteq> ''-''"
    using n(1) by (auto simp: append_eq_Cons_conv)
  ultimately show "classify (n @ ''='' @ v) = IsOption opt (Some v)"
    using n split_value_join [of n v] by (cases n) (auto simp: classify_def)
qed

lemma attached_value:
  assumes "(n, opt) \<in> set option_strings" "opt \<notin> {OHelp, OVersion, OReadOnly}" "classify v = IsValue"
  shows "parse_from a ((n @ ''='' @ v) # argv) = parse_from a (n # v # argv)"
  using assms classify_option [OF assms(1)] by (cases opt) simp_all

text \<open>
  The argument parser fails closed. Whatever the argument vector, if it parses then the server family and the
  network mode are among the declared choices, so the dispatch never falls through.
\<close>

theorem parsed_in_choices:
  assumes "parse_args argv = ok a"
  shows "arg_enable a \<in> set enable_choices \<and>
    (case arg_network a of None \<Rightarrow> True | Some m \<Rightarrow> m \<in> set network_choices)"
proof -
  have "in_choices default_args" by (simp add: in_choices_def default_args_def enable_choices_def)
  with assms parse_from_choices [of default_args argv a] show ?thesis by (simp add: parse_args_def in_choices_def)
qed

theorem parsed_in_choices_witness:
  "arg_network (projr (parse_args [''--enable'', ''fs+shell'', ''--network=off'', ''--read''])) = Some ''off''"
proof -
  have "parse_args [''--enable'', ''fs+shell'', ''--network=off'', ''--read''] =
      ok (default_args\<lparr>arg_enable := ''fs+shell'', arg_network := Some ''off'', arg_read_only := True\<rparr>)"
    by code_simp
  with parsed_in_choices [OF this] show ?thesis by simp
qed

end
