(* ===== verification/Paths.thy ===== *)
theory Paths
  imports Prelude
begin

text \<open>
  Paths and the file system they are resolved against (the part of \<open>pathlib\<close> and
  \<open>posixpath\<close> every component uses): the lexical \<open>Path\<close>, the tree of directories, files
  and symbolic links, \<open>Path.resolve(strict=False)\<close> as a walk over it, and the locale
  \<open>path_resolver\<close> of what the components rely on, interpreted on that walk.
  \<open>Path.resolve\<close> raises on a symbolic-link loop, which is \<open>None\<close> here.
\<close>

section \<open>Lexical paths\<close>

text \<open>\<open>pathlib.PurePosixPath\<close>: an anchor flag and the components. The constructor drops
  empty and \<open>.\<close> components and keeps \<open>..\<close>.\<close>

datatype ppath = PPath (is_absolute: bool) (segs: "string list")

type_synonym rpath = "string list" \<comment> \<open>components of a resolved, absolute path\<close>

definition path_of :: "string \<Rightarrow> ppath" where
  "path_of s = PPath (s \<noteq> [] \<and> hd s = CHR ''/'')
     (filter (\<lambda>c. c \<noteq> [] \<and> c \<noteq> ''.'') (split_on (CHR ''/'') s))"

text \<open>\<open>base / p\<close>: an absolute right operand replaces the base.\<close>

definition path_join :: "ppath \<Rightarrow> ppath \<Rightarrow> ppath" where
  "path_join b p = (if is_absolute p then p else PPath (is_absolute b) (segs b @ segs p))"

definition rpath_path :: "rpath \<Rightarrow> ppath" where
  "rpath_path p = PPath True p"

text \<open>\<open>str(p)\<close> of a resolved path, and of any path.\<close>

definition rpath_str :: "rpath \<Rightarrow> string" where
  "rpath_str p = CHR ''/'' # join_str ''/'' p"

definition ppath_str :: "ppath \<Rightarrow> string" where
  "ppath_str p = (if is_absolute p then rpath_str (segs p)
     else if segs p = [] then ''.'' else join_str ''/'' (segs p))"

definition ok_seg :: "string \<Rightarrow> bool" where
  "ok_seg s \<longleftrightarrow> s \<noteq> [] \<and> CHR ''/'' \<notin> set s \<and> s \<noteq> ''.'' \<and> s \<noteq> ''..''"

definition rpath_ok :: "rpath \<Rightarrow> bool" where
  "rpath_ok p \<longleftrightarrow> list_all ok_seg p"

definition ppath_ok :: "ppath \<Rightarrow> bool" where
  "ppath_ok p \<longleftrightarrow> list_all (\<lambda>c. c \<noteq> [] \<and> c \<noteq> ''.'' \<and> CHR ''/'' \<notin> set c) (segs p)"

lemma ppath_ok_path_of [simp, path_facts]: "ppath_ok (path_of s)"
  by (auto simp: ppath_ok_def path_of_def list_all_iff dest: split_on_no_sep)

lemma ppath_ok_join [simp]: "ppath_ok b \<Longrightarrow> ppath_ok p \<Longrightarrow> ppath_ok (path_join b p)"
  by (simp add: ppath_ok_def path_join_def)

lemma ppath_ok_rpath [simp]: "rpath_ok p \<Longrightarrow> ppath_ok (rpath_path p)"
  by (auto simp: ppath_ok_def rpath_ok_def rpath_path_def ok_seg_def list_all_iff)

lemma is_absolute_rpath [simp]: "is_absolute (rpath_path p)" "segs (rpath_path p) = p"
  by (simp_all add: rpath_path_def)

lemma rpath_ok_append [simp]: "rpath_ok (p @ q) \<longleftrightarrow> rpath_ok p \<and> rpath_ok q"
  by (simp add: rpath_ok_def)

text \<open>The string of a resolved path determines its components.\<close>

lemma split_rpath_str: "rpath_ok p \<Longrightarrow> p \<noteq> [] \<Longrightarrow> split_on (CHR ''/'') (rpath_str p) = [] # p"
  by (auto simp: rpath_str_def rpath_ok_def ok_seg_def list_all_iff intro!: split_join)

lemma path_of_rpath_str [path_facts]: "rpath_ok p \<Longrightarrow> path_of (rpath_str p) = rpath_path p"
proof (cases "p = []")
  case True
  then show ?thesis by (simp add: path_of_def rpath_str_def rpath_path_def)
next
  case False
  assume p: "rpath_ok p"
  then have "filter (\<lambda>c. c \<noteq> [] \<and> c \<noteq> ''.'') p = p"
    by (auto simp: rpath_ok_def ok_seg_def list_all_iff)
  with p False show ?thesis
    by (simp add: path_of_def split_rpath_str rpath_path_def) (simp add: rpath_str_def)
qed

lemma rpath_str_inj: "rpath_ok p \<Longrightarrow> rpath_ok q \<Longrightarrow> rpath_str p = rpath_str q \<longleftrightarrow> p = q"
  by (metis path_of_rpath_str is_absolute_rpath(2))

lemma join_str_append:
  "p \<noteq> [] \<Longrightarrow> q \<noteq> [] \<Longrightarrow> join_str sep (p @ q) = join_str sep p @ sep @ join_str sep q"
  by (induction sep p rule: join_str.induct) (auto simp: neq_Nil_conv)

lemma split_on_prefix:
  "prefix (s @ [c]) t \<Longrightarrow> prefix (split_on c s) (split_on c t)"
proof -
  assume "prefix (s @ [c]) t"
  then obtain u where t: "t = s @ c # u" by (auto simp: prefix_def)
  have "split_on c (s @ c # u) = split_on c s @ split_on c u"
    by (induction s) (auto split: list.splits)
  with t show ?thesis by simp
qed

text \<open>The separator-aware string test the source writes, \<open>c.startswith(p.rstrip("/") + "/")\<close>,
  is the prefix order on components.\<close>

definition rstrip_slash :: "string \<Rightarrow> string" where
  "rstrip_slash s = rev (dropWhile (\<lambda>c. c = CHR ''/'') (rev s))"

lemma last_join_str:
  "rpath_ok p \<Longrightarrow> p \<noteq> [] \<Longrightarrow> join_str ''/'' p \<noteq> [] \<and> last (join_str ''/'' p) \<noteq> CHR ''/''"
  by (induction "''/''" p rule: join_str.induct)
    (auto simp: rpath_ok_def ok_seg_def dest: last_in_set)

lemma rstrip_slash_rpath:
  "rpath_ok p \<Longrightarrow> rstrip_slash (rpath_str p) = (if p = [] then [] else rpath_str p)"
proof (cases "p = []")
  case True
  then show ?thesis by (simp add: rstrip_slash_def rpath_str_def)
next
  case False
  assume "rpath_ok p"
  with False have j: "join_str ''/'' p \<noteq> []" "last (join_str ''/'' p) \<noteq> CHR ''/''"
    using last_join_str by auto
  then have "hd (rev (rpath_str p)) \<noteq> CHR ''/''" and "rev (rpath_str p) \<noteq> []"
    by (simp_all add: rpath_str_def hd_append hd_rev)
  then have "dropWhile (\<lambda>c. c = CHR ''/'') (rev (rpath_str p)) = rev (rpath_str p)"
    by (cases "rev (rpath_str p)") auto
  with False show ?thesis by (simp add: rstrip_slash_def)
qed

lemma startswith_iff_prefix [path_facts]:
  assumes c: "rpath_ok c" and p: "rpath_ok p"
  shows "prefix (rstrip_slash (rpath_str p) @ ''/'') (rpath_str c) \<longleftrightarrow> p = [] \<or> strict_prefix p c"
    (is "?L \<longleftrightarrow> ?R")
proof (cases "p = []")
  case True
  moreover have "rstrip_slash (rpath_str []) = []"
    by (simp add: rstrip_slash_def rpath_str_def)
  ultimately show ?thesis by (simp add: rpath_str_def)
next
  case False
  have s: "rstrip_slash (rpath_str p) = rpath_str p"
    using False by (simp add: rstrip_slash_rpath [OF p])
  show ?thesis
  proof
    assume ?L
    with s have pre: "prefix (rpath_str p @ [CHR ''/'']) (rpath_str c)" by simp
    have cne: "c \<noteq> []"
    proof
      assume "c = []"
      with pre have "length (rpath_str p) = 0"
        by (auto simp: rpath_str_def prefix_def)
      then show False by (simp add: rpath_str_def)
    qed
    from split_on_prefix [OF pre] have "prefix p c"
      by (simp add: split_rpath_str [OF p False] split_rpath_str [OF c cne])
    moreover have "p \<noteq> c"
      using pre by (auto dest: prefix_length_le)
    ultimately show ?R by (simp add: strict_prefix_def)
  next
    assume ?R
    with False have "strict_prefix p c" by simp
    then obtain q where q: "c = p @ q" "q \<noteq> []" by (auto simp: strict_prefix_def prefix_def)
    with False have "rpath_str c = rpath_str p @ ''/'' @ join_str ''/'' q"
      by (simp add: rpath_str_def join_str_append)
    with s show ?L by (simp add: prefix_def)
  qed
qed

section \<open>The file tree\<close>

text \<open>The disk: an association list from resolved paths to nodes. The root directory is
  always there.\<close>

datatype node = DirN | FileN string | LinkN string

type_synonym fsys = "(rpath \<times> node) list"

definition node_at :: "fsys \<Rightarrow> rpath \<Rightarrow> node option" where
  "node_at fs p = (if p = [] then Some DirN else map_of fs p)"

definition link_at :: "fsys \<Rightarrow> rpath \<Rightarrow> string option" where
  "link_at fs p = (case map_of fs p of Some (LinkN t) \<Rightarrow> Some t | _ \<Rightarrow> None)"

fun walk :: "fsys \<Rightarrow> nat \<Rightarrow> rpath \<Rightarrow> string list \<Rightarrow> rpath option" where
  "walk fs fuel done [] = Some done"
| "walk fs fuel done (c # todo) =
     (if c = [] \<or> c = ''.'' then walk fs fuel done todo
      else if c = ''..'' then walk fs fuel (butlast done) todo
      else case link_at fs (done @ [c]) of
        None \<Rightarrow> walk fs fuel (done @ [c]) todo
      | Some t \<Rightarrow>
          (case fuel of 0 \<Rightarrow> None
           | Suc f \<Rightarrow> walk fs f (if is_absolute (path_of t) then [] else done)
                      (segs (path_of t) @ todo)))"

text \<open>Link expansions one resolution may make before it counts as a loop (Linux:
  \<open>MAXSYMLINKS\<close>).\<close>

definition max_links :: nat where
  "max_links = 40"

text \<open>\<open>p.resolve(strict=False)\<close> in a process whose working directory is \<open>cwd\<close>.\<close>

definition resolve_path :: "fsys \<Rightarrow> string \<Rightarrow> ppath \<Rightarrow> rpath option" where
  "resolve_path fs cwd p =
     walk fs max_links [] (if is_absolute p then segs p else segs (path_of cwd) @ segs p)"

text \<open>No proper or improper prefix of the path is a symbolic link.\<close>

definition link_free :: "fsys \<Rightarrow> rpath \<Rightarrow> bool" where
  "link_free fs p \<longleftrightarrow> list_all (\<lambda>q. link_at fs q = None) (prefixes p)"

lemma link_free_snoc:
  "link_free fs (p @ [c]) \<longleftrightarrow> link_free fs p \<and> link_at fs (p @ [c]) = None"
  by (auto simp: link_free_def)

lemma link_free_butlast: "link_free fs p \<Longrightarrow> link_free fs (butlast p)"
  by (cases p rule: rev_cases) (auto simp: link_free_snoc)

lemma rpath_ok_butlast: "rpath_ok p \<Longrightarrow> rpath_ok (butlast p)"
  by (auto simp: rpath_ok_def list_all_iff dest: in_set_butlastD)

definition todo_ok :: "string list \<Rightarrow> bool" where
  "todo_ok xs \<longleftrightarrow> list_all (\<lambda>c. CHR ''/'' \<notin> set c) xs"

lemma todo_ok_path_of: "todo_ok (segs (path_of t))"
  using ppath_ok_path_of [of t] by (auto simp: todo_ok_def ppath_ok_def list_all_iff)

lemma todo_ok_append [simp]: "todo_ok (xs @ ys) \<longleftrightarrow> todo_ok xs \<and> todo_ok ys"
  by (simp add: todo_ok_def)

lemma todo_ok_segs: "ppath_ok p \<Longrightarrow> todo_ok (segs p)"
  by (auto simp: todo_ok_def ppath_ok_def list_all_iff)

text \<open>A resolution result has plain components and no symbolic link on the way.\<close>

lemma walk_result:
  "walk fs fuel done todo = Some q \<Longrightarrow> rpath_ok done \<Longrightarrow> todo_ok todo \<Longrightarrow> link_free fs done
   \<Longrightarrow> link_free fs [] \<Longrightarrow> rpath_ok q \<and> link_free fs q"
proof (induction fs fuel "done" todo rule: walk.induct)
  case (1 fs fuel "done")
  then show ?case by simp
next
  case (2 fs fuel "done" c todo)
  have tl: "todo_ok todo" and cs: "CHR ''/'' \<notin> set c"
    using "2.prems"(3) by (simp_all add: todo_ok_def)
  consider "c = [] \<or> c = ''.''" | "c = ''..''" | "ok_seg c"
    using cs by (auto simp: ok_seg_def)
  then show ?case
  proof cases
    case 1
    with 2 tl show ?thesis by auto
  next
    case 2
    with "2.IH"(2) "2.prems" tl show ?thesis
      by (simp add: link_free_butlast rpath_ok_butlast)
  next
    case 3
    then have cc: "c \<noteq> []" "c \<noteq> ''.''" "c \<noteq> ''..''" by (simp_all add: ok_seg_def)
    have okc: "rpath_ok (done @ [c])" using 3 "2.prems"(2) by (simp add: rpath_ok_def)
    show ?thesis
    proof (cases "link_at fs (done @ [c])")
      case None
      then have "link_free fs (done @ [c])"
        using "2.prems"(4) by (simp add: link_free_snoc)
      with None show ?thesis
        using "2.IH"(3) "2.prems"(1,5) cc tl okc by simp
    next
      case (Some t)
      with "2.prems"(1) cc obtain f where f: "fuel = Suc f"
        by (cases fuel) auto
      from "2.prems"(1) cc Some f
      have w: "walk fs f (if is_absolute (path_of t) then [] else done) (segs (path_of t) @ todo) = Some q"
        by simp
      show ?thesis
        using "2.IH"(4) [OF _ _ Some f w] cc "2.prems" tl
        by (cases "is_absolute (path_of t)") (auto simp: todo_ok_path_of rpath_ok_def)
    qed
  qed
qed

text \<open>A path without links and with plain components resolves to itself, at any fuel.\<close>

lemma walk_link_free:
  "rpath_ok todo \<Longrightarrow> link_free fs (done @ todo) \<Longrightarrow> walk fs fuel done todo = Some (done @ todo)"
proof (induction todo arbitrary: "done")
  case Nil
  then show ?case by simp
next
  case (Cons c todo)
  then have c: "c \<noteq> []" "c \<noteq> ''.''" "c \<noteq> ''..''" by (auto simp: rpath_ok_def ok_seg_def)
  have "prefix (done @ [c]) (done @ c # todo)" by simp
  with Cons.prems(2) have nl: "link_at fs (done @ [c]) = None"
    by (simp add: link_free_def list_all_iff del: prefix_snoc)
  have "walk fs fuel (done @ [c]) todo = Some ((done @ [c]) @ todo)"
    using Cons by (intro Cons.IH) (simp_all add: rpath_ok_def)
  with c nl show ?case by simp
qed

text \<open>More link expansions never change a result.\<close>

lemma walk_mono:
  "walk fs fuel done todo = Some q \<Longrightarrow> fuel \<le> fuel' \<Longrightarrow> walk fs fuel' done todo = Some q"
proof (induction fs fuel "done" todo arbitrary: fuel' rule: walk.induct)
  case (1 fs fuel "done")
  then show ?case by simp
next
  case (2 fs fuel "done" c todo)
  consider "c = [] \<or> c = ''.''" | "c = ''..''" | "c \<noteq> []" "c \<noteq> ''.''" "c \<noteq> ''..''" by blast
  then show ?case
  proof cases
    case 1
    with "2.IH"(1) "2.prems" show ?thesis by simp
  next
    case 2
    with "2.IH"(2) "2.prems" show ?thesis by simp
  next
    case 3
    show ?thesis
    proof (cases "link_at fs (done @ [c])")
      case None
      with 3 "2.IH"(3) "2.prems" show ?thesis by simp
    next
      case (Some t)
      with 3 "2.prems"(1) obtain f where f: "fuel = Suc f" by (cases fuel) auto
      with "2.prems"(2) obtain f' where f': "fuel' = Suc f'" "f \<le> f'" by (cases fuel') auto
      from 3 Some f "2.prems"(1)
      have "walk fs f (if is_absolute (path_of t) then [] else done) (segs (path_of t) @ todo) = Some q"
        by simp
      from "2.IH"(4) [OF _ _ Some f this f'(2)] 3 have
        "walk fs f' (if is_absolute (path_of t) then [] else done) (segs (path_of t) @ todo) = Some q"
        by simp
      with 3 Some f' show ?thesis by simp
    qed
  qed
qed

section \<open>What the components rely on\<close>

locale path_resolver =
  fixes resolve :: "ppath \<Rightarrow> rpath option"
  assumes resolve_ok: "ppath_ok p \<Longrightarrow> resolve p = Some q \<Longrightarrow> rpath_ok q"
    and resolve_idem: "ppath_ok p \<Longrightarrow> resolve p = Some q \<Longrightarrow> resolve (rpath_path q) = Some q"
begin

lemma resolve_again:
  "ppath_ok p \<Longrightarrow> resolve p = Some q \<Longrightarrow> resolve (path_of (rpath_str q)) = Some q"
  using resolve_ok resolve_idem path_of_rpath_str by metis

end

lemma resolve_path_ok:
  assumes "ppath_ok p" "link_free fs []" "resolve_path fs cwd p = Some q"
  shows "rpath_ok q \<and> link_free fs q"
proof (rule walk_result)
  show "walk fs max_links [] (if is_absolute p then segs p else segs (path_of cwd) @ segs p) = Some q"
    using assms(3) by (simp add: resolve_path_def)
qed (use assms in \<open>auto simp: todo_ok_segs todo_ok_path_of rpath_ok_def\<close>)

text \<open>\<open>resolve_path\<close> never puts the root in the tree as a link: the tree of a run keeps
  no entry for the root (\<open>node_at\<close>).\<close>

definition rooted :: "fsys \<Rightarrow> fsys" where
  "rooted fs = filter (\<lambda>(p, n). p \<noteq> []) fs"

lemma rooted_link_free [simp]: "link_free (rooted fs) []"
  by (auto simp: link_free_def link_at_def rooted_def dest!: map_of_SomeD split: option.splits node.splits)

lemma node_at_rooted [simp]: "node_at (rooted fs) p = node_at fs p"
  using map_of_filter_key [of "\<lambda>k. k \<noteq> []" fs p] by (simp add: node_at_def rooted_def)

definition real_path :: "fsys \<Rightarrow> string \<Rightarrow> ppath \<Rightarrow> rpath option" where
  "real_path fs cwd = resolve_path (rooted fs) cwd"

interpretation os_path: path_resolver "real_path fs cwd" for fs cwd
proof unfold_locales
  fix p q
  assume p: "ppath_ok p" and q: "real_path fs cwd p = Some q"
  then have r: "rpath_ok q \<and> link_free (rooted fs) q"
    unfolding real_path_def by (intro resolve_path_ok) auto
  then show "rpath_ok q" by simp
  from r have "walk (rooted fs) max_links [] q = Some ([] @ q)"
    by (intro walk_link_free) auto
  then show "real_path fs cwd (rpath_path q) = Some q"
    by (simp add: real_path_def resolve_path_def)
qed

end
