(* ===== verification/Environ.thy ===== *)
theory Environ
  imports Paths
begin

text \<open>
  The process environment a Hares server reads: environment variables, working directory,
  account database and disk, with the expansion functions of \<open>os.path\<close> that the code
  applies to configured paths. Every operation that consults the environment takes the
  \<open>host\<close> as its first argument.
\<close>

record host =
  environ :: "string \<Rightarrow> string option"
  cwd :: string
  disk :: fsys
  pw_home :: "string \<Rightarrow> string option"  \<comment> \<open>home directory of a named account\<close>
  uid_home :: "string option"            \<comment> \<open>home directory of the server's own account\<close>

definition resolve_on :: "host \<Rightarrow> ppath \<Rightarrow> rpath option" where
  "resolve_on h = real_path (disk h) (cwd h)"

interpretation host_path: path_resolver "resolve_on h" for h
  unfolding resolve_on_def by (rule os_path.path_resolver_axioms)

lemma resolve_on_disk: "disk h = disk h' \<Longrightarrow> cwd h = cwd h' \<Longrightarrow> resolve_on h = resolve_on h'"
  by (simp add: resolve_on_def)

text \<open>\<open>os.environ.get(name, default)\<close>.\<close>

definition getenv :: "host \<Rightarrow> string \<Rightarrow> string \<Rightarrow> string" where
  "getenv h n d = (case environ h n of None \<Rightarrow> d | Some v \<Rightarrow> v)"

definition upper_chr :: "char \<Rightarrow> char" where
  "upper_chr c = (let n = (of_char c :: nat) in if 97 \<le> n \<and> n \<le> 122 then char_of (n - 32) else c)"

definition upper_str :: "string \<Rightarrow> string" where
  "upper_str s = map upper_chr s"

definition env_truthy :: "string \<Rightarrow> bool" where
  "env_truthy raw \<longleftrightarrow> lower_str (strip_str raw) \<in> {''1'', ''true'', ''yes'', ''on''}"

section \<open>\<open>os.path.expandvars\<close>, \<open>expanduser\<close>, \<open>abspath\<close>\<close>

definition is_word_chr :: "char \<Rightarrow> bool" where
  "is_word_chr c \<longleftrightarrow> (let n = (of_char c :: nat) in
     (48 \<le> n \<and> n \<le> 57) \<or> (65 \<le> n \<and> n \<le> 90) \<or> (97 \<le> n \<and> n \<le> 122) \<or> n = 95)"

text \<open>\<open>$NAME\<close> and \<open>${NAME}\<close> are replaced when set and left alone otherwise; a replacement is
  not expanded again.\<close>

function (sequential) expandvars :: "(string \<Rightarrow> string option) \<Rightarrow> string \<Rightarrow> string" where
  "expandvars e [] = []"
| "expandvars e (c # s) =
     (if c = CHR ''$'' then
        (if s \<noteq> [] \<and> hd s = CHR ''{'' \<and> CHR ''}'' \<in> set s then
           (let nm = takeWhile (\<lambda>x. x \<noteq> CHR ''}'') (tl s);
                rest = tl (dropWhile (\<lambda>x. x \<noteq> CHR ''}'') s)
            in (case e nm of Some v \<Rightarrow> v | None \<Rightarrow> ''${'' @ nm @ ''}'') @ expandvars e rest)
         else if s \<noteq> [] \<and> is_word_chr (hd s) then
           (let nm = takeWhile is_word_chr s; rest = dropWhile is_word_chr s
            in (case e nm of Some v \<Rightarrow> v | None \<Rightarrow> CHR ''$'' # nm) @ expandvars e rest)
         else c # expandvars e s)
      else c # expandvars e s)"
  by pat_completeness auto

lemma length_dropWhile_less: "length (dropWhile P s) < Suc (length s)"
  "length (dropWhile P s) - Suc 0 < Suc (length s)"
  using length_dropWhile_le [of P s] by linarith+

termination expandvars
  by (relation "measure (\<lambda>(e, s). length s)") (auto simp: length_dropWhile_less)

declare expandvars.simps(2) [simp del]

lemma expandvars_plain: "CHR ''$'' \<notin> set s \<Longrightarrow> expandvars e s = s"
  by (induction s) (auto simp: expandvars.simps)

definition expanduser :: "host \<Rightarrow> string \<Rightarrow> string" where
  "expanduser h s =
     (if s = [] \<or> hd s \<noteq> CHR ''~'' then s
      else let user = takeWhile (\<lambda>c. c \<noteq> CHR ''/'') (tl s);
               rest = dropWhile (\<lambda>c. c \<noteq> CHR ''/'') s;
               home = (if user = [] then (case environ h ''HOME'' of Some v \<Rightarrow> Some v | None \<Rightarrow> uid_home h)
                       else pw_home h user)
           in case home of None \<Rightarrow> s
              | Some d \<Rightarrow> (let r = rstrip_slash d @ rest in if r = [] then ''/'' else r))"

definition expand_path :: "host \<Rightarrow> string \<Rightarrow> string" where
  "expand_path h s = expanduser h (expandvars (environ h) s)"

lemma expand_path_plain:
  "CHR ''$'' \<notin> set s \<Longrightarrow> s = [] \<or> hd s \<noteq> CHR ''~'' \<Longrightarrow> expand_path h s = s"
  by (simp add: expand_path_def expandvars_plain expanduser_def)

fun norm_segs :: "bool \<Rightarrow> string list \<Rightarrow> string list \<Rightarrow> string list" where
  "norm_segs root out [] = out"
| "norm_segs root out (c # cs) =
     (if c = [] \<or> c = ''.'' then norm_segs root out cs
      else if c \<noteq> ''..'' \<or> (\<not> root \<and> out = []) \<or> (out \<noteq> [] \<and> last out = ''..'')
        then norm_segs root (out @ [c]) cs
      else norm_segs root (butlast out) cs)"

text \<open>\<open>os.path.abspath\<close>, with POSIX's two leading slashes kept.\<close>

definition abspath :: "host \<Rightarrow> string \<Rightarrow> string" where
  "abspath h s =
     (let a = (if s \<noteq> [] \<and> hd s = CHR ''/'' then s else cwd h @ ''/'' @ s);
          slashes = (if prefix ''//'' a \<and> \<not> prefix ''///'' a then ''//'' else ''/'')
      in slashes @ join_str ''/'' (norm_segs True [] (split_on (CHR ''/'') a)))"

end
