(* ===== verification/Path_Safety.thy ===== *)
theory Path_Safety
  imports Environ
begin

text \<open>
  \<open>hares/path_safety.py\<close>: the containment primitive \<open>_is_subpath\<close>, the traversal,
  system-directory, exclude, protect and \<open>.git\<close> checks, and the resolution of a tool-call
  path under the ceiling. Lemmas: containment is the component prefix order; each check is
  characterised exactly; \<open>resolve_under_ceiling\<close> is sound.
\<close>

section \<open>System-dir policy\<close>

definition DEFAULT_SYSTEM_DIRS :: "string list" where
  "DEFAULT_SYSTEM_DIRS = [''/etc'', ''/proc'', ''/sys'', ''/dev'', ''/bin'', ''/sbin'', ''/usr/bin'',
     ''/usr/sbin'', ''/boot'', ''/root'', ''/lib'', ''/lib32'', ''/lib64'']"

definition ALWAYS_FORBIDDEN_CEILING_SEGMENTS :: "string list" where
  "ALWAYS_FORBIDDEN_CEILING_SEGMENTS = [''.git'']"

definition system_dirs_disallowed :: "host \<Rightarrow> bool" where
  "system_dirs_disallowed h = env_truthy (getenv h ''HARES_DISALLOW_SYSTEM_DIRS'' [])"

definition get_system_dir_blocklist :: "host \<Rightarrow> string list" where
  "get_system_dir_blocklist h =
     DEFAULT_SYSTEM_DIRS @
     map (\<lambda>p. abspath h (expand_path h p))
       (filter (\<lambda>p. p \<noteq> []) (split_on (CHR '':'') (getenv h ''HARES_EXTRA_SYSTEM_DIRS'' [])))"

section \<open>Containment\<close>

text \<open>\<open>_is_subpath\<close>: both sides are resolved; a resolution that raises counts as not contained.\<close>

definition is_subpath :: "host \<Rightarrow> ppath \<Rightarrow> ppath \<Rightarrow> bool" where
  "is_subpath h child parent =
     (case resolve_on h child of None \<Rightarrow> False
      | Some c \<Rightarrow> (case resolve_on h parent of None \<Rightarrow> False
        | Some p \<Rightarrow>
            (if c = p then True
             else prefix (rstrip_slash (rpath_str p) @ ''/'') (rpath_str c))))"

lemma is_subpath_iff [path_facts]:
  assumes "ppath_ok child" "ppath_ok parent"
  shows "is_subpath h child parent \<longleftrightarrow>
    (\<exists>c p. resolve_on h child = Some c \<and> resolve_on h parent = Some p \<and> prefix p c)"
proof -
  have "resolve_on h child = Some c \<Longrightarrow> resolve_on h parent = Some p \<Longrightarrow>
    is_subpath h child parent \<longleftrightarrow> prefix p c" for c p
    using host_path.resolve_ok [OF assms(1)] host_path.resolve_ok [OF assms(2)]
    by (auto simp: is_subpath_def startswith_iff_prefix strict_prefix_def)
  then show ?thesis
    by (cases "resolve_on h child"; cases "resolve_on h parent") (simp_all add: is_subpath_def)
qed

text \<open>A path that is a resolution result, as every \<open>resolved\<close> argument of this module is.\<close>

definition resolved_on :: "host \<Rightarrow> rpath \<Rightarrow> bool" where
  "resolved_on h p \<longleftrightarrow> rpath_ok p \<and> resolve_on h (rpath_path p) = Some p"

lemma resolved_onI: "ppath_ok p \<Longrightarrow> resolve_on h p = Some q \<Longrightarrow> resolved_on h q"
  using host_path.resolve_ok host_path.resolve_idem by (auto simp: resolved_on_def)

lemma is_subpath_resolved [path_facts]:
  "resolved_on h c \<Longrightarrow> resolved_on h p \<Longrightarrow> is_subpath h (rpath_path c) (rpath_path p) \<longleftrightarrow> prefix p c"
  by (simp add: is_subpath_iff resolved_on_def)

lemma is_subpath_refl: "resolved_on h p \<Longrightarrow> is_subpath h (rpath_path p) (rpath_path p)"
  by (simp add: is_subpath_resolved)

lemma is_subpath_trans:
  assumes "ppath_ok a" "ppath_ok b" "ppath_ok c"
    and "is_subpath h a b" "is_subpath h b c"
  shows "is_subpath h a c"
  using assms by (auto simp: is_subpath_iff dest: prefix_order.order_trans)

section \<open>Checks\<close>

definition backslash :: char where
  "backslash = CHR 0x5C"

definition validate_path_no_traversal :: "string \<Rightarrow> unit result" where
  "validate_path_no_traversal s =
     check_all (\<lambda>segment. if segment = ''..'' then raise_err (PathSafetyError s) else ok ())
       (split_on (CHR ''/'') (map (\<lambda>c. if c = backslash then CHR ''/'' else c) s))"

definition validate_path_no_system_dir :: "host \<Rightarrow> ppath \<Rightarrow> string list option \<Rightarrow> unit result" where
  "validate_path_no_system_dir h p blocklist =
     (if \<not> system_dirs_disallowed h then ok ()
      else check_all (\<lambda>forbidden. if is_subpath h p (path_of forbidden)
                                  then raise_err (PathSafetyError (ppath_str p)) else ok ())
             (case blocklist of None \<Rightarrow> get_system_dir_blocklist h | Some b \<Rightarrow> b))"

definition load_denylist :: "host \<Rightarrow> string \<Rightarrow> ppath \<Rightarrow> rpath list result" where
  "load_denylist h env_var ceiling =
     (let raw = getenv h env_var [] in
      if raw = [] then ok []
      else collect (\<lambda>piece.
             let candidate = path_of (expand_path h piece);
                 candidate = (if is_absolute candidate then candidate else path_join ceiling candidate)
             in from_option (RuntimeError piece) (resolve_on h candidate))
           (filter (\<lambda>piece. piece \<noteq> []) (split_on (CHR '':'') raw)))"

definition get_exclude_list :: "host \<Rightarrow> ppath \<Rightarrow> rpath list result" where
  "get_exclude_list h ceiling = load_denylist h ''HARES_SANDBOX_EXCLUDE'' ceiling"

definition get_protect_list :: "host \<Rightarrow> ppath \<Rightarrow> rpath list result" where
  "get_protect_list h ceiling = load_denylist h ''HARES_SANDBOX_PROTECT'' ceiling"

record deny_lists =
  exclude :: "rpath list"
  protect :: "rpath list"

definition resolve_deny_lists :: "host \<Rightarrow> ppath \<Rightarrow> deny_lists result" where
  "resolve_deny_lists h ceiling =
     rbind (get_exclude_list h ceiling) (\<lambda>ex.
     rbind (get_protect_list h ceiling) (\<lambda>pr.
     ok \<lparr>exclude = ex, protect = pr\<rparr>))"

definition is_denied :: "host \<Rightarrow> ppath \<Rightarrow> rpath list \<Rightarrow> bool" where
  "is_denied h p denylist = list_ex (\<lambda>d. is_subpath h p (rpath_path d)) denylist"

definition validate_path_not_excluded ::
  "host \<Rightarrow> rpath \<Rightarrow> ppath \<Rightarrow> rpath list option \<Rightarrow> unit result" where
  "validate_path_not_excluded h resolved ceiling excludelist =
     rbind (case excludelist of Some l \<Rightarrow> ok l | None \<Rightarrow> get_exclude_list h ceiling) (\<lambda>candidates.
     check_all (\<lambda>denied. if is_subpath h (rpath_path resolved) (rpath_path denied)
                         then raise_err (PathDeniedError (rpath_str resolved)) else ok ())
       candidates)"

definition validate_path_not_protected ::
  "host \<Rightarrow> rpath \<Rightarrow> ppath \<Rightarrow> rpath list option \<Rightarrow> unit result" where
  "validate_path_not_protected h resolved ceiling protectlist =
     rbind (case protectlist of Some l \<Rightarrow> ok l | None \<Rightarrow> get_protect_list h ceiling) (\<lambda>candidates.
     check_all (\<lambda>denied. if is_subpath h (rpath_path resolved) (rpath_path denied)
                         then raise_err (PathDeniedError (rpath_str resolved)) else ok ())
       candidates)"

text \<open>\<open>PurePath.parts\<close> of a resolved path starts with the root.\<close>

definition contains_forbidden_segment :: "rpath \<Rightarrow> string list \<Rightarrow> bool" where
  "contains_forbidden_segment resolved segments =
     (let parts = ''/'' # resolved in
      list_ex (\<lambda>forbidden.
        let seg_parts = segs (path_of forbidden) in
        list_ex (\<lambda>i. take (length seg_parts) (drop i parts) = seg_parts)
          [0..<Suc (length parts) - length seg_parts])
      segments)"

definition validate_ceiling :: "host \<Rightarrow> ppath \<Rightarrow> unit result" where
  "validate_ceiling h ceiling =
     rbind (from_option (RuntimeError (ppath_str ceiling)) (resolve_on h ceiling)) (\<lambda>resolved.
     if contains_forbidden_segment resolved ALWAYS_FORBIDDEN_CEILING_SEGMENTS
     then raise_err (PathSafetyError (rpath_str resolved))
     else validate_path_no_system_dir h (rpath_path resolved) None)"

datatype gmode = RO | RW

definition validate_grant_target ::
  "host \<Rightarrow> rpath \<Rightarrow> gmode \<Rightarrow> ppath option \<Rightarrow> deny_lists option \<Rightarrow> unit result" where
  "validate_grant_target h resolved mode ceiling deny =
     (if contains_forbidden_segment resolved ALWAYS_FORBIDDEN_CEILING_SEGMENTS
      then raise_err (PathSafetyError (rpath_str resolved))
      else rbind (validate_path_no_system_dir h (rpath_path resolved) None) (\<lambda>_.
        case ceiling of None \<Rightarrow> ok ()
        | Some cl \<Rightarrow>
            if is_subpath h (rpath_path resolved) cl then
              rbind (validate_path_not_excluded h resolved cl (map_option exclude deny)) (\<lambda>_.
              if mode = RW then validate_path_not_protected h resolved cl (map_option protect deny)
              else ok ())
            else ok ()))"

definition resolve_path_arg :: "host \<Rightarrow> string \<Rightarrow> ppath \<Rightarrow> rpath result" where
  "resolve_path_arg h path_str base =
     rbind (validate_path_no_traversal path_str) (\<lambda>_.
     let raw = path_of path_str;
         candidate = (if is_absolute raw then raw else path_join base raw)
     in from_option (RuntimeError path_str) (resolve_on h candidate))"

definition finish_under_ceiling ::
  "host \<Rightarrow> rpath \<Rightarrow> ppath \<Rightarrow> rpath list option \<Rightarrow> rpath result" where
  "finish_under_ceiling h resolved ceiling excludelist =
     (if \<not> is_subpath h (rpath_path resolved) ceiling
      then raise_err (PathSafetyError (rpath_str resolved))
      else rbind (validate_path_no_system_dir h (rpath_path resolved) None) (\<lambda>_.
           rbind (validate_path_not_excluded h resolved ceiling excludelist) (\<lambda>_.
           ok resolved)))"

definition resolve_under_ceiling ::
  "host \<Rightarrow> string \<Rightarrow> ppath \<Rightarrow> rpath list option \<Rightarrow> rpath result" where
  "resolve_under_ceiling h path_str ceiling excludelist =
     rbind (resolve_path_arg h path_str ceiling) (\<lambda>resolved.
     finish_under_ceiling h resolved ceiling excludelist)"

section \<open>What each check means\<close>

lemma validate_path_no_traversal_ok:
  "validate_path_no_traversal s = ok u \<longleftrightarrow>
     ''..'' \<notin> set (split_on (CHR ''/'') (map (\<lambda>c. if c = backslash then CHR ''/'' else c) s))"
  by (auto simp: validate_path_no_traversal_def check_all_ok)

lemma split_on_map_subst_parts:
  assumes "c \<noteq> b"
  shows "(b \<notin> set (hd (split_on c s)) \<longrightarrow>
      hd (split_on c (map (\<lambda>x. if x = b then c else x) s)) = hd (split_on c s)) \<and>
    (\<forall>q \<in> set (tl (split_on c s)). b \<notin> set q \<longrightarrow>
      q \<in> set (tl (split_on c (map (\<lambda>x. if x = b then c else x) s))))"
proof (induction s)
  case (Cons a s)
  obtain y ys where y: "split_on c s = y # ys" by (cases "split_on c s") auto
  obtain z zs where z: "split_on c (map (\<lambda>x. if x = b then c else x) s) = z # zs"
    by (cases "split_on c (map (\<lambda>x. if x = b then c else x) s)") auto
  from Cons y z assms show ?case by auto
qed simp

lemma split_on_map_subst:
  assumes "c \<noteq> b" "b \<notin> set p" "p \<in> set (split_on c s)"
  shows "p \<in> set (split_on c (map (\<lambda>x. if x = b then c else x) s))"
proof -
  obtain y ys where y: "split_on c s = y # ys" by (cases "split_on c s") auto
  obtain z zs where z: "split_on c (map (\<lambda>x. if x = b then c else x) s) = z # zs"
    by (cases "split_on c (map (\<lambda>x. if x = b then c else x) s)") auto
  from split_on_map_subst_parts [OF assms(1), of s] y z assms(2,3) show ?thesis by auto
qed

lemma traversal_free_segs:
  assumes "validate_path_no_traversal s = ok u"
  shows "''..'' \<notin> set (segs (path_of s))"
proof
  assume "''..'' \<in> set (segs (path_of s))"
  then have "''..'' \<in> set (split_on (CHR ''/'') s)" by (simp add: path_of_def)
  moreover have "CHR ''/'' \<noteq> backslash" "backslash \<notin> set ''..''" by (simp_all add: backslash_def)
  ultimately have
    "''..'' \<in> set (split_on (CHR ''/'') (map (\<lambda>c. if c = backslash then CHR ''/'' else c) s))"
    by (intro split_on_map_subst)
  with assms show False by (simp add: validate_path_no_traversal_ok)
qed

lemma validate_path_no_system_dir_ok:
  "validate_path_no_system_dir h p bl = ok u \<longleftrightarrow>
     \<not> system_dirs_disallowed h \<or>
     (\<forall>d \<in> set (case bl of None \<Rightarrow> get_system_dir_blocklist h | Some b \<Rightarrow> b). \<not> is_subpath h p (path_of d))"
  by (auto simp: validate_path_no_system_dir_def check_all_ok)

lemma validate_path_not_excluded_ok:
  "validate_path_not_excluded h r cl (Some ex) = ok u \<longleftrightarrow>
     (\<forall>d \<in> set ex. \<not> is_subpath h (rpath_path r) (rpath_path d))"
  by (auto simp: validate_path_not_excluded_def check_all_ok)

lemma validate_path_not_protected_ok:
  "validate_path_not_protected h r cl (Some pr) = ok u \<longleftrightarrow>
     (\<forall>d \<in> set pr. \<not> is_subpath h (rpath_path r) (rpath_path d))"
  by (auto simp: validate_path_not_protected_def check_all_ok)

lemma list_ex_window1:
  "list_ex (\<lambda>i. take (length [x]) (drop i xs) = [x]) [0..<Suc (length xs) - length [x]] \<longleftrightarrow> x \<in> set xs"
proof -
  have "take (Suc 0) (drop i xs) = [x] \<longleftrightarrow> xs ! i = x" if "i < length xs" for i
    using that by (simp add: take_Suc hd_drop_conv_nth)
  then show ?thesis by (auto simp: list_ex_iff in_set_conv_nth)
qed

lemma contains_git [path_facts]:
  "contains_forbidden_segment r ALWAYS_FORBIDDEN_CEILING_SEGMENTS \<longleftrightarrow> ''.git'' \<in> set r"
proof -
  have s: "segs (path_of ''.git'') = [''.git'']" by (simp add: path_of_def)
  have "contains_forbidden_segment r ALWAYS_FORBIDDEN_CEILING_SEGMENTS \<longleftrightarrow> ''.git'' \<in> set (''/'' # r)"
    using list_ex_window1 [of "''.git''" "''/'' # r"]
    by (simp add: contains_forbidden_segment_def ALWAYS_FORBIDDEN_CEILING_SEGMENTS_def s)
  then show ?thesis by simp
qed

lemma resolve_path_arg_ok:
  "resolve_path_arg h s base = ok r \<longleftrightarrow>
     validate_path_no_traversal s = ok () \<and> resolve_on h (path_join base (path_of s)) = Some r"
  by (auto simp: resolve_path_arg_def path_join_def Let_def)

lemma resolve_path_arg_resolved:
  "ppath_ok base \<Longrightarrow> resolve_path_arg h s base = ok r \<Longrightarrow> resolved_on h r"
  using resolved_onI [of "path_join base (path_of s)"] by (simp add: resolve_path_arg_ok)

lemma finish_under_ceiling_ok:
  "finish_under_ceiling h r cl ex = ok r' \<longleftrightarrow>
     r' = r \<and> is_subpath h (rpath_path r) cl \<and>
     validate_path_no_system_dir h (rpath_path r) None = ok () \<and>
     validate_path_not_excluded h r cl ex = ok ()"
  by (auto simp: finish_under_ceiling_def)

lemmas safety_iffs =
  validate_path_no_system_dir_ok validate_path_not_excluded_ok validate_path_not_protected_ok
  resolve_path_arg_ok finish_under_ceiling_ok contains_git

definition clear_of_system :: "host \<Rightarrow> rpath \<Rightarrow> bool" where
  "clear_of_system h r \<longleftrightarrow> validate_path_no_system_dir h (rpath_path r) None = ok ()"

end
