(* ===== verification/Json.thy ===== *)
theory Json
  imports Prelude
begin

text \<open>
  JSON values as the code handles them (\<open>json.loads\<close> results, tool arguments, tool
  results), with Python's view of them: \<open>dict.get\<close>, truth value, iteration. An object keeps
  the order of its keys. The content of a persisted file is classified by what reading and
  \<open>json.loads\<close> make of it.
\<close>

datatype json =
    JNull
  | JBool bool
  | JInt int
  | JStr string
  | JList "json list"
  | JObj "(string \<times> json) list"

text \<open>A file the code parses as JSON: not decodable as UTF-8, blank, rejected by
  \<open>json.loads\<close>, or a document.\<close>

datatype file_content = BadUtf8 | Blank | Corrupt | Doc json

fun jget :: "(string \<times> json) list \<Rightarrow> string \<Rightarrow> json" where
  "jget kvs k = (case map_of kvs k of None \<Rightarrow> JNull | Some v \<Rightarrow> v)"

fun truthy :: "json \<Rightarrow> bool" where
  "truthy JNull = False"
| "truthy (JBool b) = b"
| "truthy (JInt i) = (i \<noteq> 0)"
| "truthy (JStr s) = (s \<noteq> [])"
| "truthy (JList xs) = (xs \<noteq> [])"
| "truthy (JObj kvs) = (kvs \<noteq> [])"

text \<open>\<open>int(x)\<close> on a parsed value; \<open>None\<close> is the caught \<open>TypeError\<close> or \<open>ValueError\<close>.\<close>

fun json_int :: "json \<Rightarrow> int option" where
  "json_int (JInt i) = Some i"
| "json_int (JBool b) = Some (if b then 1 else 0)"
| "json_int (JStr s) = py_int s"
| "json_int _ = None"

text \<open>The literals \<open>float\<close> accepts; a value is kept as its literal, no theorem computes with it.\<close>

definition digit_part :: "string \<Rightarrow> bool" where
  "digit_part s \<longleftrightarrow> list_all (\<lambda>g. g \<noteq> [] \<and> list_all is_digit g) (split_on (CHR ''_'') s)"

definition unsigned :: "string \<Rightarrow> string" where
  "unsigned s = (if s \<noteq> [] \<and> hd s \<in> {CHR ''-'', CHR ''+''} then tl s else s)"

definition mantissa_ok :: "string \<Rightarrow> bool" where
  "mantissa_ok s = (case partition_str ''.'' s of
      None \<Rightarrow> digit_part s
    | Some (a, b) \<Rightarrow> (digit_part a \<and> (b = [] \<or> digit_part b)) \<or> (a = [] \<and> digit_part b))"

definition py_float_ok :: "string \<Rightarrow> bool" where
  "py_float_ok given = (let s = lower_str (unsigned (strip_str given)) in
     s \<in> {''inf'', ''infinity'', ''nan''} \<or>
     (case partition_str ''e'' s of
        None \<Rightarrow> mantissa_ok s
      | Some (m, e) \<Rightarrow> mantissa_ok m \<and> digit_part (unsigned e)))"

text \<open>Iterating a parsed value: lists, the characters of a string, the keys of an object.\<close>

fun json_iter :: "json \<Rightarrow> json list result" where
  "json_iter (JList xs) = ok xs"
| "json_iter (JStr s) = ok (map (\<lambda>c. JStr [c]) s)"
| "json_iter (JObj kvs) = ok (map (\<lambda>(k, _). JStr k) kvs)"
| "json_iter _ = raise_err (TypeError ''not iterable'')"

definition json_of_opt :: "string option \<Rightarrow> json" where
  "json_of_opt x = (case x of None \<Rightarrow> JNull | Some s \<Rightarrow> JStr s)"

lemma json_of_opt_inj [simp]: "json_of_opt x = json_of_opt y \<longleftrightarrow> x = y"
  by (auto simp: json_of_opt_def split: option.splits)

end
