(* ===== verification/Fs_Tree.thy ===== *)
theory Fs_Tree
  imports Environ Json
begin

text \<open>
  The operating-system calls of the fs server on the disk of a \<open>host\<close>: reading, writing,
  \<open>mkdir -p\<close>, \<open>os.replace\<close>, directory iteration, type tests. Each takes a resolved path, as
  the code's targets are. A failing call leaves the disk unchanged.
\<close>

text \<open>\<open>read_text\<close> opens in text mode with universal newlines: CR LF and lone CR read as LF.
  \<open>write_text\<close> writes LF as it is (POSIX).\<close>

fun universal_newlines :: "string \<Rightarrow> string" where
  "universal_newlines [] = []"
| "universal_newlines [c] = [if c = CHR 0x0D then CHR 0x0A else c]"
| "universal_newlines (c # d # s) =
     (if c = CHR 0x0D \<and> d = CHR 0x0A then CHR 0x0A # universal_newlines s
      else (if c = CHR 0x0D then CHR 0x0A else c) # universal_newlines (d # s))"

lemma universal_newlines_id: "CHR 0x0D \<notin> set s \<Longrightarrow> universal_newlines s = s"
  by (induction s rule: universal_newlines.induct) auto

definition read_text :: "fsys \<Rightarrow> rpath \<Rightarrow> string result" where
  "read_text fs p = (case node_at fs p of
      Some (FileN s) \<Rightarrow> ok (universal_newlines s)
    | None \<Rightarrow> raise_err (FileNotFoundError (rpath_str p))
    | _ \<Rightarrow> raise_err (OSError (rpath_str p)))"

definition write_text :: "fsys \<Rightarrow> rpath \<Rightarrow> string \<Rightarrow> fsys result" where
  "write_text fs p s =
     (if p = [] \<or> node_at fs p = Some DirN then raise_err (OSError (rpath_str p))
      else case node_at fs (butlast p) of
        Some DirN \<Rightarrow> ok (AList.update p (FileN s) fs)
      | None \<Rightarrow> raise_err (FileNotFoundError (rpath_str p))
      | _ \<Rightarrow> raise_err (OSError (rpath_str p)))"

definition mkdir_one :: "rpath \<Rightarrow> fsys \<Rightarrow> fsys" where
  "mkdir_one p fs = (if node_at fs p = None then AList.update p DirN fs else fs)"

text \<open>\<open>p.mkdir(parents=True, exist_ok=True)\<close>: an ancestor that is not a directory fails the
  call before anything is created.\<close>

definition mkdir_p :: "fsys \<Rightarrow> rpath \<Rightarrow> fsys result" where
  "mkdir_p fs p =
     (if list_all (\<lambda>q. node_at fs q \<in> {None, Some DirN}) (prefixes p)
      then ok (fold mkdir_one (prefixes p) fs)
      else raise_err (OSError (rpath_str p)))"

definition children :: "fsys \<Rightarrow> rpath \<Rightarrow> string list" where
  "children fs d = remdups (map last (filter (\<lambda>p. p \<noteq> [] \<and> butlast p = d) (map fst fs)))"

definition rename_node :: "fsys \<Rightarrow> rpath \<Rightarrow> rpath \<Rightarrow> fsys result" where
  "rename_node fs src dst =
     (case node_at fs src of None \<Rightarrow> raise_err (FileNotFoundError (rpath_str src))
      | Some n \<Rightarrow>
          if src = [] \<or> dst = [] \<or> node_at fs (butlast dst) \<noteq> Some DirN
          then raise_err (OSError (rpath_str dst))
          else if src = dst then ok fs
          else if prefix src dst then raise_err (OSError (rpath_str dst))
          else if node_at fs dst = Some DirN \<and> (n \<noteq> DirN \<or> children fs dst \<noteq> [])
          then raise_err (OSError (rpath_str dst))
          else if n = DirN \<and> node_at fs dst \<notin> {None, Some DirN}
          then raise_err (OSError (rpath_str dst))
          else ok (map (\<lambda>(p, m). (if prefix src p then dst @ drop (length src) p else p, m))
                     (filter (\<lambda>(p, m). p \<noteq> dst) fs)))"

definition is_dir :: "host \<Rightarrow> rpath \<Rightarrow> bool" where
  "is_dir h p = (case resolve_on h (rpath_path p) of None \<Rightarrow> False
     | Some r \<Rightarrow> node_at (disk h) r = Some DirN)"

definition is_file :: "host \<Rightarrow> rpath \<Rightarrow> bool" where
  "is_file h p = (case resolve_on h (rpath_path p) of None \<Rightarrow> False
     | Some r \<Rightarrow> (case node_at (disk h) r of Some (FileN _) \<Rightarrow> True | _ \<Rightarrow> False))"

definition iterdir :: "host \<Rightarrow> rpath \<Rightarrow> string list result" where
  "iterdir h p = (case resolve_on h (rpath_path p) of None \<Rightarrow> raise_err (OSError (rpath_str p))
     | Some r \<Rightarrow> (case node_at (disk h) r of
          Some DirN \<Rightarrow> ok (children (disk h) r)
        | None \<Rightarrow> raise_err (FileNotFoundError (rpath_str p))
        | _ \<Rightarrow> raise_err (OSError (rpath_str p))))"

fun is_os_error :: "py_error \<Rightarrow> bool" where
  "is_os_error (OSError _) = True"
| "is_os_error (FileNotFoundError _) = True"
| "is_os_error _ = False"

section \<open>What the calls change\<close>

lemma map_of_mkdir_fold:
  "map_of (fold mkdir_one ps fs) q =
     (if q \<in> set ps \<and> q \<noteq> [] \<and> map_of fs q = None then Some DirN else map_of fs q)"
proof (induction ps arbitrary: fs)
  case (Cons p ps)
  have "map_of (mkdir_one p fs) q = (if q = p \<and> p \<noteq> [] \<and> map_of fs p = None then Some DirN else map_of fs q)"
    by (simp add: mkdir_one_def node_at_def update_conv')
  with Cons show ?case by auto
qed simp

lemma mkdir_p_ok:
  assumes "mkdir_p fs p = ok fs'"
  shows "node_at fs' p = Some DirN" "\<not> prefix q p \<Longrightarrow> node_at fs' q = node_at fs q"
    "node_at fs q \<noteq> None \<Longrightarrow> node_at fs' q = node_at fs q"
  using assms by (auto simp: mkdir_p_def node_at_def map_of_mkdir_fold list_all_iff split: if_splits)

lemma mkdir_p_idem: "mkdir_p fs p = ok fs' \<Longrightarrow> mkdir_p fs' p = ok fs'"
proof -
  assume a: "mkdir_p fs p = ok fs'"
  have pre: "node_at fs' q = Some DirN" if "prefix q p" for q
    using a that by (auto simp: mkdir_p_def node_at_def map_of_mkdir_fold list_all_iff split: if_splits)
  have same: "\<forall>q \<in> set qs. node_at fs' q = Some DirN \<Longrightarrow> fold mkdir_one qs fs' = fs'" for qs
    by (induction qs) (auto simp: mkdir_one_def)
  from pre same [of "prefixes p"] show ?thesis by (simp add: mkdir_p_def list_all_iff)
qed

lemma write_text_ok:
  assumes "write_text fs p s = ok fs'"
  shows "node_at fs' p = Some (FileN s)" "q \<noteq> p \<Longrightarrow> node_at fs' q = node_at fs q"
    "read_text fs' p = ok (universal_newlines s)"
  using assms by (auto simp: write_text_def read_text_def node_at_def update_conv'
      split: if_splits option.splits node.splits)

lemma mkdir_step:
  assumes "mkdir_p fs p = ok fs'" "node_at fs' q \<noteq> node_at fs q"
  shows "prefix q p \<and> node_at fs q = None \<and> node_at fs' q = Some DirN"
proof -
  from mkdir_p_ok(2,3) [OF assms(1)] assms(2) have "prefix q p" "node_at fs q = None" by metis+
  with assms show ?thesis
    by (auto simp: mkdir_p_def node_at_def map_of_mkdir_fold split: if_splits)
qed

end
