(* ===== verification/Disk_View.thy ===== *)
theory Disk_View
  imports Path_Safety Fs_Tree
begin

text \<open>
  Hosts that differ in the contents of the disk only. Path resolution reads nothing of the
  disk but its symbolic links, and no operation of the servers makes or removes one by writing
  a file or a directory: every path decision taken before such a write stands after it.
\<close>

section \<open>Resolution depends on the links alone\<close>

definition same_links :: "fsys \<Rightarrow> fsys \<Rightarrow> bool" where
  "same_links fs fs' \<longleftrightarrow> (\<forall>p. link_at (rooted fs) p = link_at (rooted fs') p)"

lemma walk_same_links:
  "(\<And>p. link_at fs p = link_at fs' p) \<Longrightarrow> walk fs fuel done todo = walk fs' fuel done todo"
proof (induction fs fuel "done" todo rule: walk.induct)
  case (2 fs fuel "done" c todo)
  show ?case
  proof (cases "c = [] \<or> c = ''.'' \<or> c = ''..''")
    case True
    with 2 show ?thesis by auto
  next
    case False
    show ?thesis
    proof (cases "link_at fs (done @ [c])")
      case None
      with False 2 show ?thesis by simp
    next
      case (Some t)
      with "2.IH"(4) [OF _ _ Some _ "2.prems"] False "2.prems" show ?thesis
        by (cases fuel) simp_all
    qed
  qed
qed simp

lemma real_path_same_links: "same_links fs fs' \<Longrightarrow> real_path fs w p = real_path fs' w p"
  unfolding real_path_def resolve_path_def same_links_def by (rule walk_same_links) simp

lemma link_at_node: "link_at (rooted fs) p = (case node_at fs p of Some (LinkN t) \<Rightarrow> Some t | _ \<Rightarrow> None)"
  using node_at_rooted [of fs p] rooted_link_free [of fs]
  by (cases "p = []") (auto simp: link_at_def node_at_def link_free_def split: option.splits node.splits)

lemma same_linksI:
  assumes "\<And>p. node_at fs' p \<noteq> node_at fs p \<Longrightarrow>
      (\<forall>t. node_at fs p \<noteq> Some (LinkN t)) \<and> (\<forall>t. node_at fs' p \<noteq> Some (LinkN t))"
  shows "same_links fs fs'"
  unfolding same_links_def
proof
  fix p
  show "link_at (rooted fs) p = link_at (rooted fs') p"
  proof (cases "node_at fs' p = node_at fs p")
    case False
    from assms [OF this] show ?thesis by (auto simp: link_at_node split: option.splits node.splits)
  qed (simp add: link_at_node)
qed

lemma same_links_trans: "same_links a b \<Longrightarrow> same_links b c \<Longrightarrow> same_links a c"
  by (simp add: same_links_def)

lemma mkdir_same_links: "mkdir_p fs p = ok fs' \<Longrightarrow> same_links fs fs'"
  by (rule same_linksI) (auto dest: mkdir_step)

lemma write_same_links: "write_text fs p c = ok fs' \<Longrightarrow> \<forall>t. node_at fs p \<noteq> Some (LinkN t) \<Longrightarrow> same_links fs fs'"
  by (rule same_linksI) (metis write_text_ok(1,2) node.distinct(5) option.inject)

lemma resolved_not_link: "resolved_on h r \<Longrightarrow> node_at (disk h) r \<noteq> Some (LinkN t)"
proof
  assume "resolved_on h r" and l: "node_at (disk h) r = Some (LinkN t)"
  then have "rpath_ok r" "walk (rooted (disk h)) max_links [] r = Some r"
    by (simp_all add: resolved_on_def resolve_on_def real_path_def resolve_path_def)
  then have "link_free (rooted (disk h)) r"
    using walk_result [of "rooted (disk h)" max_links "[]" r r] todo_ok_segs [of "rpath_path r"]
    by (auto simp: rpath_ok_def)
  then have "link_at (rooted (disk h)) r = None" by (auto simp: link_free_def list_all_iff)
  with l show False by (simp add: link_at_node)
qed

text \<open>Two hosts that differ in the contents of the disk only.\<close>

definition same_view :: "host \<Rightarrow> host \<Rightarrow> bool" where
  "same_view h h' \<longleftrightarrow> h' = h\<lparr>disk := disk h'\<rparr> \<and> same_links (disk h) (disk h')"

lemma same_view_resolve: "same_view h h' \<Longrightarrow> resolve_on h' = resolve_on h"
  unfolding same_view_def resolve_on_def
  using real_path_same_links [of "disk h" "disk h'" "cwd h"]
  by (metis (no_types, lifting) ext host.select_convs(2) host.surjective host.update_convs(3))

lemma same_view_sub: "same_view h h' \<Longrightarrow> is_subpath h' = is_subpath h"
  by (intro ext) (simp add: is_subpath_def same_view_resolve split: option.splits)

lemma same_view_env:
  assumes "same_view h h'"
  shows "environ h' = environ h" "cwd h' = cwd h" "pw_home h' = pw_home h" "uid_home h' = uid_home h"
  using assms unfolding same_view_def
  by (metis (no_types, lifting) host.select_convs host.surjective host.update_convs(3))+

lemma same_view_blocklist: "same_view h h' \<Longrightarrow> get_system_dir_blocklist h' = get_system_dir_blocklist h"
proof -
  assume v: "same_view h h'"
  note env = same_view_env [OF v]
  have "expand_path h' = expand_path h"
    by (intro ext) (simp only: expand_path_def expanduser_def env cong: option.case_cong)
  moreover have "abspath h' = abspath h" by (intro ext) (simp add: abspath_def Let_def env)
  ultimately show ?thesis by (simp add: get_system_dir_blocklist_def getenv_def env)
qed

lemma same_view_checks:
  assumes "same_view h h'"
  shows "resolved_on h' r = resolved_on h r" "clear_of_system h' r = clear_of_system h r"
    "resolve_path_arg h' s base = resolve_path_arg h s base"
    "validate_path_no_system_dir h' p bl = validate_path_no_system_dir h p bl"
proof -
  note v = same_view_resolve [OF assms]
  show "resolved_on h' r = resolved_on h r" by (simp add: resolved_on_def v)
  show s: "validate_path_no_system_dir h' p bl = validate_path_no_system_dir h p bl" for p bl
    by (simp add: validate_path_no_system_dir_def system_dirs_disallowed_def
        getenv_def same_view_env [OF assms] same_view_sub [OF assms] same_view_blocklist [OF assms] cong: option.case_cong)
  show "clear_of_system h' r = clear_of_system h r" by (simp add: clear_of_system_def s)
  show "resolve_path_arg h' s base = resolve_path_arg h s base" by (simp add: resolve_path_arg_def v)
qed

lemma same_view_refl: "same_view h h"
  by (simp add: same_view_def same_links_def)

lemma same_view_trans: "same_view a b \<Longrightarrow> same_view b c \<Longrightarrow> same_view a c"
  unfolding same_view_def by (metis (no_types, lifting) host.surjective host.update_convs(3) same_links_trans)

end
