(* ===== verification/Sandbox.thy ===== *)
theory Sandbox
  imports Disk_View
begin

text \<open>
  \<open>hares/sandbox.py\<close>: the sandbox configuration, its construction from the environment, and
  the bwrap argument vector. The vector is built as a list of structured arguments that
  \<open>render\<close> turns into the strings; mounts are judged on the structured list, where the last
  mount at or above a path decides about it (bwrap applies mounts in argument order).
\<close>

record sandbox_config =
  enabled :: bool
  bwrap_bin :: string
  rw_binds :: "string list"
  ro_binds :: "string list"
  protect_binds :: "string list"
  exclude_binds :: "string list"
  allow_network :: bool
  tmp_size_mb :: "int option"

definition disabled_sandbox :: sandbox_config where
  "disabled_sandbox = \<lparr>enabled = False, bwrap_bin = ''bwrap'', rw_binds = [], ro_binds = [],
     protect_binds = [], exclude_binds = [], allow_network = True, tmp_size_mb = None\<rparr>"

definition split_paths :: "host \<Rightarrow> string option \<Rightarrow> string list" where
  "split_paths h raw = (case raw of None \<Rightarrow> []
     | Some s \<Rightarrow> if s = [] then []
                else map (expand_path h) (filter (\<lambda>p. p \<noteq> []) (split_on (CHR '':'') s)))"

text \<open>\<open>which\<close> is \<open>shutil.which\<close> on the server's \<open>PATH\<close>.\<close>

definition load_sandbox_config ::
  "host \<Rightarrow> (string \<Rightarrow> string option) \<Rightarrow> string option \<Rightarrow> sandbox_config result" where
  "load_sandbox_config h which default_cwd =
     (let disabled_raw = lower_str (strip_str (getenv h ''HARES_SANDBOX_DISABLED'' []));
          legacy_mode = lower_str (strip_str (getenv h ''HARES_SANDBOX_MODE'' []))
      in if disabled_raw \<in> {''1'', ''true'', ''yes'', ''on''} then ok disabled_sandbox
         else if legacy_mode \<in> {''none'', ''off'', ''false'', ''0''} then ok disabled_sandbox
         else if legacy_mode \<noteq> [] \<and> legacy_mode \<noteq> ''bwrap'' then raise_err (ValueError legacy_mode)
         else
           (case which (getenv h ''HARES_SANDBOX_BWRAP_BIN'' ''bwrap'') of
              None \<Rightarrow> raise_err (FileNotFoundError (getenv h ''HARES_SANDBOX_BWRAP_BIN'' ''bwrap''))
            | Some bin \<Rightarrow>
                let rw0 = split_paths h (environ h ''HARES_SANDBOX_RW'');
                    rw = (if rw0 = [] then
                            (case default_cwd of Some d \<Rightarrow> if d = [] then rw0 else [d] | None \<Rightarrow> rw0)
                          else rw0);
                    network = lower_str (strip_str (getenv h ''HARES_SANDBOX_NETWORK'' ''on''));
                    tmp_raw = getenv h ''HARES_SANDBOX_TMP_SIZE_MB'' []
                in rbind (if tmp_raw = [] then ok None
                          else case py_int tmp_raw of None \<Rightarrow> raise_err (ValueError tmp_raw) | Some n \<Rightarrow> ok (Some n))
                     (\<lambda>tmp. ok \<lparr>enabled = True, bwrap_bin = bin, rw_binds = rw,
                        ro_binds = split_paths h (environ h ''HARES_SANDBOX_RO''),
                        protect_binds = split_paths h (environ h ''HARES_SANDBOX_PROTECT''),
                        exclude_binds = split_paths h (environ h ''HARES_SANDBOX_EXCLUDE''),
                        allow_network = network \<notin> {''off'', ''false'', ''0'', ''no''},
                        tmp_size_mb = tmp\<rparr>)))"

section \<open>The argument vector\<close>

text \<open>\<open>os.path.exists\<close> and \<open>os.path.isdir\<close>.\<close>

definition path_exists :: "host \<Rightarrow> string \<Rightarrow> bool" where
  "path_exists h s = (s \<noteq> [] \<and> (case resolve_on h (path_of s) of None \<Rightarrow> False
     | Some r \<Rightarrow> node_at (disk h) r \<noteq> None))"

definition path_isdir :: "host \<Rightarrow> string \<Rightarrow> bool" where
  "path_isdir h s = (s \<noteq> [] \<and> (case resolve_on h (path_of s) of None \<Rightarrow> False
     | Some r \<Rightarrow> node_at (disk h) r = Some DirN))"

datatype bw_arg =
    Opt string
  | SyncFd nat
  | RoBind string string
  | Bind string string
  | ProcAt string
  | DevAt string
  | Tmpfs "int option" string
  | Chdir string
  | SetEnv string string
  | Command string

fun render :: "bw_arg \<Rightarrow> string list" where
  "render (Opt s) = [s]"
| "render (SyncFd n) = [''--sync-fd'', nat_str n]"
| "render (RoBind s d) = [''--ro-bind'', s, d]"
| "render (Bind s d) = [''--bind'', s, d]"
| "render (ProcAt d) = [''--proc'', d]"
| "render (DevAt d) = [''--dev'', d]"
| "render (Tmpfs None d) = [''--tmpfs'', d]"
| "render (Tmpfs (Some n) d) = [''--size'', int_str n, ''--tmpfs'', d]"
| "render (Chdir d) = [''--chdir'', d]"
| "render (SetEnv k v) = [''--setenv'', k, v]"
| "render (Command c) = [''--'', ''/bin/sh'', ''-c'', c]"

definition base_args :: "host \<Rightarrow> sandbox_config \<Rightarrow> nat option \<Rightarrow> string option \<Rightarrow> bw_arg list" where
  "base_args h cfg sync_fd script =
     map Opt [''--die-with-parent'', ''--new-session'', ''--unshare-pid'', ''--unshare-uts'',
              ''--unshare-ipc'', ''--unshare-cgroup-try''] @
     (if \<not> allow_network cfg \<or> script \<noteq> None then [Opt ''--unshare-net''] else []) @
     (case sync_fd of None \<Rightarrow> [] | Some n \<Rightarrow> [SyncFd n]) @
     [RoBind ''/'' ''/''] @
     map (\<lambda>x. RoBind x x) (filter (path_isdir h) [''/var'', ''/run'', ''/sys'']) @
     [ProcAt ''/proc'', DevAt ''/dev''] @
     [Tmpfs (map_option (\<lambda>n. n * 1024 * 1024) (tmp_size_mb cfg)) ''/tmp''] @
     (if path_isdir h ''/run'' then [Tmpfs None ''/run''] else [])"

definition ro_args :: "host \<Rightarrow> sandbox_config \<Rightarrow> bw_arg list" where
  "ro_args h cfg = map (\<lambda>s. RoBind s s) (filter (path_exists h) (ro_binds cfg))"

definition rw_args :: "host \<Rightarrow> sandbox_config \<Rightarrow> bw_arg list" where
  "rw_args h cfg = map (\<lambda>s. Bind s s) (filter (path_exists h) (rw_binds cfg))"

definition covered_by_rw :: "host \<Rightarrow> sandbox_config \<Rightarrow> string \<Rightarrow> bool" where
  "covered_by_rw h cfg d =
     list_ex (\<lambda>s. is_subpath h (path_of d) (path_of s)) (filter (path_exists h) (rw_binds cfg))"

definition cwd_args :: "host \<Rightarrow> sandbox_config \<Rightarrow> string option \<Rightarrow> bw_arg list" where
  "cwd_args h cfg d = (case d of None \<Rightarrow> []
     | Some c \<Rightarrow> if c = [] then []
                else (if covered_by_rw h cfg c then [] else [Bind c c]) @ [Chdir c])"

definition protect_args :: "host \<Rightarrow> sandbox_config \<Rightarrow> bw_arg list" where
  "protect_args h cfg = map (\<lambda>s. RoBind s s) (filter (path_exists h) (protect_binds cfg))"

definition exclude_args :: "host \<Rightarrow> sandbox_config \<Rightarrow> bw_arg list" where
  "exclude_args h cfg = map (\<lambda>s. if path_isdir h s then Tmpfs None s else RoBind ''/dev/null'' s)
     (filter (path_exists h) (exclude_binds cfg))"

definition bwrap_args ::
  "host \<Rightarrow> sandbox_config \<Rightarrow> string \<Rightarrow> string option \<Rightarrow> nat option \<Rightarrow> string option \<Rightarrow> bw_arg list" where
  "bwrap_args h cfg cmd d sync_fd script =
     base_args h cfg sync_fd script @ ro_args h cfg @ rw_args h cfg @ cwd_args h cfg d @
     [SetEnv ''HOME'' (expanduser h ''~'')] @ protect_args h cfg @ exclude_args h cfg @
     [Command (case script of Some s \<Rightarrow> s | None \<Rightarrow> cmd)]"

definition build_bwrap_argv ::
  "host \<Rightarrow> sandbox_config \<Rightarrow> string \<Rightarrow> string option \<Rightarrow> nat option \<Rightarrow> string option \<Rightarrow> string list result" where
  "build_bwrap_argv h cfg cmd d sync_fd script =
     (if \<not> enabled cfg then raise_err (ValueError ''sandbox disabled'')
      else ok (bwrap_bin cfg # concat (map render (bwrap_args h cfg cmd d sync_fd script))))"

section \<open>Which mount decides about a path\<close>

fun mount_dest :: "bw_arg \<Rightarrow> string option" where
  "mount_dest (RoBind s d) = Some d"
| "mount_dest (Bind s d) = Some d"
| "mount_dest (ProcAt d) = Some d"
| "mount_dest (DevAt d) = Some d"
| "mount_dest (Tmpfs n d) = Some d"
| "mount_dest _ = None"

text \<open>A configured path covers a real path when it resolves to a prefix of it.\<close>

definition covers :: "host \<Rightarrow> string \<Rightarrow> rpath \<Rightarrow> bool" where
  "covers h s p = (case resolve_on h (path_of s) of None \<Rightarrow> False | Some r \<Rightarrow> prefix r p)"

definition mounts_over :: "host \<Rightarrow> rpath \<Rightarrow> bw_arg \<Rightarrow> bool" where
  "mounts_over h p a = (case mount_dest a of None \<Rightarrow> False | Some d \<Rightarrow> covers h d p)"

definition deciding_mount :: "host \<Rightarrow> bw_arg list \<Rightarrow> rpath \<Rightarrow> bw_arg option" where
  "deciding_mount h args p = find (mounts_over h p) (rev args)"

fun is_bind :: "bw_arg \<Rightarrow> bool" where
  "is_bind (Bind s d) = True"
| "is_bind _ = False"

text \<open>The real file behind the path can be written through the sandbox.\<close>

definition writable_in :: "host \<Rightarrow> bw_arg list \<Rightarrow> rpath \<Rightarrow> bool" where
  "writable_in h args p = (case deciding_mount h args p of None \<Rightarrow> False | Some a \<Rightarrow> is_bind a)"

definition any_covers :: "host \<Rightarrow> string list \<Rightarrow> rpath \<Rightarrow> bool" where
  "any_covers h ss p = list_ex (\<lambda>s. path_exists h s \<and> covers h s p) ss"

definition cwd_bound :: "host \<Rightarrow> sandbox_config \<Rightarrow> string option \<Rightarrow> rpath \<Rightarrow> bool" where
  "cwd_bound h cfg d p = (case d of None \<Rightarrow> False
     | Some c \<Rightarrow> c \<noteq> [] \<and> \<not> covered_by_rw h cfg c \<and> covers h c p)"

lemma find_app: "find P (xs @ ys) = (case find P xs of None \<Rightarrow> find P ys | Some x \<Rightarrow> Some x)"
  by (induction xs) auto

lemma deciding_append:
  "deciding_mount h (xs @ ys) p =
     (case deciding_mount h ys p of None \<Rightarrow> deciding_mount h xs p | Some a \<Rightarrow> Some a)"
  by (simp add: deciding_mount_def find_app split: option.splits)

lemma deciding_groups:
  assumes "deciding_mount h hs p = None" "deciding_mount h ts p = None"
  shows "deciding_mount h (as @ bs @ hs @ ds @ ts) p =
      (case deciding_mount h ds p of Some a \<Rightarrow> Some a
       | None \<Rightarrow> (case deciding_mount h bs p of Some a \<Rightarrow> Some a | None \<Rightarrow> deciding_mount h as p))"
    "deciding_mount h (as @ ds @ ts) p =
      (case deciding_mount h ds p of Some a \<Rightarrow> Some a | None \<Rightarrow> deciding_mount h as p)"
  using assms by (simp_all add: deciding_append split: option.splits)

lemma deciding_none: "deciding_mount h xs p = None \<longleftrightarrow> \<not> list_ex (mounts_over h p) xs"
  by (auto simp: deciding_mount_def find_None_iff list_ex_iff)

lemma deciding_some: "deciding_mount h xs p = Some a \<Longrightarrow> a \<in> set xs \<and> mounts_over h p a"
  by (auto simp: deciding_mount_def find_Some_iff) (metis nth_mem set_rev length_rev)

lemma args_covering:
  "list_ex (mounts_over h p) (ro_args h cfg) \<longleftrightarrow> any_covers h (ro_binds cfg) p"
  "list_ex (mounts_over h p) (rw_args h cfg) \<longleftrightarrow> any_covers h (rw_binds cfg) p"
  "list_ex (mounts_over h p) (protect_args h cfg) \<longleftrightarrow> any_covers h (protect_binds cfg) p"
  "list_ex (mounts_over h p) (exclude_args h cfg) \<longleftrightarrow> any_covers h (exclude_binds cfg) p"
proof -
  let ?f = "\<lambda>s. if path_isdir h s then Tmpfs None s else RoBind ''/dev/null'' s"
  have m: "mounts_over h p (?f s) \<longleftrightarrow> covers h s p" for s by (simp add: mounts_over_def)
  show "list_ex (mounts_over h p) (exclude_args h cfg) \<longleftrightarrow> any_covers h (exclude_binds cfg) p"
    by (simp only: list_ex_iff exclude_args_def any_covers_def set_map set_filter) (use m in blast)
qed (auto simp: list_ex_iff ro_args_def rw_args_def protect_args_def mounts_over_def any_covers_def)

lemma cwd_args_covering:
  "list_ex (mounts_over h p) (cwd_args h cfg d) \<longleftrightarrow> cwd_bound h cfg d p"
  by (auto simp: cwd_args_def cwd_bound_def mounts_over_def split: option.splits)

lemma args_binds:
  "list_all (\<lambda>a. \<not> is_bind a) (base_args h cfg sf sc @ ro_args h cfg)"
  "list_all (\<lambda>a. \<not> is_bind a) (protect_args h cfg @ exclude_args h cfg)"
  "list_all is_bind (rw_args h cfg)"
  "list_all (\<lambda>a. mount_dest a \<noteq> None \<longrightarrow> is_bind a) (cwd_args h cfg d)"
  by (auto simp: list_all_iff base_args_def ro_args_def protect_args_def exclude_args_def rw_args_def
      cwd_args_def split: option.splits)

text \<open>
  What a sandboxed command can write is exactly what is configured: the real file behind a
  path is writable exactly when an existing read-write bind covers it, or the working
  directory of the call was bound over it, and no existing protect or exclude entry covers it.
  Deny beats every allow, in whatever order and depth the entries are nested.
\<close>

theorem sandbox_writable_iff:
  "writable_in h (bwrap_args h cfg cmd d sf sc) p =
     ((any_covers h (rw_binds cfg) p \<or> cwd_bound h cfg d p) \<and>
      \<not> any_covers h (protect_binds cfg @ exclude_binds cfg) p)"
proof -
  let ?pre = "base_args h cfg sf sc @ ro_args h cfg"
  let ?allow = "rw_args h cfg @ cwd_args h cfg d"
  let ?deny = "protect_args h cfg @ exclude_args h cfg"
  let ?tail = "[Command (case sc of Some s \<Rightarrow> s | None \<Rightarrow> cmd)]"
  let ?home = "[SetEnv ''HOME'' (expanduser h ''~'')]"
  have args: "bwrap_args h cfg cmd d sf sc = ?pre @ ?allow @ ?home @ ?deny @ ?tail"
    by (simp add: bwrap_args_def)
  have tl: "deciding_mount h ?tail p = None" "deciding_mount h ?home p = None"
    by (simp_all add: deciding_none mounts_over_def)
  have dec: "deciding_mount h (bwrap_args h cfg cmd d sf sc) p =
      (case deciding_mount h ?deny p of Some a \<Rightarrow> Some a
       | None \<Rightarrow> (case deciding_mount h ?allow p of Some a \<Rightarrow> Some a | None \<Rightarrow> deciding_mount h ?pre p))"
    unfolding args by (rule deciding_groups(1) [OF tl(2,1)])
  have deny: "deciding_mount h ?deny p = None \<longleftrightarrow> \<not> any_covers h (protect_binds cfg @ exclude_binds cfg) p"
    using args_covering(3,4) [of h p cfg] by (simp add: deciding_none any_covers_def)
  have allow: "deciding_mount h ?allow p = None \<longleftrightarrow> \<not> (any_covers h (rw_binds cfg) p \<or> cwd_bound h cfg d p)"
    using args_covering(2) [of h p cfg] cwd_args_covering [of h p cfg d] by (simp add: deciding_none)
  have nb: "deciding_mount h ?deny p = Some a \<Longrightarrow> \<not> is_bind a"
    "deciding_mount h ?pre p = Some a \<Longrightarrow> \<not> is_bind a" for a
    using deciding_some args_binds(1,2) by (fastforce simp: list_all_iff)+
  have b: "deciding_mount h ?allow p = Some a \<Longrightarrow> is_bind a" for a
  proof -
    assume "deciding_mount h ?allow p = Some a"
    then have "a \<in> set ?allow" "mounts_over h p a" using deciding_some by blast+
    moreover then have "mount_dest a \<noteq> None" by (auto simp: mounts_over_def split: option.splits)
    ultimately show ?thesis using args_binds(3,4) [of h cfg] by (auto simp: list_all_iff)
  qed
  show ?thesis
  proof (cases "deciding_mount h ?deny p")
    case (Some a)
    with nb(1) deny show ?thesis by (simp add: writable_in_def dec)
  next
    case dn: None
    show ?thesis
    proof (cases "deciding_mount h ?allow p")
      case (Some a)
      with b allow dn deny show ?thesis by (simp add: writable_in_def dec)
    next
      case None
      with nb(2) allow dn show ?thesis
        by (cases "deciding_mount h ?pre p") (simp_all add: writable_in_def dec)
    qed
  qed
qed

text \<open>
  An existing excluded path is hidden: whatever else is configured, the mount that decides
  about anything at or under it is an empty tmpfs or the null device placed by an exclude
  entry.
\<close>

theorem excluded_is_hidden:
  assumes "any_covers h (exclude_binds cfg) p"
  shows "\<exists>s \<in> set (exclude_binds cfg). covers h s p \<and>
    deciding_mount h (bwrap_args h cfg cmd d sf sc) p =
      Some (if path_isdir h s then Tmpfs None s else RoBind ''/dev/null'' s)"
proof -
  let ?pre = "base_args h cfg sf sc @ ro_args h cfg @ rw_args h cfg @ cwd_args h cfg d @
     [SetEnv ''HOME'' (expanduser h ''~'')] @ protect_args h cfg"
  let ?tail = "[Command (case sc of Some s \<Rightarrow> s | None \<Rightarrow> cmd)]"
  have args: "bwrap_args h cfg cmd d sf sc = ?pre @ exclude_args h cfg @ ?tail" by (simp add: bwrap_args_def)
  have tl: "deciding_mount h ?tail p = None" by (simp add: deciding_none mounts_over_def)
  obtain a where a: "deciding_mount h (exclude_args h cfg) p = Some a"
    using assms args_covering(4) [of h p cfg] deciding_none by blast
  then have "deciding_mount h (bwrap_args h cfg cmd d sf sc) p = Some a"
    unfolding args deciding_groups(2) [OF tl tl] by simp
  moreover from deciding_some [OF a] obtain s where "s \<in> set (exclude_binds cfg)" "covers h s p"
    "a = (if path_isdir h s then Tmpfs None s else RoBind ''/dev/null'' s)"
    by (auto simp: exclude_args_def mounts_over_def split: if_splits)
  ultimately show ?thesis by blast
qed

definition sandbox_host :: host where
  "sandbox_host = \<lparr>environ = [''HARES_SANDBOX_EXCLUDE'' \<mapsto> ''/w/s/key''], cwd = ''/w'',
     disk = [([''w''], DirN), ([''w'', ''a''], DirN), ([''w'', ''s''], DirN), ([''w'', ''s'', ''key''], FileN ''k''),
             ([''x''], DirN), ([''x'', ''f''], FileN ''far'')],
     pw_home = (\<lambda>_. None), uid_home = Some ''/home/u''\<rparr>"

definition sandbox_demo :: sandbox_config where
  "sandbox_demo = \<lparr>enabled = True, bwrap_bin = ''/usr/bin/bwrap'', rw_binds = [''/w''], ro_binds = [],
     protect_binds = [], exclude_binds = [''/w/s/key''], allow_network = True, tmp_size_mb = None\<rparr>"

theorem excluded_is_hidden_witness:
  "\<exists>s \<in> set (exclude_binds sandbox_demo). covers sandbox_host s [''w'', ''s'', ''key''] \<and>
    deciding_mount sandbox_host (bwrap_args sandbox_host sandbox_demo ''ls'' (Some ''/w'') None None) [''w'', ''s'', ''key''] =
      Some (if path_isdir sandbox_host s then Tmpfs None s else RoBind ''/dev/null'' s)"
  by (rule excluded_is_hidden) code_simp

text \<open>
  The sandbox is on unless the environment turns it off: loading answers a disabled
  configuration exactly for a disabling value of \<open>HARES_SANDBOX_DISABLED\<close> or of the legacy
  mode; otherwise it is enabled with the bwrap found, or loading raises, so a missing bwrap or
  an unknown mode never means running unsandboxed.
\<close>

theorem load_sandbox_fails_closed:
  "case load_sandbox_config h which d of
     Inl e \<Rightarrow> True
   | Inr c \<Rightarrow>
       (if lower_str (strip_str (getenv h ''HARES_SANDBOX_DISABLED'' [])) \<in> {''1'', ''true'', ''yes'', ''on''} \<or>
           lower_str (strip_str (getenv h ''HARES_SANDBOX_MODE'' [])) \<in> {''none'', ''off'', ''false'', ''0''}
        then \<not> enabled c
        else enabled c \<and> which (getenv h ''HARES_SANDBOX_BWRAP_BIN'' ''bwrap'') = Some (bwrap_bin c) \<and>
          lower_str (strip_str (getenv h ''HARES_SANDBOX_MODE'' [])) \<in> {[], ''bwrap''} \<and>
          rw_binds c = (case split_paths h (environ h ''HARES_SANDBOX_RW'') of
             [] \<Rightarrow> (case d of Some p \<Rightarrow> if p = [] then [] else [p] | None \<Rightarrow> []) | ss \<Rightarrow> ss))"
proof (cases "which (getenv h ''HARES_SANDBOX_BWRAP_BIN'' ''bwrap'')")
  case None
  then show ?thesis by (simp add: load_sandbox_config_def Let_def disabled_sandbox_def)
next
  case (Some b)
  then show ?thesis
    by (cases "split_paths h (environ h ''HARES_SANDBOX_RW'')")
      (simp_all add: load_sandbox_config_def Let_def disabled_sandbox_def split: option.splits)
qed

end
