(* ===== verification/Memlimit.thy ===== *)
theory Memlimit
  imports Sandbox
begin

text \<open>
  \<open>hares/memlimit.py\<close>: the cgroup v2 helpers. The kernel files are read from the disk of the
  host; the scope name and the outcome of the functional probe are parameters. A line ends at
  a newline, as in the kernel's files.
\<close>

definition file_lines :: "string \<Rightarrow> string list" where
  "file_lines s = split_on (CHR 0x0A) s"

definition proc_text :: "host \<Rightarrow> string \<Rightarrow> string option" where
  "proc_text h p = (case resolve_on h (path_of p) of None \<Rightarrow> None
     | Some r \<Rightarrow> (case read_text (disk h) r of Inr t \<Rightarrow> Some t | Inl _ \<Rightarrow> None))"

definition machine_safe_default :: int where
  "machine_safe_default = 4096"

text \<open>\<open>machine_safe_max_mb()\<close> at its default fraction 0.9; \<open>int(mb * 0.9)\<close> is the integer part
  of nine tenths.\<close>

definition mem_total_kb :: "string \<Rightarrow> int option" where
  "mem_total_kb text =
     (case find (\<lambda>l. take 9 l = ''MemTotal:'') (file_lines text) of None \<Rightarrow> None
      | Some l \<Rightarrow> (case split_ws l of _ # v # _ \<Rightarrow> py_int v | _ \<Rightarrow> None))"

definition machine_safe_max_mb :: "host \<Rightarrow> int" where
  "machine_safe_max_mb h =
     (case Option.bind (proc_text h ''/proc/meminfo'') mem_total_kb of None \<Rightarrow> machine_safe_default
      | Some kb \<Rightarrow> if kb \<le> 0 then machine_safe_default else max 1 ((9 * (kb div 1024)) div 10))"

definition SYSTEMD_RUN_BIN :: string where
  "SYSTEMD_RUN_BIN = ''systemd-run''"

definition build_scope_argv :: "string list \<Rightarrow> int \<Rightarrow> string \<Rightarrow> int \<Rightarrow> string list result" where
  "build_scope_argv inner_argv mem_bytes scope_name swap_max_bytes =
     (if inner_argv = [] then raise_err (ValueError ''inner_argv must be non-empty'')
      else if mem_bytes < 1 then raise_err (ValueError ''mem_bytes must be >= 1'')
      else ok ([SYSTEMD_RUN_BIN, ''--user'', ''--scope'', ''--quiet'', ''--unit='' @ scope_name,
                ''-p'', ''MemoryMax='' @ int_str mem_bytes,
                ''-p'', ''MemorySwapMax='' @ int_str swap_max_bytes, ''--''] @ inner_argv))"

definition path_is_dir :: "host \<Rightarrow> string \<Rightarrow> bool" where
  "path_is_dir h p = path_isdir h p"

definition scope_by_pid :: "host \<Rightarrow> string \<Rightarrow> int \<Rightarrow> string option" where
  "scope_by_pid h scope_name pid =
     (case proc_text h (''/proc/'' @ int_str pid @ ''/cgroup'') of None \<Rightarrow> None
      | Some text \<Rightarrow>
          (case find (\<lambda>l. take 3 l = ''0::'') (file_lines text) of None \<Rightarrow> None
           | Some l \<Rightarrow>
               let cgroup_path = strip_str (drop 3 l);
                   candidate = ''/sys/fs/cgroup/'' @ dropWhile (\<lambda>c. c = CHR ''/'') cgroup_path
               in if has_substr (scope_name @ ''.scope'') cgroup_path \<and> path_is_dir h candidate
                  then Some candidate else None))"

definition scope_cgroup_dir :: "host \<Rightarrow> nat \<Rightarrow> string \<Rightarrow> int option \<Rightarrow> string option" where
  "scope_cgroup_dir h uid scope_name member_pid =
     (case Option.bind member_pid (scope_by_pid h scope_name) of Some d \<Rightarrow> Some d
      | None \<Rightarrow>
          let u = nat_str uid;
              candidate = ''/sys/fs/cgroup/user.slice/user-'' @ u @ ''.slice/user@'' @ u @
                ''.service/app.slice/'' @ scope_name @ ''.scope''
          in if path_is_dir h candidate then Some candidate else None)"

definition read_oom_kill_count :: "host \<Rightarrow> string \<Rightarrow> int option" where
  "read_oom_kill_count h cgroup_dir =
     (case proc_text h (cgroup_dir @ ''/memory.events'') of None \<Rightarrow> None
      | Some text \<Rightarrow>
          (case find (\<lambda>l. case split_ws l of [k, v] \<Rightarrow> k = ''oom_kill'' | _ \<Rightarrow> False) (file_lines text) of
             None \<Rightarrow> None
           | Some l \<Rightarrow> (case split_ws l of [k, v] \<Rightarrow> py_int v | _ \<Rightarrow> None)))"

definition memory_controller :: "host \<Rightarrow> nat \<Rightarrow> bool" where
  "memory_controller h uid =
     (let u = nat_str uid; slice = ''/sys/fs/cgroup/user.slice/user-'' @ u @ ''.slice'' in
      list_ex (\<lambda>f. case proc_text h f of None \<Rightarrow> False | Some t \<Rightarrow> ''memory'' \<in> set (split_ws t))
        [''/sys/fs/cgroup/cgroup.controllers'', slice @ ''/cgroup.controllers'',
         slice @ ''/user@'' @ u @ ''.service/cgroup.controllers''])"

text \<open>\<open>probe\<close> is the return code of the test run of \<open>systemd-run\<close>, absent when it failed to
  start or timed out.\<close>

definition probe_cgroup_memory ::
  "host \<Rightarrow> nat \<Rightarrow> (string \<Rightarrow> string option) \<Rightarrow> int option \<Rightarrow> bool" where
  "probe_cgroup_memory h uid which probe =
     (if lower_str (strip_str (getenv h ''HARES_DISABLE_CGROUP'' [])) \<in> {''1'', ''true'', ''yes'', ''on''} then False
      else if \<not> path_exists h ''/sys/fs/cgroup/cgroup.controllers'' then False
      else if \<not> memory_controller h uid then False
      else if which SYSTEMD_RUN_BIN = None then False
      else probe = Some 0)"

text \<open>The module-level cache: the first answer stands.\<close>

definition cgroup_memory_available ::
  "host \<Rightarrow> nat \<Rightarrow> (string \<Rightarrow> string option) \<Rightarrow> int option \<Rightarrow> bool option \<Rightarrow> bool \<times> bool option" where
  "cgroup_memory_available h uid which probe cache =
     (case cache of Some b \<Rightarrow> (b, cache)
      | None \<Rightarrow> let b = probe_cgroup_memory h uid which probe in (b, Some b))"

lemma split_ws_go_words:
  "list_all (\<lambda>c. \<not> is_space c) w \<Longrightarrow> split_ws_go cur (w @ r) = split_ws_go (cur @ w) r"
  by (induction w arbitrary: cur) auto

text \<open>A counter line reads back as the counter.\<close>

lemma split_ws_pair:
  assumes "list_all (\<lambda>c. \<not> is_space c) k" "k \<noteq> []" "list_all (\<lambda>c. \<not> is_space c) v" "v \<noteq> []"
  shows "split_ws (k @ CHR '' '' # v) = [k, v]"
proof -
  have sp: "is_space (CHR '' '')" by (simp add: is_space_def)
  show ?thesis
    using split_ws_go_words [OF assms(1), of "[]" "CHR '' '' # v"] split_ws_go_words [OF assms(3), of "[]" "[]"]
      assms(2,4) sp by (simp add: split_ws_def)
qed

lemma machine_safe_bounds: "1 \<le> machine_safe_max_mb h"
  by (auto simp: machine_safe_max_mb_def machine_safe_default_def split: option.splits)

lemma machine_safe_below_total:
  "Option.bind (proc_text h ''/proc/meminfo'') mem_total_kb = Some kb \<Longrightarrow> 2 * 1024 \<le> kb \<Longrightarrow>
   machine_safe_max_mb h * 1024 < kb"
proof -
  assume a: "Option.bind (proc_text h ''/proc/meminfo'') mem_total_kb = Some kb" and k: "2 * 1024 \<le> kb"
  let ?m = "kb div 1024"
  have m: "2 \<le> ?m" "?m * 1024 \<le> kb" using k by linarith+
  then have "(9 * ?m) div 10 < ?m" "1 < ?m" by linarith+
  then have "max 1 ((9 * ?m) div 10) < ?m" by simp
  with a k m show ?thesis by (simp add: machine_safe_max_mb_def)
qed

end
