(* ===== verification/Shlex.thy ===== *)
theory Shlex
  imports Prelude
begin

text \<open>
  The part of the standard module \<open>shlex\<close> the inspector uses: \<open>shlex.split(s, posix=True)\<close>
  (words split at whitespace only, no comments) as the state machine of \<open>read_token\<close>, and
  \<open>shlex.quote\<close> / \<open>shlex.join\<close>. \<open>split\<close> inverts \<open>join\<close>.
\<close>

datatype sh_state = SStart | SWord | SQuote char | SEscWord | SEscQuote char

definition sh_white :: "char \<Rightarrow> bool" where
  "sh_white c \<longleftrightarrow> c \<in> {CHR '' '', CHR 0x09, CHR 0x0D, CHR 0x0A}"

abbreviation squote :: char where "squote \<equiv> CHR 0x27"
abbreviation dquote :: char where "dquote \<equiv> CHR 0x22"
abbreviation bslash :: char where "bslash \<equiv> CHR 0x5C"

fun sh_go :: "sh_state \<Rightarrow> bool \<Rightarrow> string \<Rightarrow> string \<Rightarrow> string list result" where
  "sh_go SStart q tok [] = ok []"
| "sh_go SStart q tok (c # s) =
     (if sh_white c then sh_go SStart False [] s
      else if c = bslash then sh_go SEscWord False [] s
      else if c = squote \<or> c = dquote then sh_go (SQuote c) True [] s
      else sh_go SWord False [c] s)"
| "sh_go SWord q tok [] = ok (if tok \<noteq> [] \<or> q then [tok] else [])"
| "sh_go SWord q tok (c # s) =
     (if sh_white c then
        rbind (sh_go SStart False [] s) (\<lambda>ts. ok (if tok \<noteq> [] \<or> q then tok # ts else ts))
      else if c = squote \<or> c = dquote then sh_go (SQuote c) True tok s
      else if c = bslash then sh_go SEscWord q tok s
      else sh_go SWord q (tok @ [c]) s)"
| "sh_go (SQuote d) q tok [] = raise_err (ValueError ''No closing quotation'')"
| "sh_go (SQuote d) q tok (c # s) =
     (if c = d then sh_go SWord True tok s
      else if c = bslash \<and> d = dquote then sh_go (SEscQuote d) True tok s
      else sh_go (SQuote d) True (tok @ [c]) s)"
| "sh_go SEscWord q tok [] = raise_err (ValueError ''No escaped character'')"
| "sh_go SEscWord q tok (c # s) = sh_go SWord q (tok @ [c]) s"
| "sh_go (SEscQuote d) q tok [] = raise_err (ValueError ''No escaped character'')"
| "sh_go (SEscQuote d) q tok (c # s) =
     sh_go (SQuote d) q (tok @ (if c \<noteq> bslash \<and> c \<noteq> d then [bslash, c] else [c])) s"

definition shlex_split :: "string \<Rightarrow> string list result" where
  "shlex_split s = sh_go SStart False [] s"

text \<open>The characters \<open>quote\<close> leaves alone: ASCII word characters and \<open>@%+=:,./-\<close>.\<close>

definition sh_safe :: "char \<Rightarrow> bool" where
  "sh_safe c \<longleftrightarrow> (let n = (of_char c :: nat) in
     (48 \<le> n \<and> n \<le> 57) \<or> (65 \<le> n \<and> n \<le> 90) \<or> (97 \<le> n \<and> n \<le> 122) \<or> n = 95)
     \<or> c \<in> {CHR ''@'', CHR ''%'', CHR ''+'', CHR ''='', CHR '':'', CHR '','', CHR ''.'', CHR ''/'', CHR ''-''}"

definition sh_escape :: "string \<Rightarrow> string" where
  "sh_escape s = concat (map (\<lambda>c. if c = squote then [squote, dquote, squote, dquote, squote] else [c]) s)"

definition shlex_quote :: "string \<Rightarrow> string" where
  "shlex_quote s = (if s = [] then [squote, squote]
     else if list_all sh_safe s then s else squote # sh_escape s @ [squote])"

definition shlex_join :: "string list \<Rightarrow> string" where
  "shlex_join ts = join_str '' '' (map shlex_quote ts)"

lemma sh_safe_plain: "sh_safe c \<Longrightarrow> \<not> sh_white c \<and> c \<noteq> bslash \<and> c \<noteq> squote \<and> c \<noteq> dquote"
  by (auto simp: sh_safe_def sh_white_def Let_def)

lemma sh_go_safe: "list_all sh_safe w \<Longrightarrow> sh_go SWord q tok (w @ r) = sh_go SWord q (tok @ w) r"
  by (induction w arbitrary: tok) (simp_all add: sh_safe_plain)

lemma sh_escape_simps:
  "sh_escape [] = []"
  "sh_escape (c # s) = (if c = squote then [squote, dquote, squote, dquote, squote] else [c]) @ sh_escape s"
  by (simp_all add: sh_escape_def)

lemma sh_marks:
  "\<not> sh_white squote" "\<not> sh_white dquote" "squote \<noteq> dquote" "dquote \<noteq> squote" "squote \<noteq> bslash"
  "dquote \<noteq> bslash"
  by (simp_all add: sh_white_def)

lemma sh_go_escaped:
  "sh_go (SQuote squote) True tok (sh_escape s @ squote # r) = sh_go SWord True (tok @ s) r"
proof (induction s arbitrary: tok)
  case Nil
  then show ?case by (simp add: sh_escape_simps)
next
  case (Cons c s)
  show ?case
  proof (cases "c = squote")
    case True
    have "sh_go (SQuote squote) True tok (squote # dquote # squote # dquote # squote # u) =
        sh_go (SQuote squote) True (tok @ [squote]) u" for u
      by (simp only: sh_go.simps sh_marks if_True if_False simp_thms)
    with True Cons show ?thesis by (simp add: sh_escape_simps)
  next
    case False
    with Cons show ?thesis by (simp add: sh_escape_simps)
  qed
qed

lemma sh_go_quoted:
  "\<exists>q. (s \<noteq> [] \<or> q) \<and> sh_go SStart False [] (shlex_quote s @ r) = sh_go SWord q s r"
proof (cases "s = [] \<or> \<not> list_all sh_safe s")
  case True
  then have j: "shlex_quote s = squote # sh_escape s @ [squote]"
    by (cases "s = []") (simp_all add: shlex_quote_def sh_escape_simps)
  have a: "shlex_quote s @ r = squote # (sh_escape s @ squote # r)" by (simp add: j)
  have b: "sh_go SStart False [] (squote # u) = sh_go (SQuote squote) True [] u" for u
    by (simp only: sh_go.simps sh_marks if_True if_False simp_thms)
  have "sh_go SStart False [] (shlex_quote s @ r) = sh_go (SQuote squote) True [] (sh_escape s @ squote # r)"
    unfolding a by (rule b)
  also have "\<dots> = sh_go SWord True ([] @ s) r" by (rule sh_go_escaped)
  also have "[] @ s = s" by (rule append_Nil)
  finally have "sh_go SStart False [] (shlex_quote s @ r) = sh_go SWord True s r" .
  then show ?thesis by (intro exI [of _ True] conjI disjI2 TrueI)
next
  case False
  then obtain c w where s: "s = c # w" "sh_safe c" "list_all sh_safe w" by (cases s) auto
  then have "shlex_quote s = c # w" by (simp add: shlex_quote_def)
  with s have "sh_go SStart False [] (shlex_quote s @ r) = sh_go SWord False s r"
    using sh_go_safe [of w False "[c]" r] by (simp add: sh_safe_plain)
  moreover have "s \<noteq> [] \<or> False" using s(1) by simp
  ultimately show ?thesis by (intro exI [of _ False] conjI)
qed

text \<open>Splitting a joined token list gives the tokens back.\<close>

lemma shlex_split_join: "shlex_split (shlex_join ts) = ok ts"
proof (induction ts)
  case Nil
  then show ?case by (simp add: shlex_split_def shlex_join_def)
next
  case (Cons t ts)
  show ?case
  proof (cases ts)
    case Nil
    obtain q where "t \<noteq> [] \<or> q" "sh_go SStart False [] (shlex_quote t @ []) = sh_go SWord q t []"
      using sh_go_quoted by blast
    with Nil show ?thesis by (simp add: shlex_split_def shlex_join_def)
  next
    case (Cons u us)
    let ?r = "shlex_join ts"
    obtain q where q: "t \<noteq> [] \<or> q"
      "sh_go SStart False [] (shlex_quote t @ CHR '' '' # ?r) = sh_go SWord q t (CHR '' '' # ?r)"
      using sh_go_quoted by blast
    have j: "shlex_join (t # ts) = shlex_quote t @ CHR '' '' # ?r"
      using Cons by (simp add: shlex_join_def)
    show ?thesis
      using q Cons.IH unfolding shlex_split_def j by (simp add: sh_white_def)
  qed
qed

end
