(* ===== verification/Net_Policy.thy ===== *)
theory Net_Policy
  imports Environ Shlex
begin

text \<open>
  \<open>hares/net_policy.py\<close>: the network allowlist, its parsing, and the setup script that runs
  inside the sandbox's network namespace. \<open>getaddrinfo\<close> (the address a host and port resolve
  to, if any) is a parameter.
\<close>

record allow_entry =
  ae_host :: string
  ae_ip :: string
  ae_port :: int

record network_policy =
  allow :: "allow_entry list"
  raw :: string

definition policy_enabled :: "network_policy \<Rightarrow> bool" where
  "policy_enabled p = (allow p \<noteq> [])"

text \<open>\<open>s.rsplit(':', 1)\<close> of a string that has a colon.\<close>

definition rsplit_colon :: "string \<Rightarrow> string \<times> string" where
  "rsplit_colon s =
     (rev (tl (dropWhile (\<lambda>c. c \<noteq> CHR '':'') (rev s))), rev (takeWhile (\<lambda>c. c \<noteq> CHR '':'') (rev s)))"

definition parse_entry :: "(string \<Rightarrow> int \<Rightarrow> string option) \<Rightarrow> string \<Rightarrow> allow_entry option" where
  "parse_entry getaddrinfo spec =
     (if CHR '':'' \<notin> set spec then None
      else let (host0, port_str) = rsplit_colon spec; hst = strip_str host0 in
        (case py_int port_str of None \<Rightarrow> None
         | Some port \<Rightarrow>
             if \<not> (1 \<le> port \<and> port \<le> 65535) then None
             else (case getaddrinfo hst port of None \<Rightarrow> None
                   | Some ip \<Rightarrow> Some \<lparr>ae_host = hst, ae_ip = ip, ae_port = port\<rparr>)))"

definition load_network_policy ::
  "host \<Rightarrow> (string \<Rightarrow> int \<Rightarrow> string option) \<Rightarrow> network_policy option" where
  "load_network_policy h getaddrinfo =
     (let r = strip_str (getenv h ''HARES_SANDBOX_NETWORK_ALLOW'' []) in
      if r = [] then None
      else Some \<lparr>allow = List.map_filter (parse_entry getaddrinfo)
                   (filter (\<lambda>s. s \<noteq> []) (map strip_str (split_on (CHR '','') r))),
                 raw = r\<rparr>)"

definition NL :: string where
  "NL = [CHR 0x0A]"

definition q :: string where
  "q = [squote]"

definition allow_rule :: "allow_entry \<Rightarrow> string" where
  "allow_rule e = ''nft add rule inet hares_filter output '' @ ''ip daddr '' @ ae_ip e @
     '' tcp dport '' @ int_str (ae_port e) @ '' accept'' @ ''  # '' @ ae_host e"

definition build_nftables_rules :: "network_policy \<Rightarrow> string list" where
  "build_nftables_rules p =
     [''nft add table inet hares_filter 2>/dev/null || true'',
      ''nft delete table inet hares_filter 2>/dev/null || true'',
      ''nft add table inet hares_filter'',
      ''nft '' @ q @ ''add chain inet hares_filter output { type filter hook output priority 0; policy drop; }'' @ q,
      ''nft add rule inet hares_filter output oifname lo accept'',
      ''nft add rule inet hares_filter output ct state established,related accept''] @
     map allow_rule (allow p) @
     (if allow p = [] then [''# No allowlist entries -- all outbound blocked.''] else [])"

definition sh_quote :: "string \<Rightarrow> string" where
  "sh_quote s = [squote] @ concat (map (\<lambda>c. if c = squote then [squote, bslash, squote, squote] else [c]) s) @ [squote]"

definition build_inner_setup_script :: "network_policy \<Rightarrow> string \<Rightarrow> string" where
  "build_inner_setup_script p inner_command =
     join_str NL
      ([''set -e'',
        ''# Networking (slirp4netns --configure assigns tap0 IP + gateway).'',
        ''ip link set lo up 2>/dev/null || true'',
        ''ip link set tap0 up 2>/dev/null || true'',
        ''ip route add default via 10.0.2.2 dev tap0 2>/dev/null || true'',
        [],
        ''# nftables allowlist -- drop by default, allow declared IPs/ports only.''] @
       build_nftables_rules p @
       [[], ''# Exec the actual command so its PID replaces this shell.'',
        ''exec /bin/sh -c '' @ sh_quote inner_command])"

section \<open>Lemmas and properties\<close>

lemma sh_quote_body:
  "sh_go (SQuote squote) True tok (concat (map (\<lambda>c. if c = squote then [squote, bslash, squote, squote] else [c]) s) @ squote # r)
     = sh_go SWord True (tok @ s) r"
proof (induction s arbitrary: tok)
  case (Cons c s)
  have marks: "bslash \<noteq> squote" "bslash \<noteq> dquote" "\<not> sh_white bslash" by (simp_all add: sh_white_def)
  show ?case
  proof (cases "c = squote")
    case True
    have "sh_go (SQuote squote) True tok (squote # bslash # squote # squote # u) =
        sh_go (SQuote squote) True (tok @ [squote]) u" for u
      by (simp only: sh_go.simps sh_marks marks if_True if_False simp_thms)
    with True Cons show ?thesis by simp
  next
    case False
    with Cons show ?thesis by simp
  qed
qed simp

text \<open>
  The quoting of the inner command is exact for any command, quotes and newlines included:
  the shell that runs the setup script reads \<open>sh_quote c\<close> back as the one word \<open>c\<close>.
\<close>

theorem sh_quote_round_trip: "shlex_split (sh_quote c) = ok [c]"
proof -
  have a: "sh_quote c = squote # (concat (map (\<lambda>c. if c = squote then [squote, bslash, squote, squote] else [c]) c) @ squote # [])"
    by (simp add: sh_quote_def)
  have b: "sh_go SStart False [] (squote # u) = sh_go (SQuote squote) True [] u" for u
    by (simp only: sh_go.simps sh_marks if_True if_False simp_thms)
  show ?thesis
    unfolding shlex_split_def a b sh_quote_body by simp
qed

text \<open>
  An allowlist admits what it lists and nothing else: every entry of the loaded policy
  comes from one comma-separated item of the variable, with a port between 1 and 65535 and the
  address its host resolved to; items that do not parse or resolve are dropped.
\<close>

theorem allowlist_entries_sound:
  "case load_network_policy h getaddrinfo of None \<Rightarrow> strip_str (getenv h ''HARES_SANDBOX_NETWORK_ALLOW'' []) = []
   | Some p \<Rightarrow> list_all (\<lambda>e. 1 \<le> ae_port e \<and> ae_port e \<le> 65535 \<and>
        getaddrinfo (ae_host e) (ae_port e) = Some (ae_ip e) \<and>
        list_ex (\<lambda>item. parse_entry getaddrinfo (strip_str item) = Some e) (split_on (CHR '','') (raw p))) (allow p)"
proof -
  have pe: "parse_entry getaddrinfo s = Some e \<Longrightarrow> 1 \<le> ae_port e \<and> ae_port e \<le> 65535 \<and>
      getaddrinfo (ae_host e) (ae_port e) = Some (ae_ip e)" for s e
    by (auto simp: parse_entry_def Let_def split: if_splits option.splits prod.splits)
  show ?thesis
    by (auto simp: load_network_policy_def Let_def list_all_iff list_ex_iff map_filter_def dest: pe)
qed

text \<open>
  The filter is default-drop: whatever the policy, the rules create the output chain with
  policy drop before any accept rule, and the accept rules are the loopback, the established
  connections and one per allowlist entry.
\<close>

theorem rules_default_drop:
  "\<exists>pre post. build_nftables_rules p = pre @
     (''nft '' @ q @ ''add chain inet hares_filter output { type filter hook output priority 0; policy drop; }'' @ q) # post \<and>
     list_all (\<lambda>l. \<not> has_substr '' accept'' l) pre \<and>
     post = [''nft add rule inet hares_filter output oifname lo accept'',
             ''nft add rule inet hares_filter output ct state established,related accept''] @
            map allow_rule (allow p) @
            (if allow p = [] then [''# No allowlist entries -- all outbound blocked.''] else [])"
proof -
  have "list_all (\<lambda>l. \<not> has_substr '' accept'' l) [''nft add table inet hares_filter 2>/dev/null || true'',
      ''nft delete table inet hares_filter 2>/dev/null || true'', ''nft add table inet hares_filter'']"
    by code_simp
  then show ?thesis
    by (intro exI [of _ "[''nft add table inet hares_filter 2>/dev/null || true'',
      ''nft delete table inet hares_filter 2>/dev/null || true'', ''nft add table inet hares_filter'']"] exI)
      (simp add: build_nftables_rules_def)
qed

end
