(* ===== verification/Inspector.thy ===== *)
theory Inspector
  imports Shlex
begin

text \<open>
  \<open>hares/inspector.py\<close>: the pre-flight rewriting of worker-count flags. The in-place loops
  over the token list are recursions that return the new list and the edits. An integer
  conversion that raises is a result (\<open>str.isdigit\<close> accepts superscript digits, \<open>int\<close> does
  not).
\<close>

record rewrite =
  kind :: string
  original :: string
  replacement :: string
  reason :: string

record inspection =
  command :: string
  edits :: "rewrite list"

definition is_prefix_of :: "string \<Rightarrow> string \<Rightarrow> bool" where
  "is_prefix_of p s = (take (length p) s = p)"

text \<open>\<open>^-?\d+$\<close>; the dollar also matches before one final newline.\<close>

definition numeric_re :: "string \<Rightarrow> bool" where
  "numeric_re s =
     (let t = (if s \<noteq> [] \<and> last s = CHR 0x0A then butlast s else s);
          u = (if t \<noteq> [] \<and> hd t = CHR ''-'' then tl t else t)
      in u \<noteq> [] \<and> list_all is_digit u)"

definition str_isdigit :: "string \<Rightarrow> bool" where
  "str_isdigit s \<longleftrightarrow> s \<noteq> [] \<and>
     list_all (\<lambda>c. is_digit c \<or> (of_char c :: nat) \<in> {178, 179, 185}) s"

definition budget_for :: "int \<Rightarrow> int \<Rightarrow> int" where
  "budget_for weight max_concurrent = max 1 (min weight max_concurrent)"

definition basename :: "string \<Rightarrow> string" where
  "basename t = last (split_on (CHR ''/'') t)"

definition mentions :: "string list \<Rightarrow> string list \<Rightarrow> bool" where
  "mentions bins tokens = list_ex (\<lambda>t. basename t \<in> set bins) tokens"

definition is_pytest_command :: "string list \<Rightarrow> bool" where
  "is_pytest_command = mentions [''pytest'', ''py.test'']"

definition is_make_command :: "string list \<Rightarrow> bool" where
  "is_make_command = mentions [''make'', ''gmake'', ''bmake'']"

definition is_cargo_command :: "string list \<Rightarrow> bool" where
  "is_cargo_command = mentions [''cargo'']"

definition is_ninja_command :: "string list \<Rightarrow> bool" where
  "is_ninja_command = mentions [''ninja'']"

text \<open>The value asks for more than the budget: \<open>auto\<close>, or a number above it.\<close>

definition over :: "int \<Rightarrow> string \<Rightarrow> bool" where
  "over b v \<longleftrightarrow> v = ''auto'' \<or> (numeric_re v \<and> (case py_int v of Some n \<Rightarrow> n > b | None \<Rightarrow> False))"

definition xdist_edit :: "string \<Rightarrow> string \<Rightarrow> string \<Rightarrow> int \<Rightarrow> string \<Rightarrow> rewrite" where
  "xdist_edit orig repl v b note_end = \<lparr>kind = ''pytest_xdist'', original = orig, replacement = repl,
     reason = ''pytest-xdist requested '' @ v @ '' workers; clamped to '' @ int_str b @ note_end\<rparr>"

definition num_eq :: string where
  "num_eq = ''--numprocesses=''"

text \<open>One position of a rewriting loop: the token (and perhaps the next one, its operand) as the
  loop leaves it, the edit made, and how far the index moves.\<close>

datatype step = One string "rewrite option" | Two string string "rewrite option"

fun run_pass :: "(string \<Rightarrow> string option \<Rightarrow> step result) \<Rightarrow> string list \<Rightarrow> (string list \<times> rewrite list) result" where
  "run_pass f [] = ok ([], [])"
| "run_pass f [t] = rbind (f t None) (\<lambda>s. case s of
      One t' e \<Rightarrow> ok ([t'], case e of None \<Rightarrow> [] | Some r \<Rightarrow> [r])
    | Two t' u' e \<Rightarrow> raise_err (RuntimeError ''operand''))"
| "run_pass f (t # u # ts) = rbind (f t (Some u)) (\<lambda>s. case s of
      One t' e \<Rightarrow> rbind (run_pass f (u # ts)) (\<lambda>(ts', rs).
        ok (t' # ts', case e of None \<Rightarrow> rs | Some r \<Rightarrow> r # rs))
    | Two t' u' e \<Rightarrow> rbind (run_pass f ts) (\<lambda>(ts', rs).
        ok (t' # u' # ts', case e of None \<Rightarrow> rs | Some r \<Rightarrow> r # rs)))"

text \<open>The forms a worker-count token has, in the order the loop tests them: \<open>-n\<close>, \<open>-nV\<close>,
  \<open>--numprocesses=V\<close>, \<open>--numprocesses\<close>.\<close>

datatype xdist_token = XShort | XAttached string | XLongEq string | XLong | XOther

definition xdist_token :: "string \<Rightarrow> xdist_token" where
  "xdist_token t =
     (if t = ''-n'' then XShort
      else if is_prefix_of ''-n'' t \<and> \<not> is_prefix_of ''--'' t then XAttached (drop 2 t)
      else if is_prefix_of num_eq t then XLongEq (drop (length num_eq) t)
      else if t = ''--numprocesses'' then XLong
      else XOther)"

definition xdist_step :: "int \<Rightarrow> string \<Rightarrow> string option \<Rightarrow> step result" where
  "xdist_step b t nx = (case (xdist_token t, nx) of
      (XShort, Some v) \<Rightarrow> ok (if over b v
         then Two t (int_str b) (Some (xdist_edit (t @ '' '' @ v) (t @ '' '' @ int_str b) v b '' to fit Hares cap.''))
         else Two t v None)
    | (XAttached v, _) \<Rightarrow> ok (if over b v
         then One (''-n'' @ int_str b) (Some (xdist_edit t (''-n'' @ int_str b) v b ''.''))
         else One t None)
    | (XLongEq v, _) \<Rightarrow> ok (if over b v
         then One (num_eq @ int_str b) (Some (xdist_edit t (num_eq @ int_str b) v b ''.''))
         else One t None)
    | (XLong, Some v) \<Rightarrow> ok (if over b v
         then Two t (int_str b) (Some (xdist_edit (t @ '' '' @ v) (t @ '' '' @ int_str b) v b ''.''))
         else Two t v None)
    | _ \<Rightarrow> ok (One t None))"

definition rewrite_pytest_xdist :: "int \<Rightarrow> string list \<Rightarrow> (string list \<times> rewrite list) result" where
  "rewrite_pytest_xdist b = run_pass (xdist_step b)"

text \<open>\<open>_rewrite_jobs_flag\<close>; the short flag is optional, the long one always given.\<close>

record jobs_flags =
  flag_short :: "string option"
  flag_long :: string
  jobs_kind :: string
  tool_label :: string

definition asked :: "jobs_flags \<Rightarrow> string \<Rightarrow> int \<Rightarrow> string" where
  "asked p v b = tool_label p @ '' requested '' @ v @ '' jobs; clamped to '' @ int_str b @ ''.''"

definition jobs_edit :: "jobs_flags \<Rightarrow> string \<Rightarrow> string \<Rightarrow> string \<Rightarrow> rewrite" where
  "jobs_edit p orig repl why = \<lparr>kind = jobs_kind p, original = orig, replacement = repl, reason = why\<rparr>"

text \<open>A value already known to be a number: \<open>int\<close> of it, and the clamp.\<close>

definition with_int :: "string \<Rightarrow> (int \<Rightarrow> step) \<Rightarrow> step result" where
  "with_int s f = (case py_int s of None \<Rightarrow> raise_err (ValueError s) | Some v \<Rightarrow> ok (f v))"

text \<open>The forms of a jobs token: the short flag alone, with digits attached, the long flag with
  an equals sign and a number, the long flag alone.\<close>

datatype jobs_token = JShort | JAttached string | JLongEq string | JLong | JOther

definition jobs_token :: "jobs_flags \<Rightarrow> string \<Rightarrow> jobs_token" where
  "jobs_token p t =
     (let long_eq = flag_long p @ ''='' in
      if flag_short p = Some t then JShort
      else if (case flag_short p of None \<Rightarrow> False
               | Some f \<Rightarrow> is_prefix_of f t \<and> str_isdigit (drop (length f) t))
      then JAttached (drop (length (the (flag_short p))) t)
      else if is_prefix_of long_eq t \<and> numeric_re (drop (length long_eq) t)
      then JLongEq (drop (length long_eq) t)
      else if t = flag_long p then JLong
      else JOther)"

definition jobs_step :: "jobs_flags \<Rightarrow> int \<Rightarrow> string \<Rightarrow> string option \<Rightarrow> step result" where
  "jobs_step p b t nx =
     (let numeric_next = (case nx of Some u \<Rightarrow> numeric_re u | None \<Rightarrow> False);
          operand = with_int (the nx) (\<lambda>v. if v > b
             then Two t (int_str b) (Some (jobs_edit p (t @ '' '' @ int_str v) (t @ '' '' @ int_str b)
                    (asked p (int_str v) b)))
             else Two t (the nx) None)
      in case jobs_token p t of
        JShort \<Rightarrow>
          if numeric_next then operand
          else ok (One (t @ int_str b) (Some (jobs_edit p t (t @ int_str b)
                (tool_label p @ '' bare '' @ t @ '' (unbounded jobs); clamped to '' @ int_str b @ ''.''))))
      | JAttached v_str \<Rightarrow>
          with_int v_str (\<lambda>v. if v > b
            then One (the (flag_short p) @ int_str b)
                   (Some (jobs_edit p t (the (flag_short p) @ int_str b) (asked p (int_str v) b)))
            else One t None)
      | JLongEq v_str \<Rightarrow>
          with_int v_str (\<lambda>v. if v > b
            then One (flag_long p @ ''='' @ int_str b)
                   (Some (jobs_edit p t (flag_long p @ ''='' @ int_str b) (asked p v_str b)))
            else One t None)
      | JLong \<Rightarrow> if numeric_next then operand else ok (One t None)
      | JOther \<Rightarrow> ok (One t None))"

definition rewrite_jobs_flag :: "jobs_flags \<Rightarrow> int \<Rightarrow> string list \<Rightarrow> (string list \<times> rewrite list) result" where
  "rewrite_jobs_flag p b = run_pass (jobs_step p b)"

definition make_flags :: jobs_flags where
  "make_flags = \<lparr>flag_short = Some ''-j'', flag_long = ''--jobs'', jobs_kind = ''make_jobs'', tool_label = ''make''\<rparr>"

definition ninja_flags :: jobs_flags where
  "ninja_flags = \<lparr>flag_short = Some ''-j'', flag_long = ''--jobs'', jobs_kind = ''ninja_jobs'', tool_label = ''ninja''\<rparr>"

definition cargo_flags :: jobs_flags where
  "cargo_flags = \<lparr>flag_short = None, flag_long = ''--jobs'', jobs_kind = ''cargo_jobs'', tool_label = ''cargo''\<rparr>"

definition pass_if :: "bool \<Rightarrow> (string list \<Rightarrow> (string list \<times> rewrite list) result)
    \<Rightarrow> string list \<times> rewrite list \<Rightarrow> (string list \<times> rewrite list) result" where
  "pass_if c f tr = (if c then rbind (f (fst tr)) (\<lambda>(ts, rs). ok (ts, snd tr @ rs)) else ok tr)"

definition inspect_command :: "string \<Rightarrow> int \<Rightarrow> int \<Rightarrow> inspection result" where
  "inspect_command cmd weight max_concurrent =
     (let b = budget_for weight max_concurrent in
      case shlex_split cmd of
        Inl _ \<Rightarrow> ok \<lparr>command = cmd, edits = []\<rparr>
      | Inr tokens \<Rightarrow>
          rbind (pass_if (is_pytest_command tokens) (rewrite_pytest_xdist b) (tokens, [])) (\<lambda>t1.
          rbind (pass_if (is_make_command (fst t1)) (rewrite_jobs_flag make_flags b) t1) (\<lambda>t2.
          rbind (pass_if (is_ninja_command (fst t2)) (rewrite_jobs_flag ninja_flags b) t2) (\<lambda>t3.
          rbind (pass_if (is_cargo_command (fst t3)) (rewrite_jobs_flag cargo_flags b) t3) (\<lambda>t4.
          ok (if snd t4 = [] then \<lparr>command = cmd, edits = []\<rparr>
              else \<lparr>command = shlex_join (fst t4), edits = snd t4\<rparr>))))))"

section \<open>Rewriting passes in general\<close>

text \<open>What a loop over the tokens needs of its step for the rewritten list to be a fixed point:
  \<open>R\<close> relates a token to what the loop leaves in its place.\<close>

locale rewriting =
  fixes f :: "string \<Rightarrow> string option \<Rightarrow> step result" and R :: "string \<Rightarrow> string \<Rightarrow> bool"
  assumes one_R: "f t nx = ok (One t' e) \<Longrightarrow> R t t'"
    and two_R: "f t nx = ok (Two t' u' e) \<Longrightarrow> R t t'"
    and one_fix: "f t (Some u) = ok (One t' e) \<Longrightarrow> R u w \<Longrightarrow> f t' (Some w) = ok (One t' None)"
    and last_fix: "f t None = ok (One t' e) \<Longrightarrow> f t' None = ok (One t' None)"
    and two_fix: "f t (Some u) = ok (Two t' u' e) \<Longrightarrow> f t' (Some u') = ok (Two t' u' None)"
begin

lemma run_pass_fix:
  "run_pass f ts = ok (ts', rs) \<Longrightarrow> run_pass f ts' = ok (ts', []) \<and> length ts' = length ts \<and>
     (ts \<noteq> [] \<longrightarrow> R (hd ts) (hd ts'))"
proof (induction ts arbitrary: ts' rs rule: induct_list012)
  case (2 t)
  from "2.prems" obtain t' e where s: "f t None = ok (One t' e)" "ts' = [t']"
    by (auto split: step.splits) (metis step.exhaust)
  with last_fix [OF s(1)] one_R [OF s(1)] show ?case by simp
next
  case (3 t u ts)
  from "3.prems" obtain s where s: "f t (Some u) = ok s" by auto
  show ?case
  proof (cases s)
    case (One t' e)
    with "3.prems" s obtain us qs where r: "run_pass f (u # ts) = ok (us, qs)" and ts': "ts' = t' # us"
      by auto
    have ih: "run_pass f us = ok (us, []) \<and> length us = length (u # ts) \<and> R u (hd us)"
      using "3.IH"(2) [OF r] by simp
    then obtain w ws where us: "us = w # ws" by (cases us) auto
    with one_fix [of t u t' e w] ih s One one_R [of t "Some u" t' e] show ?thesis by (simp add: ts')
  next
    case (Two t' u' e)
    with "3.prems" s obtain us qs where r: "run_pass f ts = ok (us, qs)" and ts': "ts' = t' # u' # us"
      by auto
    have ih: "run_pass f us = ok (us, []) \<and> length us = length ts"
      using "3.IH"(1) [OF r] by simp
    with two_fix [of t u t' u' e] s Two two_R [of t "Some u" t' u' e] show ?thesis by (simp add: ts')
  qed
qed simp

end


section \<open>The passes\<close>

lemma budget_pos: "1 \<le> budget_for w m"
  by (simp add: budget_for_def)

lemma int_str_pos: "1 \<le> b \<Longrightarrow> int_str b = nat_str (nat b)"
  by (simp add: int_str_def)

lemma digit_plain:
  assumes "is_digit c"
  shows "c \<noteq> CHR ''-''" "c \<noteq> CHR 0x0A" "c \<noteq> CHR ''a''" "c \<noteq> CHR ''j''" "c \<noteq> CHR ''n''" "c \<noteq> CHR ''/''"
    "c \<noteq> CHR ''=''"
  using assms by (auto simp: is_digit_def)

lemma digits_numeric:
  assumes "s \<noteq> []" "list_all is_digit s"
  shows "numeric_re s" "str_isdigit s" "hd s \<noteq> CHR ''-''" "s \<noteq> ''auto''"
proof -
  obtain c r where c: "s = c # r" "is_digit c" using assms by (cases s) auto
  have "is_digit (last s)" using assms by (simp add: list_all_iff)
  then have "last s \<noteq> CHR 0x0A" by (rule digit_plain)
  with c assms digit_plain(1,3) [OF c(2)] show "numeric_re s" "hd s \<noteq> CHR ''-''" "s \<noteq> ''auto''"
    by (simp_all add: numeric_re_def Let_def)
  show "str_isdigit s" using assms by (auto simp: str_isdigit_def list_all_iff)
qed

lemma budget_str:
  assumes "1 \<le> b"
  shows "int_str b \<noteq> []" "list_all is_digit (int_str b)" "numeric_re (int_str b)" "str_isdigit (int_str b)"
    "\<not> over b (int_str b)" "py_int (int_str b) = Some b" "hd (int_str b) \<noteq> CHR ''-''"
proof -
  show n: "int_str b \<noteq> []" and d: "list_all is_digit (int_str b)"
    using assms nat_str_all_digits by (simp_all add: int_str_pos)
  show "py_int (int_str b) = Some b" by (rule py_int_int_str)
  with digits_numeric [OF n d] show "numeric_re (int_str b)" "str_isdigit (int_str b)"
    "\<not> over b (int_str b)" "hd (int_str b) \<noteq> CHR ''-''" by (simp_all add: over_def)
qed

lemma is_prefix_of_append [simp]: "is_prefix_of p (p @ s)" "is_prefix_of [] s"
  by (simp_all add: is_prefix_of_def)

lemma is_prefix_of_Cons [simp]: "is_prefix_of (a # p) (b # s) \<longleftrightarrow> a = b \<and> is_prefix_of p s"
  "\<not> is_prefix_of (a # p) []"
  by (auto simp: is_prefix_of_def)

lemma num_eq_alt: "num_eq = CHR ''-'' # CHR ''-'' # ''numprocesses=''"
  by (simp add: num_eq_def)



lemma hd_not_minus: "hd s \<noteq> CHR ''-'' \<Longrightarrow> s \<noteq> [] \<Longrightarrow> \<not> is_prefix_of (CHR ''-'' # p) s"
  by (cases s) auto

lemma xdist_token_built:
  assumes "s \<noteq> []" "hd s \<noteq> CHR ''-''"
  shows "xdist_token (''-n'' @ s) = XAttached s" "xdist_token (num_eq @ s) = XLongEq s"
proof -
  have "is_prefix_of ''-n'' (''-n'' @ s)" by (rule is_prefix_of_append)
  moreover have "\<not> is_prefix_of ''--'' (''-n'' @ s)" by simp
  ultimately show "xdist_token (''-n'' @ s) = XAttached s" using assms(1) by (simp add: xdist_token_def)
  have "is_prefix_of num_eq (num_eq @ s)" by (rule is_prefix_of_append)
  moreover have "num_eq @ s \<noteq> ''-n''" "\<not> (is_prefix_of ''-n'' (num_eq @ s) \<and> \<not> is_prefix_of ''--'' (num_eq @ s))"
    by (simp_all add: num_eq_alt)
  ultimately show "xdist_token (num_eq @ s) = XLongEq s" unfolding xdist_token_def by simp
qed

lemma xdist_fix:
  assumes "1 \<le> b"
  shows "xdist_step b (''-n'' @ int_str b) nx = ok (One (''-n'' @ int_str b) None)"
    "xdist_step b (num_eq @ int_str b) nx = ok (One (num_eq @ int_str b) None)"
  using xdist_token_built [of "int_str b"] budget_str [OF assms] by (simp_all add: xdist_step_def)

interpretation xdist: rewriting "xdist_step (budget_for w m)" "\<lambda>_ _. True" for w m
proof unfold_locales
  let ?b = "budget_for w m"
  note fx = xdist_fix [OF budget_pos, of w m] and ov = budget_str(5) [OF budget_pos, of w m]
  fix t u t' u' e w' nx
  show "xdist_step ?b t (Some u) = ok (One t' e) \<Longrightarrow> True \<Longrightarrow> xdist_step ?b t' (Some w') = ok (One t' None)"
    using fx by (cases "xdist_token t") (auto simp: xdist_step_def split: if_splits)
  show "xdist_step ?b t None = ok (One t' e) \<Longrightarrow> xdist_step ?b t' None = ok (One t' None)"
    using fx by (cases "xdist_token t") (auto simp: xdist_step_def split: if_splits)
  show "xdist_step ?b t (Some u) = ok (Two t' u' e) \<Longrightarrow> xdist_step ?b t' (Some u') = ok (Two t' u' None)"
    using ov by (cases "xdist_token t") (auto simp: xdist_step_def split: if_splits)
qed simp_all

definition jobs_std :: "jobs_flags \<Rightarrow> bool" where
  "jobs_std p \<longleftrightarrow> flag_short p \<in> {None, Some ''-j''} \<and> flag_long p = ''--jobs''"

lemma jobs_token_built:
  assumes "jobs_std p" "s \<noteq> []" "list_all is_digit s"
  shows "flag_short p = Some f \<Longrightarrow> jobs_token p (f @ s) = JAttached s"
    "jobs_token p (flag_long p @ ''='' @ s) = JLongEq s"
proof -
  note ds = digits_numeric [OF assms(2,3)]
  show "jobs_token p (f @ s) = JAttached s" if "flag_short p = Some f"
    using that ds(2) assms(2) is_prefix_of_append(1) [of f s] by (simp add: jobs_token_def Let_def)
  have a: "is_prefix_of (flag_long p @ ''='') ((flag_long p @ ''='') @ s)" by (rule is_prefix_of_append)
  have l: "flag_long p = ''--jobs''" using assms(1) by (simp add: jobs_std_def)
  have "flag_short p \<noteq> Some (flag_long p @ ''='' @ s)" using assms(1) by (auto simp: jobs_std_def)
  moreover have "\<not> (case flag_short p of None \<Rightarrow> False
      | Some f \<Rightarrow> is_prefix_of f (flag_long p @ ''='' @ s) \<and> str_isdigit (drop (length f) (flag_long p @ ''='' @ s)))"
    using assms(1) by (auto simp: jobs_std_def)
  moreover have "drop (length (flag_long p @ ''='')) (flag_long p @ ''='' @ s) = s" by (simp add: l)
  ultimately show "jobs_token p (flag_long p @ ''='' @ s) = JLongEq s"
    using a ds(1) unfolding jobs_token_def Let_def by simp
qed

lemma with_int_ok: "with_int s f = ok x \<longleftrightarrow> (\<exists>v. py_int s = Some v \<and> x = f v)"
  by (auto simp: with_int_def split: option.splits)

lemma jobs_fix:
  assumes "jobs_std p" "1 \<le> b"
  shows "flag_short p = Some f \<Longrightarrow> jobs_step p b (f @ int_str b) nx = ok (One (f @ int_str b) None)"
    "jobs_step p b (flag_long p @ ''='' @ int_str b) nx = ok (One (flag_long p @ ''='' @ int_str b) None)"
  using jobs_token_built [OF assms(1), of "int_str b"] budget_str [OF assms(2)]
  by (simp_all add: jobs_step_def with_int_def)

text \<open>No token of the forms above is itself a number, so what the loop leaves in place of a
  token is a number exactly when the token was.\<close>

lemma flag_not_numeric:
  assumes "jobs_std p"
  shows "\<not> numeric_re (flag_long p @ ''='' @ s)" "flag_short p = Some f \<Longrightarrow> \<not> numeric_re (f @ s)"
proof -
  have "\<not> is_digit (CHR ''-'')" "\<not> is_digit (CHR ''j'')" by (simp_all add: is_digit_def)
  then have "\<not> numeric_re (CHR ''-'' # CHR ''j'' # x)" "\<not> numeric_re (CHR ''-'' # CHR ''-'' # x)" for x
    by (auto simp: numeric_re_def Let_def)
  then show "\<not> numeric_re (flag_long p @ ''='' @ s)" "flag_short p = Some f \<Longrightarrow> \<not> numeric_re (f @ s)"
    using assms by (auto simp: jobs_std_def)
qed

lemma jobs_token_form:
  assumes "jobs_token p t = JShort \<or> jobs_token p t = JAttached v"
  shows "flag_short p \<noteq> None" "t = the (flag_short p) @ drop (length (the (flag_short p))) t"
proof -
  show ne: "flag_short p \<noteq> None"
    using assms by (auto simp: jobs_token_def Let_def split: if_splits option.splits)
  show "t = the (flag_short p) @ drop (length (the (flag_short p))) t"
    using assms ne unfolding jobs_token_def Let_def
    by (auto simp: is_prefix_of_def split: if_splits) (metis append_take_drop_id)+
qed

lemma is_prefix_of_split: "is_prefix_of p s \<Longrightarrow> s = p @ drop (length p) s"
  unfolding is_prefix_of_def by (metis append_take_drop_id)

lemma jobs_token_long: "jobs_token p t = JLongEq v \<Longrightarrow> t = flag_long p @ ''='' @ v"
proof -
  assume "jobs_token p t = JLongEq v"
  then have "is_prefix_of (flag_long p @ ''='') t" "v = drop (length (flag_long p @ ''='')) t"
    unfolding jobs_token_def Let_def by (simp_all split: if_splits)
  then show ?thesis using is_prefix_of_split [of "flag_long p @ ''=''" t] by simp
qed

definition same_num :: "string \<Rightarrow> string \<Rightarrow> bool" where
  "same_num t u \<longleftrightarrow> numeric_re t = numeric_re u"

lemma jobs_rewriting:
  assumes p: "jobs_std p" and b: "1 \<le> b"
  shows "rewriting (jobs_step p b) same_num"
proof
  note bs = budget_str [OF b] and fx = jobs_fix [OF p b] and nn = flag_not_numeric [OF p]
  fix t u t' u' e w nx
  show "jobs_step p b t nx = ok (One t' e) \<Longrightarrow> same_num t t'"
  proof (cases "jobs_token p t")
    case JShort
    with jobs_token_form [of p t] nn(2) have "\<not> numeric_re t" "\<not> numeric_re (t @ x)" for x
      by (metis append.assoc option.exhaust_sel)+
    with JShort show "jobs_step p b t nx = ok (One t' e) \<Longrightarrow> same_num t t'"
      by (auto simp: jobs_step_def Let_def with_int_ok same_num_def split: if_splits)
  next
    case (JAttached v)
    with jobs_token_form [of p t v] nn(2) have "\<not> numeric_re t" by (metis option.exhaust_sel)
    moreover have "\<not> numeric_re (the (flag_short p) @ x)" for x
      using jobs_token_form(1) [of p t v] JAttached nn(2) by (metis option.exhaust_sel)
    ultimately show "jobs_step p b t nx = ok (One t' e) \<Longrightarrow> same_num t t'"
      using JAttached by (auto simp: jobs_step_def Let_def with_int_ok same_num_def split: if_splits)
  next
    case (JLongEq v)
    with jobs_token_long [OF JLongEq] nn(1) show "jobs_step p b t nx = ok (One t' e) \<Longrightarrow> same_num t t'"
      by (auto simp: jobs_step_def Let_def with_int_ok same_num_def split: if_splits)
  qed (auto simp: jobs_step_def Let_def with_int_ok same_num_def split: if_splits)
  show "jobs_step p b t nx = ok (Two t' u' e) \<Longrightarrow> same_num t t'"
    by (auto simp: jobs_step_def Let_def with_int_ok same_num_def split: if_splits jobs_token.splits)
  show "jobs_step p b t (Some u) = ok (One t' e) \<Longrightarrow> same_num u w \<Longrightarrow> jobs_step p b t' (Some w) = ok (One t' None)"
  proof (cases "jobs_token p t")
    case JShort
    then have f: "flag_short p = Some t"
      by (auto simp: jobs_token_def Let_def split: if_splits)
    with JShort fx(1) [OF f] show "jobs_step p b t (Some u) = ok (One t' e) \<Longrightarrow> same_num u w \<Longrightarrow>
        jobs_step p b t' (Some w) = ok (One t' None)"
      by (auto simp: jobs_step_def [of p b t] Let_def with_int_ok split: if_splits)
  next
    case (JAttached v)
    then obtain f where f: "flag_short p = Some f" using jobs_token_form(1) [of p t v] by auto
    from JAttached f fx(1) [OF f] show "jobs_step p b t (Some u) = ok (One t' e) \<Longrightarrow> same_num u w \<Longrightarrow>
        jobs_step p b t' (Some w) = ok (One t' None)"
      by (auto simp: jobs_step_def [of p b t] Let_def with_int_ok split: if_splits)
  next
    case (JLongEq v)
    with fx(2) show "jobs_step p b t (Some u) = ok (One t' e) \<Longrightarrow> same_num u w \<Longrightarrow>
        jobs_step p b t' (Some w) = ok (One t' None)"
      by (auto simp: jobs_step_def [of p b t] Let_def with_int_ok split: if_splits)
  qed (auto simp: jobs_step_def Let_def with_int_ok same_num_def split: if_splits)
  show "jobs_step p b t None = ok (One t' e) \<Longrightarrow> jobs_step p b t' None = ok (One t' None)"
  proof (cases "jobs_token p t")
    case JShort
    then have f: "flag_short p = Some t"
      by (auto simp: jobs_token_def Let_def split: if_splits)
    with JShort fx(1) [OF f] show "jobs_step p b t None = ok (One t' e) \<Longrightarrow>
        jobs_step p b t' None = ok (One t' None)"
      by (auto simp: jobs_step_def [of p b t] Let_def with_int_ok split: if_splits)
  next
    case (JAttached v)
    then obtain f where f: "flag_short p = Some f" using jobs_token_form(1) [of p t v] by auto
    from JAttached f fx(1) [OF f] show "jobs_step p b t None = ok (One t' e) \<Longrightarrow>
        jobs_step p b t' None = ok (One t' None)"
      by (auto simp: jobs_step_def [of p b t] Let_def with_int_ok split: if_splits)
  next
    case (JLongEq v)
    with fx(2) show "jobs_step p b t None = ok (One t' e) \<Longrightarrow> jobs_step p b t' None = ok (One t' None)"
      by (auto simp: jobs_step_def [of p b t] Let_def with_int_ok split: if_splits)
  qed (auto simp: jobs_step_def Let_def split: if_splits)
  show "jobs_step p b t (Some u) = ok (Two t' u' e) \<Longrightarrow> jobs_step p b t' (Some u') = ok (Two t' u' None)"
    using bs(3,6) by (cases "jobs_token p t")
      (auto simp: jobs_step_def Let_def with_int_ok split: if_splits)
qed

interpretation make: rewriting "jobs_step make_flags (budget_for w m)" same_num for w m
  by (rule jobs_rewriting [OF _ budget_pos]) (simp add: jobs_std_def make_flags_def)

interpretation ninja: rewriting "jobs_step ninja_flags (budget_for w m)" same_num for w m
  by (rule jobs_rewriting [OF _ budget_pos]) (simp add: jobs_std_def ninja_flags_def)

interpretation cargo: rewriting "jobs_step cargo_flags (budget_for w m)" same_num for w m
  by (rule jobs_rewriting [OF _ budget_pos]) (simp add: jobs_std_def cargo_flags_def)

lemma xdist_step_ok: "\<exists>s. xdist_step b t nx = ok s \<and> (nx = None \<longrightarrow> (\<exists>t' e. s = One t' e))"
  by (cases "xdist_token t"; cases nx) (simp_all add: xdist_step_def)

lemma xdist_pass_ok: "is_ok (run_pass (xdist_step b) ts)"
proof (induction ts rule: induct_list012)
  case (2 t)
  obtain t' e where "xdist_step b t None = ok (One t' e)" using xdist_step_ok by blast
  then show ?case by simp
next
  case (3 t u ts)
  obtain s where s: "xdist_step b t (Some u) = ok s" using xdist_step_ok by blast
  from 3 obtain x y where "run_pass (xdist_step b) ts = ok x" "run_pass (xdist_step b) (u # ts) = ok y"
    unfolding is_ok_iff by blast
  with s show ?case by (cases s; cases x; cases y) simp_all
qed simp

section \<open>What inspection guarantees, and what it breaks\<close>

definition settles :: "(string list \<Rightarrow> (string list \<times> rewrite list) result) \<Rightarrow> string list \<Rightarrow> bool" where
  "settles pass ts = (case pass ts of Inl _ \<Rightarrow> True
     | Inr (ts', _) \<Rightarrow> pass ts' = ok (ts', []) \<and> length ts' = length ts)"

text \<open>
  A rewriting pass is complete for the forms it knows: the token list it leaves has the
  same length, and the same pass over it finds nothing above the worker budget any more, for
  pytest, make, ninja and cargo alike; and the pytest pass never raises.
\<close>

theorem passes_leave_nothing_over_budget:
  "settles (rewrite_pytest_xdist (budget_for w m)) ts \<and> is_ok (rewrite_pytest_xdist (budget_for w m) ts) \<and>
   settles (rewrite_jobs_flag make_flags (budget_for w m)) ts \<and>
   settles (rewrite_jobs_flag ninja_flags (budget_for w m)) ts \<and>
   settles (rewrite_jobs_flag cargo_flags (budget_for w m)) ts"
proof (intro conjI)
  show "settles (rewrite_pytest_xdist (budget_for w m)) ts"
    using xdist.run_pass_fix [of w m ts]
    by (auto simp: settles_def rewrite_pytest_xdist_def split: sum.splits)
  show "settles (rewrite_jobs_flag make_flags (budget_for w m)) ts"
    using make.run_pass_fix [of w m ts] by (auto simp: settles_def rewrite_jobs_flag_def split: sum.splits)
  show "settles (rewrite_jobs_flag ninja_flags (budget_for w m)) ts"
    using ninja.run_pass_fix [of w m ts] by (auto simp: settles_def rewrite_jobs_flag_def split: sum.splits)
  show "settles (rewrite_jobs_flag cargo_flags (budget_for w m)) ts"
    using cargo.run_pass_fix [of w m ts] by (auto simp: settles_def rewrite_jobs_flag_def split: sum.splits)
  show "is_ok (rewrite_pytest_xdist (budget_for w m) ts)"
    unfolding rewrite_pytest_xdist_def by (rule xdist_pass_ok)
qed

text \<open>
  The re-quoting of a rewritten command is faithful on words: splitting the rewritten
  command gives exactly the rewritten tokens, so the shell sees each of them as one word.
\<close>

theorem shlex_round_trip: "shlex_split (shlex_join ts) = ok ts"
  by (rule shlex_split_join)

text \<open>
  On anything but words it is not. Pipes, redirections, lists, variables and globs are
  words to \<open>shlex.split\<close>, and \<open>shlex.join\<close> quotes them: once an edit fires, \<open>| tee log\<close> becomes
  arguments of the test run and \<open>$HOME\<close> is no longer expanded. A command that needs no edit
  keeps its text.
\<close>

theorem rewriting_quotes_shell_operators:
  "(case inspect_command ''pytest -n auto $HOME/t | tee log'' 1 4 of
      Inr r \<Rightarrow> command r = ''pytest -n 1 '' @ shlex_quote ''$HOME/t'' @ '' '' @ shlex_quote ''|'' @ '' tee log''
        \<and> shlex_quote ''|'' = [squote, CHR ''|'', squote]
    | Inl _ \<Rightarrow> False) \<and>
   inspect_command ''pytest -n 1 $HOME/t | tee log'' 1 4 =
     ok \<lparr>command = ''pytest -n 1 $HOME/t | tee log'', edits = []\<rparr>"
  by code_simp

text \<open>
  Worker counts the rewriter's rule names and its passes miss: a missing count behind
  \<open>make --jobs\<close> (unbounded for make) and every short-form count of cargo.
\<close>

theorem unbounded_forms_pass_through:
  "inspect_command ''make --jobs all'' 1 4 = ok \<lparr>command = ''make --jobs all'', edits = []\<rparr> \<and>
   inspect_command ''cargo build -j 64'' 1 4 = ok \<lparr>command = ''cargo build -j 64'', edits = []\<rparr> \<and>
   inspect_command ''cargo build -j64'' 1 4 = ok \<lparr>command = ''cargo build -j64'', edits = []\<rparr>"
  by code_simp

text \<open>
  Inspection can raise: an attached count of superscript digits passes \<open>str.isdigit\<close> and
  fails \<open>int\<close>, and the exception leaves \<open>execute\<close> instead of the command running untouched.
\<close>

theorem superscript_count_raises:
  "inspect_command (''make -j'' @ [CHR 0xB2]) 1 4 = Inl (ValueError [CHR 0xB2])"
  by code_simp

end
