(* ===== verification/Grants.thy ===== *)
theory Grants
  imports Path_Safety
begin

text \<open>
  \<open>hares/grants.py\<close>: the in-memory registry of approved path-access grants, as the list the
  store keeps under its lock. Each method is one atomic operation on the list.
\<close>

datatype lifetime = Once | Session

record grant =
  root :: rpath
  gmode :: gmode
  lifetime :: lifetime

type_synonym grant_store = "grant list"

definition grant_add :: "grant_store \<Rightarrow> rpath \<Rightarrow> gmode \<Rightarrow> lifetime \<Rightarrow> grant_store" where
  "grant_add gs r m l = gs @ [\<lparr>root = r, gmode = m, lifetime = l\<rparr>]"

definition grant_matches :: "host \<Rightarrow> rpath \<Rightarrow> bool \<Rightarrow> grant \<Rightarrow> bool" where
  "grant_matches h resolved need_write g \<longleftrightarrow>
     \<not> (need_write \<and> gmode g \<noteq> RW) \<and> is_subpath h (rpath_path resolved) (rpath_path (root g))"

definition find_covering :: "host \<Rightarrow> grant_store \<Rightarrow> rpath \<Rightarrow> bool \<Rightarrow> grant option" where
  "find_covering h gs resolved need_write = find (grant_matches h resolved need_write) gs"

definition covers_read :: "host \<Rightarrow> grant_store \<Rightarrow> rpath \<Rightarrow> bool" where
  "covers_read h gs resolved = (find_covering h gs resolved False \<noteq> None)"

definition covers_write :: "host \<Rightarrow> grant_store \<Rightarrow> rpath \<Rightarrow> bool" where
  "covers_write h gs resolved = (find_covering h gs resolved True \<noteq> None)"

fun consume_once :: "host \<Rightarrow> grant_store \<Rightarrow> rpath \<Rightarrow> bool \<Rightarrow> grant_store" where
  "consume_once h [] resolved need_write = []"
| "consume_once h (g # gs) resolved need_write =
     (if need_write \<and> gmode g \<noteq> RW then g # consume_once h gs resolved need_write
      else if is_subpath h (rpath_path resolved) (rpath_path (root g)) then
        (if lifetime g = Once then gs else g # gs)
      else g # consume_once h gs resolved need_write)"

definition consume_all_once :: "grant_store \<Rightarrow> grant_store" where
  "consume_all_once gs = filter (\<lambda>g. lifetime g \<noteq> Once) gs"

definition list_active :: "grant_store \<Rightarrow> (string \<times> gmode \<times> lifetime) list" where
  "list_active gs = map (\<lambda>g. (rpath_str (root g), gmode g, lifetime g)) gs"

lemma find_covering_None:
  "find_covering h gs r w = None \<longleftrightarrow> (\<forall>g \<in> set gs. \<not> grant_matches h r w g)"
  by (auto simp: find_covering_def find_None_iff)

lemma covers_read_iff: "covers_read h gs r \<longleftrightarrow> (\<exists>g \<in> set gs. grant_matches h r False g)"
  by (auto simp: covers_read_def find_covering_None)

lemma covers_write_iff: "covers_write h gs r \<longleftrightarrow> (\<exists>g \<in> set gs. grant_matches h r True g)"
  by (auto simp: covers_write_def find_covering_None)

lemma covers_write_read: "covers_write h gs r \<Longrightarrow> covers_read h gs r"
  by (auto simp: covers_write_iff covers_read_iff grant_matches_def)

text \<open>Consumption against the abstract multiset view: it removes the first covering grant
  when that is a one-shot grant, and nothing else.\<close>

lemma consume_once_split:
  "consume_once h gs r w =
     (case find_covering h gs r w of
        Some g \<Rightarrow> if lifetime g = Once then remove1 g gs else gs
      | None \<Rightarrow> gs)"
  by (induction gs) (auto simp: find_covering_def grant_matches_def split: option.splits
      dest: find_Some_iff [THEN iffD1])

lemma set_consume_once: "set (consume_once h gs r w) \<subseteq> set gs"
  by (induction gs) auto

lemma consume_once_session:
  "g \<in> set gs \<Longrightarrow> lifetime g = Session \<Longrightarrow> g \<in> set (consume_once h gs r w)"
  by (induction gs) auto

lemma consume_once_noop: "\<forall>g \<in> set gs. \<not> grant_matches h r w g \<Longrightarrow> consume_once h gs r w = gs"
  by (induction gs) (auto simp: grant_matches_def)

lemma length_consume_once:
  "length (consume_once h gs r w) = length gs - (case find_covering h gs r w of
     Some g \<Rightarrow> if lifetime g = Once then 1 else 0 | None \<Rightarrow> 0)"
proof (cases "find_covering h gs r w")
  case None
  then show ?thesis by (simp add: consume_once_split)
next
  case (Some g)
  then have "g \<in> set gs" by (auto simp: find_covering_def find_Some_iff)
  with Some show ?thesis by (simp add: consume_once_split length_remove1)
qed

end
