(* ===== verification/Runner.thy ===== *)
theory Runner
  imports Memlimit Net_Policy Inspector Grants
begin

text \<open>
  \<open>hares/runner.py\<close>: the executor. \<open>execute\<close> is modelled around the subprocess: \<open>prepare\<close> is
  everything it decides before the spawn (weight, limits, rewriting, mounts, network and
  memory mode, the argument vector, the grants it consumes), \<open>conclude\<close> what it makes of the
  outcome the operating system reports. The core allocator is a state machine of its own.
  Slots are in \<open>Coordination\<close>.
\<close>

section \<open>The runner and its limits\<close>

record runner =
  max_concurrent :: int
  mem_bytes :: int
  cpu_sec :: int
  mem_max_bytes :: int
  cgroup_ok :: bool
  rewrite_on :: bool
  sandbox :: "sandbox_config option"
  ceiling_path :: "rpath option"
  net_policy :: "network_policy option"
  grant_list :: "grant_store option"
  core_pool :: "nat list"
  core_in_use :: "nat set"
  scope_paths :: "rpath list option"
  scope_read_only :: bool

definition MB :: int where
  "MB = 1024 * 1024"

text \<open>A hard limit of the kernel; negative is unlimited.\<close>

definition clamp_hard :: "int \<Rightarrow> int \<Rightarrow> int" where
  "clamp_hard hard v = (if hard \<ge> 0 \<and> v > hard then hard else v)"

definition Runner ::
  "int \<Rightarrow> int \<Rightarrow> int \<Rightarrow> int option \<Rightarrow> int \<Rightarrow> int \<Rightarrow> bool \<Rightarrow> bool \<Rightarrow> sandbox_config option \<Rightarrow> rpath option
   \<Rightarrow> network_policy option \<Rightarrow> grant_store option \<Rightarrow> nat list \<Rightarrow> runner result" where
  "Runner maxc mem_mb cpu mem_max_mb as_hard cpu_hard cg rewrite_overcommits sb ceil np gs cores =
     (if maxc < 1 then raise_err (ValueError ''max_concurrent must be >= 1'')
      else if mem_mb < 1 then raise_err (ValueError ''mem_limit_mb must be >= 1'')
      else if cpu < 1 then raise_err (ValueError ''cpu_limit_sec must be >= 1'')
      else
        let mem = clamp_hard as_hard (mem_mb * MB);
            wanted = (case mem_max_mb of None \<Rightarrow> mem_mb | Some m \<Rightarrow> if m = 0 then mem_mb else m) * MB;
            raw_max = (if as_hard \<ge> 0 then min wanted as_hard else wanted)
        in ok \<lparr>max_concurrent = maxc, mem_bytes = mem, cpu_sec = clamp_hard cpu_hard cpu,
               mem_max_bytes = max raw_max mem, cgroup_ok = cg, rewrite_on = rewrite_overcommits,
               sandbox = (case sb of Some c \<Rightarrow> if enabled c then Some c else None | None \<Rightarrow> None),
               ceiling_path = ceil, net_policy = np, grant_list = gs,
               core_pool = cores, core_in_use = {},
               scope_paths = None, scope_read_only = False\<rparr>)"

definition update_ceiling :: "rpath \<Rightarrow> runner \<Rightarrow> runner" where
  "update_ceiling p r = r\<lparr>ceiling_path := Some p\<rparr>"

definition set_active_scope :: "rpath list \<Rightarrow> bool \<Rightarrow> runner \<Rightarrow> runner" where
  "set_active_scope ps ro r =
     r\<lparr>scope_paths := (if ps = [] then None else Some ps), scope_read_only := ro\<rparr>"

section \<open>The sandbox of one call\<close>

definition resolve_entries :: "host \<Rightarrow> runner \<Rightarrow> string list \<Rightarrow> string list result" where
  "resolve_entries h r entries = collect (\<lambda>entry.
     let p = path_of entry;
         p = (if \<not> is_absolute p then (case ceiling_path r of Some c \<Rightarrow> path_join (rpath_path c) p | None \<Rightarrow> p) else p)
     in rbind (from_option (RuntimeError entry) (resolve_on h p)) (\<lambda>q. ok (rpath_str q))) entries"

definition resolve_blacklist :: "host \<Rightarrow> runner \<Rightarrow> sandbox_config \<Rightarrow> sandbox_config result" where
  "resolve_blacklist h r sb =
     (if protect_binds sb = [] \<and> exclude_binds sb = [] then ok sb
      else rbind (resolve_entries h r (protect_binds sb)) (\<lambda>pr.
           rbind (resolve_entries h r (exclude_binds sb)) (\<lambda>ex.
           ok (sb\<lparr>protect_binds := pr, exclude_binds := ex\<rparr>))))"

definition apply_grant_mounts :: "runner \<Rightarrow> sandbox_config \<Rightarrow> sandbox_config" where
  "apply_grant_mounts r cfg =
     (case grant_list r of None \<Rightarrow> cfg
      | Some gs \<Rightarrow>
          let active = list_active gs;
              rw_extra = map fst (filter (\<lambda>(p, m, l). m = RW) active);
              ro_extra = map fst (filter (\<lambda>(p, m, l). m = RO) active)
          in cfg\<lparr>rw_binds := rw_binds cfg @ rw_extra, ro_binds := ro_binds cfg @ ro_extra\<rparr>)"

definition scope_mounts :: "runner \<Rightarrow> sandbox_config \<Rightarrow> sandbox_config" where
  "scope_mounts r base =
     (let ceiling_str = map_option rpath_str (ceiling_path r) in
      case scope_paths r of
        None \<Rightarrow>
          (case ceiling_str of None \<Rightarrow> base
           | Some c \<Rightarrow> if scope_read_only r then base\<lparr>ro_binds := ro_binds base @ [c]\<rparr>
                      else base\<lparr>rw_binds := rw_binds base @ [c]\<rparr>)
      | Some ps \<Rightarrow>
          if scope_read_only r then base\<lparr>ro_binds := ro_binds base @ map rpath_str ps\<rparr>
          else
            let new_rw = rw_binds base @ map rpath_str ps;
                new_ro = (case ceiling_str of None \<Rightarrow> ro_binds base
                          | Some c \<Rightarrow> if c \<in> set new_rw then ro_binds base else ro_binds base @ [c])
            in base\<lparr>rw_binds := new_rw, ro_binds := new_ro\<rparr>)"

definition effective_sandbox :: "host \<Rightarrow> runner \<Rightarrow> sandbox_config option result" where
  "effective_sandbox h r =
     (case sandbox r of None \<Rightarrow> ok None
      | Some sb \<Rightarrow> rbind (resolve_blacklist h r sb) (\<lambda>base.
          ok (Some (apply_grant_mounts r (scope_mounts r base)))))"

section \<open>Cores\<close>

text \<open>\<open>_claim_cores\<close> and \<open>_release_cores\<close>, each atomic under the core lock.\<close>

definition claim_cores :: "int \<Rightarrow> runner \<Rightarrow> nat list \<times> runner" where
  "claim_cores weight r =
     (if core_pool r = [] then ([], r)
      else let free0 = filter (\<lambda>c. c \<notin> core_in_use r) (core_pool r);
               free = (if free0 = [] then core_pool r else free0);
               chosen = take (nat weight) free
           in (chosen, r\<lparr>core_in_use := core_in_use r \<union> set chosen\<rparr>))"

definition release_cores :: "nat list \<Rightarrow> runner \<Rightarrow> runner" where
  "release_cores cores r = r\<lparr>core_in_use := core_in_use r - set cores\<rparr>"

section \<open>What is decided before the spawn\<close>

record request =
  rq_command :: string
  rq_cwd :: "string option"
  rq_weight :: int
  rq_mem_mb :: "int option"
  rq_cpu_sec :: "int option"
  rq_high_memory :: bool

definition call_weight :: "runner \<Rightarrow> request \<Rightarrow> int" where
  "call_weight r rq = max 1 (min (rq_weight rq) (max_concurrent r))"

definition mem_budget :: "runner \<Rightarrow> request \<Rightarrow> int option" where
  "mem_budget r rq =
     (let ceiling_bytes = (if rq_high_memory rq then mem_max_bytes r else mem_bytes r) in
      case rq_mem_mb rq of
        Some m \<Rightarrow> Some (min (max 1 m * MB) ceiling_bytes)
      | None \<Rightarrow> if rq_high_memory rq then Some ceiling_bytes else None)"

definition aggregate_bytes :: "runner \<Rightarrow> request \<Rightarrow> int" where
  "aggregate_bytes r rq = (case mem_budget r rq of Some b \<Rightarrow> b | None \<Rightarrow> mem_bytes r)"

definition cpu_budget :: "runner \<Rightarrow> request \<Rightarrow> int option" where
  "cpu_budget r rq = map_option (\<lambda>c. min (max 1 c) (cpu_sec r)) (rq_cpu_sec rq)"

text \<open>What the forked child sets: the pinned cores and the two hard limits.\<close>

definition child_limits :: "runner \<Rightarrow> request \<Rightarrow> int \<Rightarrow> int \<Rightarrow> int \<times> int" where
  "child_limits r rq as_hard cpu_hard =
     (let m = (case mem_budget r rq of Some b \<Rightarrow> b | None \<Rightarrow> mem_bytes r);
          c = (case cpu_budget r rq of Some b \<Rightarrow> b | None \<Rightarrow> cpu_sec r)
      in (if as_hard \<ge> 0 then min m as_hard else m, if cpu_hard \<ge> 0 then min c cpu_hard else c))"

datatype network_mode = NetFull | NetOff | NetAllowlist

definition network_mode_of :: "runner \<Rightarrow> network_mode" where
  "network_mode_of r = (case sandbox r of None \<Rightarrow> NetFull
     | Some sb \<Rightarrow>
         if (case net_policy r of None \<Rightarrow> False | Some p \<Rightarrow> policy_enabled p) then NetAllowlist
         else if \<not> allow_network sb then NetOff else NetFull)"

record prepared =
  pr_weight :: int
  pr_command :: string
  pr_edits :: "rewrite list"
  pr_argv :: "string list"
  pr_scope :: "string option"
  pr_runner :: runner

text \<open>\<open>list.index\<close> and \<open>list.insert\<close> of the slirp4netns fallback.\<close>

definition insert_at_first :: "string \<Rightarrow> string list \<Rightarrow> string list result" where
  "insert_at_first x xs = (if x \<in> set xs
     then ok (takeWhile (\<lambda>y. y \<noteq> x) xs @ [x] @ dropWhile (\<lambda>y. y \<noteq> x) xs)
     else raise_err (ValueError x))"

definition sandboxed_argv ::
  "host \<Rightarrow> runner \<Rightarrow> sandbox_config \<Rightarrow> string \<Rightarrow> string option \<Rightarrow> bool \<Rightarrow> nat \<Rightarrow> int \<Rightarrow> string option
   \<Rightarrow> string list result" where
  "sandboxed_argv h r cfg cmd d slirp_available r_fd agg scope_name =
     (case net_policy r of
        Some p \<Rightarrow>
          if policy_enabled p then
            (if \<not> slirp_available then
               rbind (build_bwrap_argv h cfg cmd d None None) (insert_at_first ''--unshare-net'')
             else build_bwrap_argv h cfg cmd d (Some r_fd) (Some (build_inner_setup_script p cmd)))
          else rbind (build_bwrap_argv h cfg cmd d None None) (\<lambda>argv.
               case scope_name of Some n \<Rightarrow> build_scope_argv argv agg n 0 | None \<Rightarrow> ok argv)
      | None \<Rightarrow> rbind (build_bwrap_argv h cfg cmd d None None) (\<lambda>argv.
               case scope_name of Some n \<Rightarrow> build_scope_argv argv agg n 0 | None \<Rightarrow> ok argv))"

text \<open>The rewriting of the command, when it is on.\<close>

definition inspected :: "runner \<Rightarrow> request \<Rightarrow> (string \<times> rewrite list) result" where
  "inspected r rq =
     (if rewrite_on r then
        rbind (inspect_command (rq_command rq) (call_weight r rq) (max_concurrent r)) (\<lambda>i.
        ok (if edits i = [] then (rq_command rq, []) else (command i, edits i)))
      else ok (rq_command rq, []))"

definition uses_allowlist :: "runner \<Rightarrow> sandbox_config option \<Rightarrow> bool" where
  "uses_allowlist r cfg = ((case net_policy r of None \<Rightarrow> False | Some p \<Rightarrow> policy_enabled p) \<and> cfg \<noteq> None)"

text \<open>One-shot grants are consumed where the mounts of a sandboxed call are final, before anything is
  started: also when what follows raises.\<close>

definition spend_once :: "runner \<Rightarrow> runner" where
  "spend_once r = r\<lparr>grant_list := map_option consume_all_once (grant_list r)\<rparr>"

definition left_by_failure :: "host \<Rightarrow> runner \<Rightarrow> request \<Rightarrow> runner" where
  "left_by_failure h r rq =
     (if rq_command rq \<noteq> [] \<and> is_ok (inspected r rq)
      then (case effective_sandbox h r of Inr (Some c) \<Rightarrow> spend_once r | _ \<Rightarrow> r) else r)"

text \<open>\<open>execute\<close> up to the spawn. \<open>scope_name\<close> is the fresh scope name, used when the cgroup mode
  is on; the one-shot grants are consumed on every sandboxed call.\<close>

definition prepare ::
  "host \<Rightarrow> bool \<Rightarrow> nat \<Rightarrow> string \<Rightarrow> runner \<Rightarrow> request \<Rightarrow> prepared result" where
  "prepare h slirp_available r_fd scope_name r rq =
     (if rq_command rq = [] then raise_err (ValueError ''command must be non-empty'')
      else
        rbind (inspected r rq) (\<lambda>(cmd, eds).
        rbind (effective_sandbox h r) (\<lambda>cfg.
        let scope = (if cgroup_ok r \<and> \<not> uses_allowlist r cfg then Some scope_name else None) in
        case cfg of
          Some c \<Rightarrow>
            rbind (sandboxed_argv h r c cmd (rq_cwd rq) slirp_available r_fd (aggregate_bytes r rq) scope) (\<lambda>argv.
            ok \<lparr>pr_weight = call_weight r rq, pr_command = cmd, pr_edits = eds, pr_argv = argv,
                pr_scope = scope, pr_runner = spend_once r\<rparr>)
        | None \<Rightarrow>
            rbind (case scope of Some n \<Rightarrow> build_scope_argv [''/bin/sh'', ''-c'', cmd] (aggregate_bytes r rq) n 0
                   | None \<Rightarrow> ok [''/bin/sh'', ''-c'', cmd]) (\<lambda>argv.
            ok \<lparr>pr_weight = call_weight r rq, pr_command = cmd, pr_edits = eds, pr_argv = argv,
                pr_scope = scope, pr_runner = r\<rparr>))))"

section \<open>What is made of the outcome\<close>

datatype kill_reason = Timeout | RssExceeded | CpuExceeded | Oom

text \<open>What the operating system and the monitor report: whether the wall clock ran out, the
  reason the monitor recorded, the return code (negative: the signal that killed the child).\<close>

record outcome =
  timed_out :: bool
  monitor_reason :: "kill_reason option"
  returncode :: "int option"
  peak_rss_mb :: "int option"

definition SIGKILL :: int where "SIGKILL = 9"
definition SIGTERM :: int where "SIGTERM = 15"
definition SIGXCPU :: int where "SIGXCPU = 24"

definition killed_reason :: "bool \<Rightarrow> outcome \<Rightarrow> kill_reason option" where
  "killed_reason in_cgroup oc =
     (let first = (if timed_out oc then Some Timeout else monitor_reason oc) in
      case first of Some k \<Rightarrow> Some k
      | None \<Rightarrow>
          (case returncode oc of None \<Rightarrow> None
           | Some rc \<Rightarrow>
               if rc = - SIGXCPU then Some CpuExceeded
               else if in_cgroup \<and> rc \<in> {- SIGKILL, - SIGTERM} then Some Oom
               else if rc = - SIGKILL then Some RssExceeded
               else None))"

record exec_result =
  exit_code :: "int option"
  res_killed :: "kill_reason option"
  res_edits :: "rewrite list"
  applied_mem_limit_mb :: int
  applied_cpu_limit_sec :: int
  res_network :: network_mode
  memory_cgroup :: bool
  aggregate_mem_limit_mb :: int
  mem_clamped :: bool
  cpu_clamped :: bool

definition conclude :: "runner \<Rightarrow> request \<Rightarrow> prepared \<Rightarrow> outcome \<Rightarrow> exec_result" where
  "conclude r rq p oc =
     (let applied_mem = (case mem_budget r rq of
            Some b \<Rightarrow> if b = 0 then mem_bytes r else b | None \<Rightarrow> mem_bytes r) div MB;
          applied_cpu = (case cpu_budget r rq of
            Some b \<Rightarrow> if b = 0 then cpu_sec r else b | None \<Rightarrow> cpu_sec r)
      in \<lparr>exit_code = returncode oc,
          res_killed = killed_reason (pr_scope p \<noteq> None) oc,
          res_edits = pr_edits p,
          applied_mem_limit_mb = applied_mem,
          applied_cpu_limit_sec = applied_cpu,
          res_network = network_mode_of r,
          memory_cgroup = (pr_scope p \<noteq> None),
          aggregate_mem_limit_mb = aggregate_bytes r rq div MB,
          mem_clamped = (case rq_mem_mb rq of Some m \<Rightarrow> max 1 m > applied_mem | None \<Rightarrow> False),
          cpu_clamped = (case rq_cpu_sec rq of Some c \<Rightarrow> max 1 c > applied_cpu | None \<Rightarrow> False)\<rparr>)"

section \<open>Limits\<close>

lemma Runner_ok:
  assumes "Runner maxc mem_mb cpu mmax ah ch cg rw sb ceil np gs cores = ok r"
  shows "1 \<le> max_concurrent r" "max_concurrent r = maxc" "core_in_use r = {}"
    "mem_bytes r \<le> mem_mb * MB" "mem_bytes r \<le> mem_max_bytes r" "cpu_sec r \<le> cpu"
    "0 \<le> ah \<longrightarrow> mem_max_bytes r \<le> ah" "0 \<le> ch \<longrightarrow> cpu_sec r \<le> ch"
  using assms by (auto simp: Runner_def Let_def clamp_hard_def split: if_splits)


definition demo_request :: request where
  "demo_request = \<lparr>rq_command = ''make -j'', rq_cwd = None, rq_weight = 9, rq_mem_mb = Some 9000,
     rq_cpu_sec = None, rq_high_memory = True\<rparr>"

definition demo_runner :: runner where
  "demo_runner = (case Runner 2 1024 60 (Some 4096) (-1) (-1) False True None None None None [0, 1] of Inr r \<Rightarrow> r)"

lemma demo_runner_ok: "Runner 2 1024 60 (Some 4096) (-1) (-1) False True None None None None [0, 1] = ok demo_runner"
  by (simp add: demo_runner_def Runner_def Let_def)


text \<open>
  The reported kill reason is exact on what the system reports: none exactly when the call
  neither timed out nor was recorded by the monitor and did not die by one of the resource
  signals; a timeout is always reported as one; and a call that exits by itself is never
  reported as killed unless the monitor recorded it.
\<close>

theorem kill_reason_exact:
  "(killed_reason cg oc = None) = (\<not> timed_out oc \<and> monitor_reason oc = None \<and>
      returncode oc \<notin> {Some (- SIGXCPU), Some (- SIGKILL)} \<and> \<not> (cg \<and> returncode oc = Some (- SIGTERM))) \<and>
   (killed_reason cg oc = Some Timeout) = (timed_out oc \<or> monitor_reason oc = Some Timeout) \<and>
   (killed_reason cg oc = Some Oom) = (\<not> timed_out oc \<and> (monitor_reason oc = Some Oom \<or>
      monitor_reason oc = None \<and> cg \<and> returncode oc \<in> {Some (- SIGKILL), Some (- SIGTERM)}))"
  by (cases "monitor_reason oc"; cases "returncode oc")
    (auto simp: killed_reason_def Let_def SIGKILL_def SIGTERM_def SIGXCPU_def)

section \<open>Mounts of one call\<close>

definition scope_rw :: "runner \<Rightarrow> string list" where
  "scope_rw r = (if scope_read_only r then []
     else case scope_paths r of Some ps \<Rightarrow> map rpath_str ps
          | None \<Rightarrow> (case ceiling_path r of None \<Rightarrow> [] | Some c \<Rightarrow> [rpath_str c]))"

definition grant_rw :: "runner \<Rightarrow> string list" where
  "grant_rw r = (case grant_list r of None \<Rightarrow> []
     | Some gs \<Rightarrow> map (\<lambda>g. rpath_str (root g)) (filter (\<lambda>g. gmode g = RW) gs))"

lemma grant_mounts_rw: "rw_binds (apply_grant_mounts r cfg) = rw_binds cfg @ grant_rw r"
proof (cases "grant_list r")
  case (Some gs)
  have "map fst (filter (\<lambda>(p, m, l). m = RW) (list_active gs)) = map (\<lambda>g. rpath_str (root g)) (filter (\<lambda>g. gmode g = RW) gs)"
    by (induction gs) (auto simp: list_active_def)
  with Some show ?thesis by (simp add: apply_grant_mounts_def grant_rw_def Let_def)
qed (simp add: apply_grant_mounts_def grant_rw_def)

lemma grant_mounts_deny:
  "protect_binds (apply_grant_mounts r cfg) = protect_binds cfg"
  "exclude_binds (apply_grant_mounts r cfg) = exclude_binds cfg"
  "enabled (apply_grant_mounts r cfg) = enabled cfg" "allow_network (apply_grant_mounts r cfg) = allow_network cfg"
  by (simp_all add: apply_grant_mounts_def Let_def split: option.splits)

lemma scope_mounts_fields:
  "rw_binds (scope_mounts r base) = rw_binds base @ scope_rw r"
  "protect_binds (scope_mounts r base) = protect_binds base"
  "exclude_binds (scope_mounts r base) = exclude_binds base"
  "enabled (scope_mounts r base) = enabled base" "allow_network (scope_mounts r base) = allow_network base"
  by (auto simp: scope_mounts_def scope_rw_def Let_def split: option.splits)

lemma blacklist_fields:
  "resolve_blacklist h r sb = ok base \<Longrightarrow> rw_binds base = rw_binds sb \<and> ro_binds base = ro_binds sb \<and>
    enabled base = enabled sb \<and> allow_network base = allow_network sb"
  by (auto simp: resolve_blacklist_def split: if_splits)

text \<open>
  What a command run through \<open>execute\<close> can write, for any runner state: the real file
  behind a path is writable exactly when an existing read-write root covers it - one configured
  for the sandbox, the active scope (or the ceiling when there is none, and nothing in
  read-only mode), an rw grant - or the working directory of the call was bound over it, and
  no existing protect or exclude entry, resolved against the ceiling, covers it.
\<close>

lemma execute_writable_iff:
  assumes "sandbox r = Some sb" "resolve_blacklist h r sb = ok base" "effective_sandbox h r = ok (Some cfg)"
  shows "writable_in h (bwrap_args h cfg cmd d sf sc) p =
    ((any_covers h (rw_binds sb @ scope_rw r @ grant_rw r) p \<or> cwd_bound h cfg d p) \<and>
     \<not> any_covers h (protect_binds base @ exclude_binds base) p)"
proof -
  have cfg: "cfg = apply_grant_mounts r (scope_mounts r base)"
    using assms by (simp add: effective_sandbox_def)
  have "rw_binds cfg = rw_binds sb @ scope_rw r @ grant_rw r"
    using blacklist_fields [OF assms(2)] by (simp add: cfg grant_mounts_rw scope_mounts_fields)
  moreover have "protect_binds cfg = protect_binds base" "exclude_binds cfg = exclude_binds base"
    by (simp_all add: cfg grant_mounts_deny scope_mounts_fields)
  ultimately show ?thesis by (simp add: sandbox_writable_iff)
qed

text \<open>A server started in its workspace \<open>/w\<close> with an empty environment, as the shell and
  combined servers start.\<close>

definition default_host :: host where
  "default_host = sandbox_host\<lparr>environ := (\<lambda>_. None)\<rparr>"

definition default_config :: sandbox_config where
  "default_config = (case load_sandbox_config default_host (\<lambda>b. Some (''/usr/bin/'' @ b)) (Some ''/w'') of Inr c \<Rightarrow> c)"

definition default_runner :: runner where
  "default_runner = demo_runner\<lparr>sandbox := Some default_config, ceiling_path := Some [''w'']\<rparr>"

definition effective_config :: "runner \<Rightarrow> sandbox_config" where
  "effective_config r = (case effective_sandbox default_host r of Inr (Some c) \<Rightarrow> c)"

text \<open>
  Narrowing does not narrow. Without \<open>HARES_SANDBOX_RW\<close> the server's own working
  directory becomes a read-write bind, and it stays one whatever the active scope or the
  read-only flag says. A server started in its ceiling runs commands that write anywhere in
  the ceiling after \<open>restrict_paths\<close> to a subdirectory, and with \<open>--read-only\<close>.
\<close>

theorem default_bind_defeats_scope_and_read_only:
  "rw_binds default_config = [''/w''] \<and>
   (let narrowed = set_active_scope [[''w'', ''a'']] False default_runner;
        read_only = set_active_scope [] True default_runner in
    writable_in default_host (bwrap_args default_host (effective_config narrowed) ''touch s/f'' None None None)
      [''w'', ''s'', ''f''] \<and>
    writable_in default_host (bwrap_args default_host (effective_config read_only) ''touch s/f'' None None None)
      [''w'', ''s'', ''f''])"
  by code_simp

text \<open>
  The working directory argument of a call opens any tree. The auto-bind of a directory no
  read-write bind covers is read-write and checked against nothing: in read-only mode, with a
  narrowed scope and a read-write bind elsewhere, a call with \<open>cwd\<close> outside the ceiling writes
  there, and one with \<open>cwd\<close> at the root writes anywhere.
\<close>

theorem cwd_argument_escapes_sandbox:
  "let r = set_active_scope [[''w'', ''a'']] True
             (default_runner\<lparr>sandbox := Some (default_config\<lparr>rw_binds := [''/w/a'']\<rparr>)\<rparr>);
       args = (\<lambda>d. bwrap_args default_host (effective_config r) ''rm f'' (Some d) None None) in
   \<not> writable_in default_host (args ''/w/a'') [''x'', ''f''] \<and>
   writable_in default_host (args ''/x'') [''x'', ''f''] \<and>
   writable_in default_host (args ''/'') [''w'', ''s'', ''key'']"
  by code_simp

section \<open>Network\<close>

text \<open>
  An allowlist that yields no usable entry fails open. The loader answers a policy without
  entries (and its warning announces \<open>NETWORK=off\<close>); the runner does not count it as enabled,
  reports the full network, and builds an argument vector without \<open>--unshare-net\<close>.
\<close>

theorem empty_allowlist_fails_open:
  "let h = default_host\<lparr>environ := [''HARES_SANDBOX_NETWORK_ALLOW'' \<mapsto> ''github.com, pypi.org:0'']\<rparr>;
       np = load_network_policy h (\<lambda>_ _. Some ''1.2.3.4'');
       r = default_runner\<lparr>net_policy := np\<rparr> in
   np = Some \<lparr>allow = [], raw = ''github.com, pypi.org:0''\<rparr> \<and>
   network_mode_of r = NetFull \<and>
   (case prepare h True 5 ''hares-0'' r demo_request of
      Inr p \<Rightarrow> ''--unshare-net'' \<notin> set (pr_argv p) | Inl _ \<Rightarrow> False)"
  by code_simp

text \<open>
  Without slirp4netns an enabled allowlist does not fall back to no network as the code
  announces: with the default \<open>allow_network\<close> the argument vector has no \<open>--unshare-net\<close> to
  insert at, so every call raises \<open>ValueError\<close>. Nothing runs unfiltered, and nothing runs.
\<close>

theorem missing_slirp_raises:
  assumes "net_policy r = Some p" "policy_enabled p" "enabled cfg" "allow_network cfg"
    and "list_all (\<lambda>s. s \<noteq> ''--unshare-net'') (cmd # bwrap_bin cfg # expanduser h ''~'' #
      (case d of None \<Rightarrow> [] | Some c \<Rightarrow> [c]) @ rw_binds cfg @ ro_binds cfg @ protect_binds cfg @ exclude_binds cfg)"
  shows "sandboxed_argv h r cfg cmd d False fd agg sn = Inl (ValueError ''--unshare-net'')"
proof -
  have tmp: "''--unshare-net'' \<notin> set (render (Tmpfs n ''/tmp''))" for n
  proof (cases n)
    case (Some m)
    have "CHR ''u'' \<notin> set (int_str m)"
    proof -
      have "CHR ''u'' \<notin> set (nat_str k)" for k
      proof
        assume "CHR ''u'' \<in> set (nat_str k)"
        then obtain e where e: "e < 10" "CHR ''u'' = digit_chr e" using nat_str_digits by blast
        then have "(of_char (CHR ''u'') :: nat) = 48 + e" by (simp only: of_char_digit_chr)
        with e(1) show False by simp
      qed
      then show ?thesis by (simp add: int_str_def)
    qed
    then have "int_str m \<noteq> ''--unshare-net''" by auto
    with Some show ?thesis by simp
  qed simp
  have "''--unshare-net'' \<notin> set (concat (map render (bwrap_args h cfg cmd d None None)))"
    using assms(4,5) tmp
    by (auto simp: bwrap_args_def base_args_def ro_args_def rw_args_def cwd_args_def protect_args_def
        exclude_args_def list_all_iff split: option.splits if_splits)
  moreover have "bwrap_bin cfg \<noteq> ''--unshare-net''" using assms(5) by simp
  ultimately show ?thesis
    using assms(1,2,3) by (simp add: sandboxed_argv_def build_bwrap_argv_def insert_at_first_def)
qed

theorem missing_slirp_raises_witness:
  "sandboxed_argv default_host (default_runner\<lparr>net_policy := Some
      \<lparr>allow = [\<lparr>ae_host = ''g'', ae_ip = ''1.2.3.4'', ae_port = 443\<rparr>], raw = ''g:443''\<rparr>\<rparr>)
    default_config ''ls'' None False 5 1024 None = Inl (ValueError ''--unshare-net'')"
  by (rule missing_slirp_raises) (simp add: default_runner_def, (code_simp)+)

section \<open>One-shot grants and cores\<close>

text \<open>
  A one-shot grant lives for exactly the next sandboxed call: the sandbox of that call has
  the grant's root among its binds, and after the call no one-shot grant is left, while the
  session grants stay.
\<close>

theorem once_grants_for_one_call:
  assumes "prepare h sl fd n r rq = ok p" "sandbox r = Some sb" "grant_list r = Some gs"
  shows "grant_list (pr_runner p) = Some (filter (\<lambda>g. lifetime g = Session) gs) \<and>
    (\<exists>cfg. effective_sandbox h r = ok (Some cfg) \<and>
      list_all (\<lambda>g. rpath_str (root g) \<in> set (if gmode g = RW then rw_binds cfg else ro_binds cfg)) gs)"
proof -
  have life: "(lifetime g \<noteq> Once) = (lifetime g = Session)" for g :: grant by (cases "lifetime g") simp_all
  from assms(1) obtain cmd eds cfg0 where i: "inspected r rq = ok (cmd, eds)" and e: "effective_sandbox h r = ok cfg0"
    by (auto simp: prepare_def split: if_splits)
  from e assms(2) obtain base where base: "resolve_blacklist h r sb = ok base"
    and cfg0: "cfg0 = Some (apply_grant_mounts r (scope_mounts r base))"
    by (auto simp: effective_sandbox_def)
  from assms(1) i e cfg0 have "grant_list (pr_runner p) = Some (consume_all_once gs)"
    by (auto simp: prepare_def spend_once_def Let_def assms(3) split: if_splits)
  moreover have "list_all (\<lambda>g. rpath_str (root g) \<in> set (if gmode g = RW
      then rw_binds (apply_grant_mounts r (scope_mounts r base))
      else ro_binds (apply_grant_mounts r (scope_mounts r base)))) gs"
  proof -
    have m: "gmode g \<noteq> RW \<Longrightarrow> gmode g = RO" for g :: grant by (cases "gmode g") simp_all
    show ?thesis
      by (auto simp: list_all_iff apply_grant_mounts_def assms(3) Let_def list_active_def dest: m)
        (force dest: m)+
  qed
  ultimately show ?thesis using e cfg0 by (simp add: consume_all_once_def life)
qed

theorem once_grants_for_one_call_witness:
  "grant_list (pr_runner (case prepare default_host True 5 ''s'' (default_runner\<lparr>grant_list :=
      Some [\<lparr>root = [''x''], gmode = RO, lifetime = Once\<rparr>]\<rparr>) demo_request of Inr p \<Rightarrow> p)) =
   Some (filter (\<lambda>g. lifetime g = Session) [\<lparr>root = [''x''], gmode = RO, lifetime = Once\<rparr>])"
proof -
  let ?r = "default_runner\<lparr>grant_list := Some [\<lparr>root = [''x''], gmode = RO, lifetime = Once\<rparr>]\<rparr>"
  have "is_ok (prepare default_host True 5 ''s'' ?r demo_request)" by code_simp
  then have "prepare default_host True 5 ''s'' ?r demo_request =
      ok (case prepare default_host True 5 ''s'' ?r demo_request of Inr p \<Rightarrow> p)"
    by (auto simp: is_ok_iff)
  from once_grants_for_one_call [OF this, of default_config] show ?thesis
    by (simp add: default_runner_def)
qed

text \<open>
  A claim takes at most the weight, from the pool, without repetition; when at least one
  core is free it takes free cores only, and none that is in use.
\<close>

theorem claim_cores_from_free:
  assumes "distinct (core_pool r)" "0 \<le> w"
  shows "case claim_cores w r of (cs, r') \<Rightarrow>
    int (length cs) \<le> w \<and> set cs \<subseteq> set (core_pool r) \<and> distinct cs \<and>
    core_in_use r' = core_in_use r \<union> set cs \<and>
    (if set (core_pool r) \<subseteq> core_in_use r then True else set cs \<inter> core_in_use r = {})"
proof -
  have t: "set (take n xs) \<subseteq> set xs" "length (take (nat w) xs) \<le> nat w" for n and xs :: "nat list"
    by (simp_all add: set_take_subset)
  have e: "filter (\<lambda>c. c \<notin> core_in_use r) (core_pool r) = [] \<longleftrightarrow> set (core_pool r) \<subseteq> core_in_use r"
    by (auto simp: filter_empty_conv)
  show ?thesis
    using assms t(1) [of "nat w"] e
    by (auto simp: claim_cores_def Let_def distinct_take dest!: in_set_takeD)
qed

theorem claim_cores_from_free_witness:
  "case claim_cores 1 demo_runner of (cs, r') \<Rightarrow>
    int (length cs) \<le> 1 \<and> set cs \<subseteq> set (core_pool demo_runner) \<and> distinct cs \<and>
    core_in_use r' = core_in_use demo_runner \<union> set cs \<and>
    (if set (core_pool demo_runner) \<subseteq> core_in_use demo_runner then True
     else set cs \<inter> core_in_use demo_runner = {})"
  by (rule claim_cores_from_free) (simp_all add: demo_runner_def Runner_def Let_def)

text \<open>
  Time-sharing loses track of cores. When no core is free a call shares cores others hold,
  and its release marks them free while the first holder still runs: the next call is then
  pinned to a core in use although the allocator believes it free.
\<close>

theorem shared_core_released_early:
  "let (a, r1) = claim_cores 2 demo_runner;
       (b, r2) = claim_cores 1 r1;
       r3 = release_cores b r2;
       (c, r4) = claim_cores 1 r3 in
   a = [0, 1] \<and> b = [0] \<and> core_in_use r3 = {1} \<and> c = [0] \<and> set c \<subseteq> set a"
  by (simp add: demo_runner_def Runner_def Let_def claim_cores_def release_cores_def insert_Diff_if)

end
