(* ===== verification/Slots.thy ===== *)
theory Slots
  imports Prelude
begin

text \<open>
  The concurrency slots of \<open>hares/coordination.py\<close>: the shared slot files with their
  \<open>flock\<close> locks, the in-process \<open>asyncio.Semaphore\<close>, and the contract both give the runner.
  A lock belongs to an open file description, so its owner is a call of a process; the kernel
  drops the locks of a process that dies.
\<close>

section \<open>Slot files\<close>

type_synonym owner = "nat \<times> nat"   \<comment> \<open>process, call\<close>

text \<open>A slot file: gone, on a file system whose \<open>flock\<close> fails, unlocked, or locked.\<close>

datatype slot = Missing | Faulty | Free | Held owner

text \<open>\<open>__init__\<close> touches a file per allowed subprocess; files of others stay as they are.\<close>

definition init_slots :: "nat \<Rightarrow> slot list \<Rightarrow> slot list" where
  "init_slots n old = map (\<lambda>i. if i < length old \<and> old ! i \<noteq> Missing then old ! i else Free) [0..<n]"

definition slot_weight :: "int \<Rightarrow> int \<Rightarrow> int" where
  "slot_weight weight_cap w = max 1 (min w weight_cap)"

text \<open>One pass over the files: \<open>acq\<close> are the slots locked so far, \<open>i\<close> the position. Opening a
  file that is gone raises out of the loop with the locks kept; a failing \<open>flock\<close> is an error
  the handler releases for.\<close>

datatype pass_end = Enough | GaveUp | OpenFailed | LockFailed

fun take_slots :: "owner \<Rightarrow> nat \<Rightarrow> nat \<Rightarrow> slot list \<Rightarrow> nat list \<Rightarrow> pass_end \<times> nat list \<times> slot list" where
  "take_slots who w i [] acq = (if length acq \<ge> w then Enough else GaveUp, acq, [])"
| "take_slots who w i (s # ss) acq =
     (if length acq \<ge> w then (Enough, acq, s # ss)
      else case s of
        Missing \<Rightarrow> (OpenFailed, acq, s # ss)
      | Faulty \<Rightarrow> (LockFailed, acq, s # ss)
      | Held _ \<Rightarrow> (let (e, acq', ss') = take_slots who w (Suc i) ss acq in (e, acq', s # ss'))
      | Free \<Rightarrow> (let (e, acq', ss') = take_slots who w (Suc i) ss (acq @ [i]) in (e, acq', Held who # ss')))"

definition release_slots :: "owner \<Rightarrow> nat list \<Rightarrow> slot list \<Rightarrow> slot list" where
  "release_slots who tok table =
     map (\<lambda>i. if i \<in> set tok \<and> table ! i = Held who then Free else table ! i) [0..<length table]"

text \<open>One round of \<open>_acquire_flock_slots\<close>: the token, or \<open>None\<close> for the caller to sleep and
  retry, or the exception.\<close>

definition flock_round :: "owner \<Rightarrow> nat \<Rightarrow> slot list \<Rightarrow> nat list option result \<times> slot list" where
  "flock_round who w table =
     (let (e, acq, t) = take_slots who w 0 table [] in
      case e of
        Enough \<Rightarrow> (ok (Some acq), t)
      | GaveUp \<Rightarrow> (ok None, release_slots who acq t)
      | LockFailed \<Rightarrow> (raise_err (OSError ''flock''), release_slots who acq t)
      | OpenFailed \<Rightarrow> (raise_err (FileNotFoundError ''slot''), t))"

definition process_exit :: "nat \<Rightarrow> slot list \<Rightarrow> slot list" where
  "process_exit p = map (\<lambda>s. case s of Held (q, c) \<Rightarrow> if q = p then Free else s | _ \<Rightarrow> s)"

definition count_free_slots :: "slot list \<Rightarrow> nat \<times> nat" where
  "count_free_slots table = (length (filter (\<lambda>s. s = Missing \<or> s = Free) table), length table)"

section \<open>What one round does\<close>

definition sound_files :: "slot list \<Rightarrow> bool" where
  "sound_files table = list_all (\<lambda>s. s \<noteq> Missing \<and> s \<noteq> Faulty) table"

text \<open>The slots of a token in a table.\<close>

definition held_by :: "owner \<Rightarrow> slot list \<Rightarrow> nat set" where
  "held_by who table = {i. i < length table \<and> table ! i = Held who}"

lemma take_slots_length [simp]: "length (snd (snd (take_slots who w i ss acq))) = length ss"
  by (induction who w i ss acq rule: take_slots.induct) (auto simp: split_beta split: slot.split)

definition pass_spec :: "owner \<Rightarrow> nat \<Rightarrow> nat \<Rightarrow> slot list \<Rightarrow> nat list \<Rightarrow> pass_end \<Rightarrow> nat list \<Rightarrow> slot list \<Rightarrow> bool" where
  "pass_spec who w i ss acq e new ss' \<longleftrightarrow>
     length (acq @ new) \<le> w \<and> distinct new \<and> set new \<subseteq> {i ..< i + length ss} \<and> length ss' = length ss \<and>
     (\<forall>j < length ss. if i + j \<in> set new then ss ! j = Free \<and> ss' ! j = Held who else ss' ! j = ss ! j) \<and>
     (e = Enough \<longleftrightarrow> length (acq @ new) = w) \<and> (e = GaveUp \<longrightarrow> Free \<notin> set ss')"

lemma pass_spec_skip:
  assumes "pass_spec who w (Suc i) ss acq e new ss'" "s \<noteq> Free"
  shows "pass_spec who w i (s # ss) acq e new (s # ss')"
proof -
  have "i \<notin> set new" using assms(1) by (auto simp: pass_spec_def)
  with assms show ?thesis by (simp add: pass_spec_def All_less_Suc2 subset_eq) auto
qed

lemma pass_spec_take:
  assumes "pass_spec who w (Suc i) ss (acq @ [i]) e new ss'"
  shows "pass_spec who w i (Free # ss) acq e (i # new) (Held who # ss')"
proof -
  have "i \<notin> set new" using assms by (auto simp: pass_spec_def)
  with assms show ?thesis by (simp add: pass_spec_def All_less_Suc2 subset_eq) auto
qed

lemma take_slots_spec:
  assumes "take_slots who w i ss acq = (e, acq', ss')" "length acq \<le> w"
  shows "\<exists>new. acq' = acq @ new \<and> pass_spec who w i ss acq e new ss'"
  using assms
proof (induction who w i ss acq arbitrary: e acq' ss' rule: take_slots.induct)
  case (1 who w i acq)
  then show ?case by (auto simp: pass_spec_def split: if_splits)
next
  case (2 who w i s ss acq)
  show ?case
  proof (cases "length acq \<ge> w")
    case True
    with 2(3,4) show ?thesis by (auto simp: pass_spec_def)
  next
    case False
    then have len: "length acq \<le> w" "length (acq @ [i]) \<le> w" by simp_all
    show ?thesis
    proof (cases s)
      case (Held q)
      from False 2(3) obtain ss1 where r: "take_slots who w (Suc i) ss acq = (e, acq', ss1)" "ss' = s # ss1"
        by (auto simp: Held split: prod.splits)
      with 2(2) [OF False Held _ len(1)] show ?thesis
        by (auto simp: Held intro!: pass_spec_skip)
    next
      case Free
      from False 2(3) obtain ss1 where r: "take_slots who w (Suc i) ss (acq @ [i]) = (e, acq', ss1)" "ss' = Held who # ss1"
        by (auto simp: Free split: prod.splits)
      with 2(1) [OF False Free _ len(2)] obtain new where "acq' = (acq @ [i]) @ new" "pass_spec who w (Suc i) ss (acq @ [i]) e new ss1"
        by blast
      with r(2) show ?thesis by (auto simp: Free intro!: pass_spec_take exI [of _ "i # new"])
    qed (use False 2(3,4) in \<open>auto simp: pass_spec_def\<close>)
  qed
qed


lemma pass_spec_0:
  assumes "take_slots who w 0 table [] = (e, acq, t)"
  shows "pass_spec who w 0 table [] e acq t"
  using take_slots_spec [OF assms] by simp

lemma release_pass:
  assumes "pass_spec who w 0 table [] e acq t"
  shows "release_slots who acq t = table"
proof (rule nth_equalityI)
  show "length (release_slots who acq t) = length table"
    using assms by (simp add: release_slots_def pass_spec_def)
  show "release_slots who acq t ! i = table ! i" if "i < length (release_slots who acq t)" for i
    using assms that by (auto simp: release_slots_def pass_spec_def split: if_splits)
qed

definition free_count :: "slot list \<Rightarrow> nat" where
  "free_count table = length (filter (\<lambda>s. s = Free) table)"

lemma free_count_card: "free_count table = card {i. i < length table \<and> table ! i = Free}"
  by (simp add: free_count_def length_filter_conv_card)

lemma pass_free_count:
  assumes "pass_spec who w 0 table [] e acq t"
  shows "free_count table = free_count t + length acq"
proof -
  from assms have a: "set acq \<subseteq> {..<length table}" "distinct acq" "length t = length table"
    "\<And>j. j < length table \<Longrightarrow> if j \<in> set acq then table ! j = Free \<and> t ! j = Held who else t ! j = table ! j"
    by (auto simp: pass_spec_def)
  have "{i. i < length table \<and> table ! i = Free} = {i. i < length t \<and> t ! i = Free} \<union> set acq"
    using a by (auto split: if_splits) (metis slot.distinct)+
  moreover have "{i. i < length t \<and> t ! i = Free} \<inter> set acq = {}"
    using a by (fastforce split: if_splits)
  ultimately show ?thesis
    using a(2) by (simp add: free_count_card card_Un_disjoint distinct_card)
qed

lemma sound_pass_end:
  "sound_files table \<Longrightarrow> fst (take_slots who w i table acq) \<in> {Enough, GaveUp}"
  by (induction who w i table acq rule: take_slots.induct)
    (auto simp: sound_files_def split_beta split: slot.split)

text \<open>One round on sound files is all or nothing.\<close>

lemma flock_round_sound:
  assumes "sound_files table"
  shows "if w \<le> free_count table
    then \<exists>tok t. flock_round who w table = (ok (Some tok), t) \<and> pass_spec who w 0 table [] Enough tok t \<and> length tok = w
    else flock_round who w table = (ok None, table)"
proof -
  obtain e acq t where r: "take_slots who w 0 table [] = (e, acq, t)" by (metis prod_cases3)
  note sp = pass_spec_0 [OF r]
  have e: "e = Enough \<or> e = GaveUp" using sound_pass_end [OF assms, of who w 0 "[]"] by (simp add: r)
  have g: "e = GaveUp \<Longrightarrow> free_count t = 0"
    using sp by (auto simp: pass_spec_def free_count_def filter_empty_conv)
  show ?thesis
    using e g sp pass_free_count [OF sp] release_pass [OF sp]
    by (auto simp: flock_round_def r pass_spec_def)
qed

section \<open>The system of calls\<close>

text \<open>The table and the live calls with the slots of each. A call is an open of its own, so
  owners are not reused while they live; any interleaving of rounds, releases and deaths of
  processes is a path of the relation.\<close>

record coord =
  table :: "slot list"
  calls :: "(owner \<times> nat list) list"

inductive coord_step :: "int \<Rightarrow> coord \<Rightarrow> coord \<Rightarrow> bool" for weight_cap where
  acquired: "who \<notin> fst ` set (calls c) \<Longrightarrow>
     flock_round who (nat (slot_weight weight_cap w)) (table c) = (ok (Some tok), t) \<Longrightarrow>
     coord_step weight_cap c \<lparr>table = t, calls = (who, tok) # calls c\<rparr>"
| retried: "who \<notin> fst ` set (calls c) \<Longrightarrow>
     flock_round who (nat (slot_weight weight_cap w)) (table c) = (ok None, t) \<Longrightarrow>
     coord_step weight_cap c (c\<lparr>table := t\<rparr>)"
| failed: "who \<notin> fst ` set (calls c) \<Longrightarrow>
     flock_round who (nat (slot_weight weight_cap w)) (table c) = (Inl e, t) \<Longrightarrow>
     coord_step weight_cap c (c\<lparr>table := t\<rparr>)"
| released: "(who, tok) \<in> set (calls c) \<Longrightarrow>
     coord_step weight_cap c
       \<lparr>table = release_slots who tok (table c), calls = filter (\<lambda>(q, _). q \<noteq> who) (calls c)\<rparr>"
| died: "coord_step weight_cap c
       \<lparr>table = process_exit p (table c), calls = filter (\<lambda>((q, _), _). q \<noteq> p) (calls c)\<rparr>"

definition coord_inv :: "int \<Rightarrow> nat \<Rightarrow> coord \<Rightarrow> bool" where
  "coord_inv weight_cap n c \<longleftrightarrow> length (table c) = n \<and> distinct (map fst (calls c)) \<and>
     (\<forall>(who, tok) \<in> set (calls c). distinct tok \<and> set tok \<subseteq> held_by who (table c) \<and>
        1 \<le> length tok \<and> length tok \<le> nat (max 1 weight_cap))"

lemma round_others:
  assumes "flock_round who w tb = (r, t)" "q \<noteq> who"
  shows "length t = length tb \<and> held_by q t = held_by q tb"
proof -
  obtain e acq t' where p: "take_slots who w 0 tb [] = (e, acq, t')" by (metis prod_cases3)
  note sp = pass_spec_0 [OF p]
  have t: "t = t' \<or> t = tb"
    using assms(1) release_pass [OF sp] by (cases e) (auto simp: flock_round_def p)
  have "held_by q t' = held_by q tb"
    using sp assms(2) by (auto simp: held_by_def pass_spec_def split: if_splits)
  with t sp show ?thesis by (auto simp: pass_spec_def)
qed

lemma round_token:
  assumes "flock_round who w tb = (ok (Some tok), t)"
  shows "pass_spec who w 0 tb [] Enough tok t"
proof -
  obtain e acq t' where p: "take_slots who w 0 tb [] = (e, acq, t')" by (metis prod_cases3)
  with assms pass_spec_0 [OF p] show ?thesis by (cases e) (auto simp: flock_round_def)
qed

lemma token_held: "pass_spec who w 0 tb [] e tok t \<Longrightarrow> set tok \<subseteq> held_by who t"
  by (auto simp: pass_spec_def held_by_def subset_eq split: if_splits)

lemma length_release [simp]: "length (release_slots who tok tb) = length tb" "length (process_exit p tb) = length tb"
  by (simp_all add: release_slots_def process_exit_def)

lemma held_after_release: "q \<noteq> who \<Longrightarrow> held_by q (release_slots who tok tb) = held_by q tb"
  by (auto simp: held_by_def release_slots_def split: if_splits)

lemma held_after_exit: "fst q \<noteq> p \<Longrightarrow> held_by q (process_exit p tb) = held_by q tb"
  by (cases q) (auto simp: held_by_def process_exit_def split: slot.splits prod.splits if_splits)

lemma distinct_fst_filter: "distinct (map fst xs) \<Longrightarrow> distinct (map fst (filter P xs))"
  by (simp add: distinct_map_filter)

lemma coord_step_inv [inv_facts]:
  assumes "coord_step weight_cap c c'" "coord_inv weight_cap n c"
  shows "coord_inv weight_cap n c'"
  using assms
proof cases
  case (acquired who w tok t)
  note sp = round_token [OF acquired(3)]
  have "length tok = nat (slot_weight weight_cap w)" "distinct tok" using sp by (auto simp: pass_spec_def)
  moreover have "1 \<le> nat (slot_weight weight_cap w)" "nat (slot_weight weight_cap w) \<le> nat (max 1 weight_cap)"
    by (auto simp: slot_weight_def)
  moreover have "held_by q t = held_by q (table c)" if "(q, tk) \<in> set (calls c)" for q tk
    using round_others [OF acquired(3), of q] acquired(2) that by force
  moreover have "length t = length (table c)" using sp by (simp add: pass_spec_def)
  ultimately show ?thesis
    using assms(2) acquired(1,2) token_held [OF sp] by (fastforce simp: coord_inv_def)
next
  case (retried who w t)
  have "length t = length (table c)" using round_others [OF retried(3)] by (metis n_not_Suc_n prod.inject surj_pair)
  moreover have "held_by q t = held_by q (table c)" if "(q, tk) \<in> set (calls c)" for q tk
    using round_others [OF retried(3), of q] retried(2) that by force
  ultimately show ?thesis using assms(2) retried(1) by (fastforce simp: coord_inv_def)
next
  case (failed who w e t)
  have "length t = length (table c)" using round_others [OF failed(3)] by (metis n_not_Suc_n prod.inject surj_pair)
  moreover have "held_by q t = held_by q (table c)" if "(q, tk) \<in> set (calls c)" for q tk
    using round_others [OF failed(3), of q] failed(2) that by force
  ultimately show ?thesis using assms(2) failed(1) by (fastforce simp: coord_inv_def)
next
  case (released who tok)
  have "held_by q (release_slots who tok (table c)) = held_by q (table c)" if "q \<noteq> who" for q
    using that by (rule held_after_release)
  with released show ?thesis
    using assms(2) by (auto simp: coord_inv_def distinct_fst_filter)
next
  case (died p)
  have "held_by (a, b) (process_exit p (table c)) = held_by (a, b) (table c)" if "a \<noteq> p" for a b
    using held_after_exit [of "(a, b)" p] that by simp
  with died show ?thesis
    using assms(2) by (auto simp: coord_inv_def distinct_fst_filter)
qed


lemma coord_reachable_inv:
  assumes "(coord_step weight_cap)\<^sup>*\<^sup>* \<lparr>table = init_slots n old, calls = []\<rparr> c"
  shows "coord_inv weight_cap n c"
  using assms
  by (induction rule: rtranclp_induct)
    (auto simp: init_slots_def coord_inv_def [of _ _ "\<lparr>table = _, calls = _\<rparr>"] intro: coord_step_inv)

text \<open>The slots of the live calls, laid out in one list.\<close>

definition slots_in_use :: "coord \<Rightarrow> nat list" where
  "slots_in_use c = concat (map snd (calls c))"

lemma tokens_disjoint:
  assumes "distinct (map fst cs)" "\<forall>(who, tok) \<in> set cs. distinct tok \<and> set tok \<subseteq> held_by who tb"
  shows "distinct (concat (map snd cs)) \<and> set (concat (map snd cs)) \<subseteq> {..<length tb}"
  using assms
proof (induction cs)
  case (Cons x cs)
  obtain who tok where x: "x = (who, tok)" by (cases x)
  have "set tok \<inter> set (concat (map snd cs)) = {}"
  proof -
    have "i \<notin> set tk" if "i \<in> set tok" "(q, tk) \<in> set cs" for i q tk
    proof
      assume "i \<in> set tk"
      with Cons(3) that x have "tb ! i = Held q" "tb ! i = Held who" by (auto simp: held_by_def)
      then have "q = who" by simp
      with Cons(2) x that(2) show False by (auto simp: image_iff)
    qed
    then show ?thesis by auto
  qed
  moreover have "set tok \<subseteq> {..<length tb}" using Cons(3) x by (auto simp: held_by_def)
  ultimately show ?case using Cons x by auto
qed simp

text \<open>
  C11: the cap is global. Whatever the processes sharing a directory do - acquire, retry, fail,
  release, die, in any order - no slot is in two calls' hands, the live calls together hold at
  most \<open>max_concurrent\<close> slots, and each holds between one and its weight cap.
\<close>

theorem slots_never_overcommitted:
  assumes "(coord_step weight_cap)\<^sup>*\<^sup>* \<lparr>table = init_slots n old, calls = []\<rparr> c"
  shows "distinct (slots_in_use c) \<and> length (slots_in_use c) \<le> n \<and>
    list_all (\<lambda>(who, tok). 1 \<le> length tok \<and> int (length tok) \<le> max 1 weight_cap) (calls c)"
proof -
  note inv = coord_reachable_inv [OF assms, unfolded coord_inv_def]
  then have d: "distinct (slots_in_use c)" "set (slots_in_use c) \<subseteq> {..<n}"
    using tokens_disjoint [of "calls c" "table c"] by (auto simp: slots_in_use_def)
  then have "length (slots_in_use c) \<le> n"
    using card_mono [OF _ d(2)] by (simp add: distinct_card)
  moreover have "list_all (\<lambda>(who, tok). 1 \<le> length tok \<and> int (length tok) \<le> max 1 weight_cap) (calls c)"
    using inv by (fastforce simp: list_all_iff)
  ultimately show ?thesis using d(1) by blast
qed

theorem slots_never_overcommitted_witness:
  "let c = \<lparr>table = [Held (7, 0), Free], calls = [((7, 0), [0])]\<rparr> in
   distinct (slots_in_use c) \<and> length (slots_in_use c) \<le> 2 \<and>
    list_all (\<lambda>(who, tok). 1 \<le> length tok \<and> int (length tok) \<le> max 1 1) (calls c)"
proof -
  have i: "init_slots 2 [] = [Free, Free]" by code_simp
  have "flock_round (7, 0) (nat (slot_weight 1 2)) [Free, Free] = (ok (Some [0]), [Held (7, 0), Free])"
    by code_simp
  then have "coord_step 1 \<lparr>table = init_slots 2 [], calls = []\<rparr>
      \<lparr>table = [Held (7, 0), Free], calls = [((7, 0), [0])]\<rparr>"
    using coord_step.acquired [of "(7, 0)" "\<lparr>table = [Free, Free], calls = []\<rparr>" 1 2 "[0]"] by (simp add: i)
  from slots_never_overcommitted [OF r_into_rtranclp [of "coord_step 1", OF this]] show ?thesis
    by (simp add: Let_def)
qed

section \<open>The contract of a slot provider\<close>

text \<open>A burst of calls that all start before any ends.\<close>

fun acquire_all ::
  "('k \<Rightarrow> nat \<Rightarrow> 's \<Rightarrow> ('t \<times> 's) option) \<Rightarrow> ('k \<times> nat) list \<Rightarrow> 's \<Rightarrow> (('k \<times> 't) list \<times> 's) option" where
  "acquire_all try_acquire [] s = Some ([], s)"
| "acquire_all try_acquire ((k, w) # kws) s = (case try_acquire k w s of None \<Rightarrow> None
     | Some (t, s1) \<Rightarrow> (case acquire_all try_acquire kws s1 of None \<Rightarrow> None | Some (ts, s2) \<Rightarrow> Some ((k, t) # ts, s2)))"

text \<open>What the runner relies on: an acquisition takes exactly its weight from what is free, it
  succeeds whenever that much is free, and giving back what was taken undoes it.\<close>

locale slot_provider =
  fixes try_acquire :: "'k \<Rightarrow> nat \<Rightarrow> 's \<Rightarrow> ('t \<times> 's) option"
    and give_back :: "'k \<Rightarrow> 't \<Rightarrow> 's \<Rightarrow> 's"
    and pool_ok :: "'s \<Rightarrow> bool"
    and free_slots :: "'s \<Rightarrow> nat"
  assumes acquire_ok: "pool_ok s \<Longrightarrow> try_acquire k w s = Some (t, s') \<Longrightarrow> pool_ok s'"
    and acquire_counts: "pool_ok s \<Longrightarrow> try_acquire k w s = Some (t, s') \<Longrightarrow> free_slots s = free_slots s' + w"
    and acquire_enough: "pool_ok s \<Longrightarrow> try_acquire k w s = None \<longleftrightarrow> free_slots s < w"
    and give_back_undoes: "pool_ok s \<Longrightarrow> try_acquire k w s = Some (t, s') \<Longrightarrow> give_back k t s' = s"
begin

lemma burst_counts:
  assumes "pool_ok s"
  shows "case acquire_all try_acquire kws s of
      None \<Rightarrow> free_slots s < sum_list (map snd kws)
    | Some (ts, s') \<Rightarrow> pool_ok s' \<and> map fst ts = map fst kws \<and> free_slots s = free_slots s' + sum_list (map snd kws)"
  using assms
proof (induction kws arbitrary: s)
  case (Cons kw kws)
  obtain k w where kw: "kw = (k, w)" by (cases kw)
  show ?case
  proof (cases "try_acquire k w s")
    case None
    with acquire_enough [OF Cons(2), of k w] show ?thesis by (simp add: kw)
  next
    case (Some a)
    then obtain t s1 where a: "try_acquire k w s = Some (t, s1)" by (cases a) simp
    note ok = acquire_ok [OF Cons(2) a] acquire_counts [OF Cons(2) a]
    from Cons(1) [OF ok(1)] ok(2) a show ?thesis by (auto simp: kw split: option.splits prod.splits)
  qed
qed simp

lemma burst_undone:
  assumes "pool_ok s" "acquire_all try_acquire kws s = Some (ts, s')"
  shows "foldr (\<lambda>(k, t). give_back k t) ts s' = s"
  using assms
proof (induction kws arbitrary: s ts s')
  case (Cons kw kws)
  obtain k w where kw: "kw = (k, w)" by (cases kw)
  from Cons(3) obtain t s1 ts' where a: "try_acquire k w s = Some (t, s1)"
    and r: "acquire_all try_acquire kws s1 = Some (ts', s')" "ts = (k, t) # ts'"
    by (auto simp: kw split: option.splits prod.splits)
  from Cons(1) [OF acquire_ok [OF Cons(2) a] r(1)] give_back_undoes [OF Cons(2) a] r(2) show ?case by simp
qed simp

end

definition flock_try :: "owner \<Rightarrow> nat \<Rightarrow> slot list \<Rightarrow> (nat list \<times> slot list) option" where
  "flock_try who w tb = (case flock_round who w tb of (Inr (Some tok), t) \<Rightarrow> Some (tok, t) | _ \<Rightarrow> None)"

lemma flock_try_sound:
  assumes "sound_files tb"
  shows "if w \<le> free_count tb
    then \<exists>tok t. flock_try who w tb = Some (tok, t) \<and> pass_spec who w 0 tb [] Enough tok t \<and> length tok = w
    else flock_try who w tb = None"
  using flock_round_sound [OF assms, of w who] by (auto simp: flock_try_def split: if_splits)

lemma sound_after_pass: "sound_files tb \<Longrightarrow> pass_spec who w 0 tb [] e tok t \<Longrightarrow> sound_files t"
  by (auto simp: sound_files_def pass_spec_def list_all_length split: if_splits)

interpretation flock: slot_provider flock_try release_slots sound_files free_count
proof (unfold_locales, goal_cases)
  case (1 s k w t s')
  with flock_try_sound [OF 1(1), of w k] show ?case
    by (auto split: if_splits intro: sound_after_pass)
next
  case (2 s k w t s')
  with flock_try_sound [OF 2(1), of w k] show ?case
    by (auto split: if_splits dest: pass_free_count)
next
  case (3 s k w)
  with flock_try_sound [OF 3, of w k] show ?case by (auto split: if_splits)
next
  case (4 s k w t s')
  with flock_try_sound [OF 4(1), of w k] show ?case
    by (auto split: if_splits dest: release_pass)
qed

text \<open>The abstract specification: a counter.\<close>

definition count_try :: "nat \<Rightarrow> nat \<Rightarrow> nat option" where
  "count_try w n = (if w \<le> n then Some (n - w) else None)"

text \<open>
  C16: on intact files the scan over locked files refines a counting semaphore. Seen through
  the number of free slots a round is the atomic decrement - it succeeds exactly when the
  weight is free, takes exactly the weight, and otherwise leaves every file as it was - and
  releasing the token restores the table exactly.
\<close>

theorem flock_refines_counter:
  assumes "sound_files tb"
  shows "case flock_round who w tb of
      (Inr (Some tok), t) \<Rightarrow> count_try w (free_count tb) = Some (free_count t) \<and> length tok = w \<and>
        sound_files t \<and> release_slots who tok t = tb
    | (Inr None, t) \<Rightarrow> count_try w (free_count tb) = None \<and> t = tb
    | (Inl e, t) \<Rightarrow> False"
proof (cases "w \<le> free_count tb")
  case True
  with flock_round_sound [OF assms, of w who] obtain tok t where
    r: "flock_round who w tb = (ok (Some tok), t)" "pass_spec who w 0 tb [] Enough tok t" "length tok = w"
    by auto
  then have t: "flock_try who w tb = Some (tok, t)" by (simp add: flock_try_def)
  show ?thesis
    using True r flock.acquire_counts [OF assms t] flock.acquire_ok [OF assms t] flock.give_back_undoes [OF assms t]
    by (simp add: count_try_def)
next
  case False
  with flock_round_sound [OF assms, of w who] show ?thesis by (simp add: count_try_def)
qed

theorem flock_refines_counter_witness:
  "case flock_round (7, 0) 2 [Held (8, 0), Free, Free] of
      (Inr (Some tok), t) \<Rightarrow> count_try 2 (free_count [Held (8, 0), Free, Free]) = Some (free_count t) \<and> length tok = 2 \<and>
        sound_files t \<and> release_slots (7, 0) tok t = [Held (8, 0), Free, Free]
    | (Inr None, t) \<Rightarrow> count_try 2 (free_count [Held (8, 0), Free, Free]) = None \<and> t = [Held (8, 0), Free, Free]
    | (Inl e, t) \<Rightarrow> False"
  by (rule flock_refines_counter) code_simp

text \<open>
  A slot file that is gone strands capacity. Opening it raises outside the handler that
  releases a partial acquisition: the locks taken before it stay, no call owns them, and until
  the process dies no other call gets the slot, although nothing runs.
\<close>

theorem missing_slot_file_strands_locks:
  "flock_round (7, 0) 2 [Free, Missing] = (raise_err (FileNotFoundError ''slot''), [Held (7, 0), Missing]) \<and>
   flock_round (8, 0) 1 [Held (7, 0), Missing] = (raise_err (FileNotFoundError ''slot''), [Held (7, 0), Missing]) \<and>
   flock_round (7, 1) 1 (init_slots 2 [Held (7, 0), Missing]) = (ok (Some [1]), [Held (7, 0), Held (7, 1)]) \<and>
   process_exit 7 [Held (7, 0), Missing] = [Free, Missing]"
  by code_simp

end
