(* ===== verification/Semaphore.thy ===== *)
theory Semaphore
  imports Prelude
begin

text \<open>
  The in-process mode: \<open>asyncio.Semaphore\<close> and the calls that take their permits one by one
  (the loop of \<open>Runner.execute\<close> without a coordinator and of
  \<open>CrossProcessCoordinator.acquire_subprocess_slot\<close> without a directory). The event loop
  interleaves the calls at their \<open>await\<close>s; releasing does not suspend. A release with
  waiters hands the permit to the first of them.
\<close>

section \<open>The semaphore and its calls\<close>

text \<open>A call has some of the permits it needs and goes on, waits in the queue of the semaphore,
  runs its command with all of them, or is over.\<close>

datatype phase = Getting nat | Waiting nat | Running | Finished

record sem =
  permits :: nat
  queue :: "nat list"
  tasks :: "phase list"

fun wake :: "phase \<Rightarrow> phase" where
  "wake (Waiting k) = Getting (Suc k)"
| "wake p = p"

definition release_one :: "sem \<Rightarrow> sem" where
  "release_one s = (case queue s of
      [] \<Rightarrow> s\<lparr>permits := Suc (permits s)\<rparr>
    | t # q \<Rightarrow> s\<lparr>queue := q, tasks := (tasks s)[t := wake (tasks s ! t)]\<rparr>)"

fun release_many :: "nat \<Rightarrow> sem \<Rightarrow> sem" where
  "release_many 0 s = s"
| "release_many (Suc n) s = release_many n (release_one s)"

definition sem_init :: "nat \<Rightarrow> nat list \<Rightarrow> sem" where
  "sem_init cap needs = \<lparr>permits = cap, queue = [], tasks = replicate (length needs) (Getting 0)\<rparr>"

inductive sem_step :: "nat list \<Rightarrow> sem \<Rightarrow> sem \<Rightarrow> bool" for needs where
  take: "t < length (tasks s) \<Longrightarrow> tasks s ! t = Getting k \<Longrightarrow> k < needs ! t \<Longrightarrow>
     permits s = Suc v \<Longrightarrow> queue s = [] \<Longrightarrow>
     sem_step needs s (s\<lparr>permits := v, tasks := (tasks s)[t := Getting (Suc k)]\<rparr>)"
| block: "t < length (tasks s) \<Longrightarrow> tasks s ! t = Getting k \<Longrightarrow> k < needs ! t \<Longrightarrow>
     permits s = 0 \<or> queue s \<noteq> [] \<Longrightarrow>
     sem_step needs s (s\<lparr>queue := queue s @ [t], tasks := (tasks s)[t := Waiting k]\<rparr>)"
| enter: "t < length (tasks s) \<Longrightarrow> tasks s ! t = Getting (needs ! t) \<Longrightarrow>
     sem_step needs s (s\<lparr>tasks := (tasks s)[t := Running]\<rparr>)"
| finish: "t < length (tasks s) \<Longrightarrow> tasks s ! t = Running \<Longrightarrow>
     sem_step needs s (release_many (needs ! t) (s\<lparr>tasks := (tasks s)[t := Finished]\<rparr>))"

inductive_cases sem_stepE: "sem_step needs s s'"

text \<open>A cancelled call gives back the permits it has taken; a waiting one leaves the queue.\<close>

definition call_over :: "nat \<Rightarrow> nat \<Rightarrow> sem \<Rightarrow> sem" where
  "call_over t k s = release_many k
     (s\<lparr>queue := remove1 t (queue s), tasks := (tasks s)[t := Finished]\<rparr>)"

inductive sem_cancel :: "nat list \<Rightarrow> sem \<Rightarrow> sem \<Rightarrow> bool" for needs where
  cancel_getting: "t < length (tasks s) \<Longrightarrow> tasks s ! t = Getting k \<Longrightarrow> sem_cancel needs s (call_over t k s)"
| cancel_waiting: "t < length (tasks s) \<Longrightarrow> tasks s ! t = Waiting k \<Longrightarrow> sem_cancel needs s (call_over t k s)"
| cancel_running: "t < length (tasks s) \<Longrightarrow> tasks s ! t = Running \<Longrightarrow>
     sem_cancel needs s (call_over t (needs ! t) s)"

definition sem_move :: "nat list \<Rightarrow> sem \<Rightarrow> sem \<Rightarrow> bool" where
  "sem_move needs s s' \<longleftrightarrow> sem_step needs s s' \<or> sem_cancel needs s s'"

section \<open>Conservation of permits\<close>

fun held :: "phase \<Rightarrow> nat \<Rightarrow> nat" where
  "held (Getting k) n = k"
| "held (Waiting k) n = k"
| "held Running n = n"
| "held Finished n = 0"

fun phase_ok :: "phase \<Rightarrow> nat \<Rightarrow> bool" where
  "phase_ok (Getting k) n \<longleftrightarrow> k \<le> n"
| "phase_ok (Waiting k) n \<longleftrightarrow> k < n"
| "phase_ok p n \<longleftrightarrow> True"

definition is_waiting :: "phase \<Rightarrow> bool" where
  "is_waiting p \<longleftrightarrow> (case p of Waiting _ \<Rightarrow> True | _ \<Rightarrow> False)"

lemma is_waiting_simps [simp]:
  "is_waiting (Waiting k)" "\<not> is_waiting (Getting k)" "\<not> is_waiting Running" "\<not> is_waiting Finished"
  by (simp_all add: is_waiting_def)

lemma is_waiting_wake: "is_waiting p \<Longrightarrow> \<exists>k. p = Waiting k \<and> wake p = Getting (Suc k)"
  by (cases p) simp_all

text \<open>A sum over the calls after one of them changed.\<close>

definition over_tasks :: "(phase \<Rightarrow> nat \<Rightarrow> nat) \<Rightarrow> nat list \<Rightarrow> phase list \<Rightarrow> nat" where
  "over_tasks f needs ps = (\<Sum>i<length ps. f (ps ! i) (needs ! i))"

lemma over_tasks_update:
  assumes "t < length ps"
  shows "over_tasks f needs (ps[t := p]) + f (ps ! t) (needs ! t) = over_tasks f needs ps + f p (needs ! t)"
proof -
  have split: "(\<Sum>i<length ps. f (qs ! i) (needs ! i)) =
      f (qs ! t) (needs ! t) + (\<Sum>i \<in> {..<length ps} - {t}. f (qs ! i) (needs ! i))" for qs
    using assms by (simp add: sum.remove)
  have "(\<Sum>i \<in> {..<length ps} - {t}. f (ps[t := p] ! i) (needs ! i)) =
      (\<Sum>i \<in> {..<length ps} - {t}. f (ps ! i) (needs ! i))"
    by (rule sum.cong) auto
  with split [of ps] split [of "ps[t := p]"] assms show ?thesis
    by (simp add: over_tasks_def)
qed

text \<open>The invariant, with \<open>owed\<close> permits that are being released.\<close>

definition sem_inv :: "nat \<Rightarrow> nat list \<Rightarrow> nat \<Rightarrow> sem \<Rightarrow> bool" where
  "sem_inv cap needs owed s \<longleftrightarrow> length (tasks s) = length needs \<and>
     permits s + owed + over_tasks held needs (tasks s) = cap \<and>
     distinct (queue s) \<and> set (queue s) = {t. t < length (tasks s) \<and> is_waiting (tasks s ! t)} \<and>
     (permits s = 0 \<or> queue s = []) \<and> (\<forall>t < length (tasks s). phase_ok (tasks s ! t) (needs ! t))"

lemma release_one_inv:
  assumes "sem_inv cap needs (Suc n) s"
  shows "sem_inv cap needs n (release_one s)"
proof (cases "queue s")
  case Nil
  with assms show ?thesis by (auto simp: sem_inv_def release_one_def)
next
  case (Cons t q)
  with assms have t: "t < length (tasks s)" "is_waiting (tasks s ! t)"
    by (auto simp: sem_inv_def)
  then obtain k where k: "tasks s ! t = Waiting k" "wake (tasks s ! t) = Getting (Suc k)"
    using is_waiting_wake by blast
  from assms t k have "Suc k \<le> needs ! t" by (fastforce simp: sem_inv_def)
  with assms Cons t k over_tasks_update [OF t(1), of held needs "Getting (Suc k)"]
  show ?thesis
    by (auto simp: sem_inv_def release_one_def nth_list_update)
qed

lemma release_many_inv: "sem_inv cap needs n s \<Longrightarrow> sem_inv cap needs 0 (release_many n s)"
  by (induction n s rule: release_many.induct) (auto intro: release_one_inv)

lemma sem_step_inv [inv_facts]:
  assumes "sem_step needs s s'" "sem_inv cap needs 0 s"
  shows "sem_inv cap needs 0 s'"
  using assms
proof cases
  case (take t k v)
  with assms(2) over_tasks_update [OF take(2), of held needs "Getting (Suc k)"]
  show ?thesis by (auto simp: sem_inv_def nth_list_update)
next
  case (block t k)
  moreover have "t \<notin> set (queue s)" using assms(2) block(3) by (auto simp: sem_inv_def)
  ultimately show ?thesis
    using assms(2) over_tasks_update [OF block(2), of held needs "Waiting k"]
    by (auto simp: sem_inv_def nth_list_update)
next
  case (enter t)
  with assms(2) over_tasks_update [OF enter(2), of held needs Running]
  show ?thesis by (auto simp: sem_inv_def nth_list_update)
next
  case (finish t)
  with assms(2) over_tasks_update [OF finish(2), of held needs Finished]
  have "sem_inv cap needs (needs ! t) (s\<lparr>tasks := (tasks s)[t := Finished]\<rparr>)"
    by (auto simp: sem_inv_def nth_list_update)
  then show ?thesis unfolding finish(1) by (rule release_many_inv)
qed

lemma call_over_start:
  assumes "sem_inv cap needs 0 s" "t < length (tasks s)" "held (tasks s ! t) (needs ! t) = k"
  shows "sem_inv cap needs k (s\<lparr>queue := remove1 t (queue s), tasks := (tasks s)[t := Finished]\<rparr>)"
  using assms over_tasks_update [OF assms(2), of held needs Finished]
  by (auto simp: sem_inv_def nth_list_update)

lemma sem_move_inv [inv_facts]:
  assumes "sem_move needs s s'" "sem_inv cap needs 0 s"
  shows "sem_inv cap needs 0 s'"
proof -
  from assms(1) consider "sem_step needs s s'" | "sem_cancel needs s s'" by (auto simp: sem_move_def)
  then show ?thesis
  proof cases
    case 2
    then show ?thesis
      by cases (auto simp: call_over_def intro!: release_many_inv call_over_start [OF assms(2)])
  qed (rule sem_step_inv [OF _ assms(2)])
qed

lemma sem_init_inv: "sem_inv cap needs 0 (sem_init cap needs)"
  by (auto simp: sem_inv_def sem_init_def over_tasks_def)

lemma sem_reachable_inv:
  assumes "(sem_move needs)\<^sup>*\<^sup>* (sem_init cap needs) s"
  shows "sem_inv cap needs 0 s"
  using assms by (induction rule: rtranclp_induct) (auto intro: sem_init_inv sem_move_inv)

section \<open>Every run ends\<close>

fun work :: "phase \<Rightarrow> nat \<Rightarrow> nat" where
  "work (Getting k) n = 2 * (n - k) + 2"
| "work (Waiting k) n = 2 * (n - k) + 1"
| "work Running n = 1"
| "work Finished n = 0"

definition total_work :: "nat list \<Rightarrow> sem \<Rightarrow> nat" where
  "total_work needs s = over_tasks work needs (tasks s)"

lemma release_one_work:
  assumes "sem_inv cap needs (Suc n) s"
  shows "total_work needs (release_one s) \<le> total_work needs s"
proof (cases "queue s")
  case (Cons t q)
  with assms have t: "t < length (tasks s)" "is_waiting (tasks s ! t)"
    by (auto simp: sem_inv_def)
  then obtain k where k: "tasks s ! t = Waiting k" "wake (tasks s ! t) = Getting (Suc k)"
    using is_waiting_wake by blast
  from assms t k have "k < needs ! t" by (fastforce simp: sem_inv_def)
  with Cons k over_tasks_update [OF t(1), of work needs "Getting (Suc k)"]
  show ?thesis by (simp add: release_one_def total_work_def)
qed (simp add: release_one_def total_work_def)

lemma release_many_work:
  "sem_inv cap needs n s \<Longrightarrow> total_work needs (release_many n s) \<le> total_work needs s"
proof (induction n s rule: release_many.induct)
  case (2 n s)
  from 2(1) [OF release_one_inv [OF 2(2)]] release_one_work [OF 2(2)] show ?case by simp
qed simp

lemma sem_step_work:
  assumes "sem_step needs s s'" "sem_inv cap needs 0 s"
  shows "total_work needs s' < total_work needs s"
  using assms(1)
proof cases
  case (take t k v)
  with over_tasks_update [OF take(2), of work needs "Getting (Suc k)"]
  show ?thesis by (simp add: total_work_def)
next
  case (block t k)
  with over_tasks_update [OF block(2), of work needs "Waiting k"]
  show ?thesis by (simp add: total_work_def)
next
  case (enter t)
  with over_tasks_update [OF enter(2), of work needs Running]
  show ?thesis by (simp add: total_work_def)
next
  case (finish t)
  with assms(2) over_tasks_update [OF finish(2), of held needs Finished]
  have "sem_inv cap needs (needs ! t) (s\<lparr>tasks := (tasks s)[t := Finished]\<rparr>)"
    by (auto simp: sem_inv_def nth_list_update)
  from release_many_work [OF this] finish(1,3) over_tasks_update [OF finish(2), of work needs Finished]
  show ?thesis by (simp add: total_work_def)
qed

lemma sem_move_work:
  assumes "sem_move needs s s'" "sem_inv cap needs 0 s"
  shows "total_work needs s' < total_work needs s"
proof -
  have over: "total_work needs (call_over t k s) < total_work needs s"
    if "t < length (tasks s)" "held (tasks s ! t) (needs ! t) = k" "tasks s ! t \<noteq> Finished" for t k
  proof -
    have "0 < work (tasks s ! t) (needs ! t)" using that(3) by (cases "tasks s ! t") simp_all
    with over_tasks_update [OF that(1), of work needs Finished] release_many_work [OF call_over_start [OF assms(2) that(1,2)]]
    show ?thesis by (simp add: call_over_def total_work_def)
  qed
  from assms(1) consider "sem_step needs s s'" | "sem_cancel needs s s'" by (auto simp: sem_move_def)
  then show ?thesis
  proof cases
    case 2
    then show ?thesis by cases (auto intro!: over)
  qed (rule sem_step_work [OF _ assms(2)])
qed

section \<open>Who can go on\<close>

definition all_finished :: "sem \<Rightarrow> bool" where
  "all_finished s \<longleftrightarrow> list_all (\<lambda>p. p = Finished) (tasks s)"

lemma stuck_waiting:
  assumes inv: "sem_inv cap needs 0 s" and stuck: "\<And>s'. \<not> sem_step needs s s'"
    and t: "t < length (tasks s)"
  shows "tasks s ! t = Finished \<or> is_waiting (tasks s ! t)"
proof (cases "tasks s ! t")
  case (Getting k)
  show ?thesis
  proof (cases "k < needs ! t")
    case True
    from block [where needs = needs, OF t Getting True] stuck have "\<not> (permits s = 0 \<or> queue s \<noteq> [])" by blast
    with sem_step.take [where needs = needs, OF t Getting True, of "permits s - 1"] stuck show ?thesis by simp
  next
    case False
    with inv t Getting have "k = needs ! t" by (fastforce simp: sem_inv_def)
    with enter [where needs = needs, OF t] Getting stuck show ?thesis by blast
  qed
next
  case Running
  from finish [where needs = needs, OF t this] stuck show ?thesis by blast
qed simp_all

text \<open>With one permit per call a waiting call waits for one that can go on.\<close>

lemma unit_stuck_finished:
  assumes inv: "sem_inv cap needs 0 s" and stuck: "\<And>s'. \<not> sem_step needs s s'"
    and unit: "list_all (\<lambda>n. n = 1) needs" and cap: "0 < cap"
  shows "all_finished s"
proof -
  note rest = stuck_waiting [OF inv stuck]
  have none: "held (tasks s ! t) (needs ! t) = 0" if "t < length (tasks s)" for t
  proof -
    have "needs ! t = 1" using unit that inv by (simp add: list_all_length sem_inv_def)
    then have "phase_ok (tasks s ! t) 1" using inv that by (metis sem_inv_def)
    with rest [OF that] show ?thesis by (cases "tasks s ! t") auto
  qed
  then have "over_tasks held needs (tasks s) = 0" by (simp add: over_tasks_def)
  with inv cap have "queue s = []" by (auto simp: sem_inv_def)
  with inv have "\<not> is_waiting (tasks s ! t)" if "t < length (tasks s)" for t
    using that by (auto simp: sem_inv_def)
  with rest show ?thesis by (auto simp: all_finished_def list_all_length)
qed

lemma unit_completes:
  assumes "sem_inv cap needs 0 s" "list_all (\<lambda>n. n = 1) needs" "0 < cap"
  shows "\<exists>s'. (sem_step needs)\<^sup>*\<^sup>* s s' \<and> all_finished s'"
  using assms(1)
proof (induction "total_work needs s" arbitrary: s rule: less_induct)
  case less
  show ?case
  proof (cases "\<exists>s'. sem_step needs s s'")
    case True
    then obtain s1 where s1: "sem_step needs s s1" by blast
    from less(1) [OF sem_step_work [OF s1 less(2)] sem_step_inv [OF s1 less(2)]]
    show ?thesis using s1 by (meson converse_rtranclp_into_rtranclp)
  next
    case False
    with unit_stuck_finished [OF less(2) _ assms(2,3)] show ?thesis by blast
  qed
qed

section \<open>The properties\<close>

definition running_weight :: "nat list \<Rightarrow> sem \<Rightarrow> nat" where
  "running_weight needs s = over_tasks (\<lambda>p n. if p = Running then n else 0) needs (tasks s)"

text \<open>
  The semaphore never overcommits. In every state any interleaving of calls reaches, for
  any number of calls of any weights, cancelled at any point, the weights of the running
  commands sum to at most the cap, and the permits at hand and the permits the calls hold
  together are exactly the cap.
\<close>

theorem semaphore_never_overcommits:
  assumes "(sem_move needs)\<^sup>*\<^sup>* (sem_init cap needs) s"
  shows "running_weight needs s \<le> cap \<and> permits s + over_tasks held needs (tasks s) = cap"
proof -
  have "running_weight needs s \<le> over_tasks held needs (tasks s)"
    unfolding running_weight_def over_tasks_def by (rule sum_mono) simp
  with sem_reachable_inv [OF assms] show ?thesis by (simp add: sem_inv_def)
qed

theorem semaphore_never_overcommits_witness:
  "running_weight [2] \<lparr>permits = 1, queue = [], tasks = [Getting 1]\<rparr> \<le> 2 \<and>
   permits \<lparr>permits = 1, queue = [], tasks = [Getting 1]\<rparr> + over_tasks held [2] [Getting 1] = 2"
proof -
  have "sem_step [2] (sem_init 2 [2]) \<lparr>permits = 1, queue = [], tasks = [Getting 1]\<rparr>"
    using sem_step.take [of 0 "sem_init 2 [2]" 0 "[2]" 1] by (simp add: sem_init_def)
  then have "(sem_move [2])\<^sup>*\<^sup>* (sem_init 2 [2]) \<lparr>permits = 1, queue = [], tasks = [Getting 1]\<rparr>"
    by (auto simp: sem_move_def)
  from semaphore_never_overcommits [OF this] show ?thesis by simp
qed

text \<open>
  C19: with one permit per call, which is what the servers ask for, every run of any number of
  calls completes: from each reachable state a state with all calls over is reachable without
  cancelling, no state before that is stuck, and no sequence of moves is infinite.
\<close>

theorem unit_calls_all_complete:
  assumes "(sem_move needs)\<^sup>*\<^sup>* (sem_init cap needs) s" "list_all (\<lambda>n. n = 1) needs" "0 < cap"
  shows "(\<exists>s'. (sem_step needs)\<^sup>*\<^sup>* s s' \<and> all_finished s') \<and>
    (all_finished s \<or> (\<exists>s'. sem_step needs s s')) \<and>
    wfp (\<lambda>b a. (sem_move needs)\<^sup>*\<^sup>* s a \<and> sem_move needs a b)"
proof (intro conjI)
  note inv = sem_reachable_inv [OF assms(1)]
  show "\<exists>s'. (sem_step needs)\<^sup>*\<^sup>* s s' \<and> all_finished s'" using unit_completes [OF inv assms(2,3)] .
  show "all_finished s \<or> (\<exists>s'. sem_step needs s s')" using unit_stuck_finished [OF inv _ assms(2,3)] by blast
  show "wfp (\<lambda>b a. (sem_move needs)\<^sup>*\<^sup>* s a \<and> sem_move needs a b)"
  proof (rule wfp_subset [OF wfp_if_convertible_to_nat [of _ "total_work needs"]])
    show "(\<lambda>b a. (sem_move needs)\<^sup>*\<^sup>* s a \<and> sem_move needs a b) \<le> (\<lambda>b a. total_work needs b < total_work needs a)"
      using sem_move_work sem_reachable_inv assms(1) by (blast intro: rtranclp_trans)
  qed simp
qed

theorem unit_calls_all_complete_witness:
  "(\<exists>s'. (sem_step [1, 1])\<^sup>*\<^sup>* (sem_init 1 [1, 1]) s' \<and> all_finished s') \<and>
    (all_finished (sem_init 1 [1, 1]) \<or> (\<exists>s'. sem_step [1, 1] (sem_init 1 [1, 1]) s')) \<and>
    wfp (\<lambda>b a. (sem_move [1, 1])\<^sup>*\<^sup>* (sem_init 1 [1, 1]) a \<and> sem_move [1, 1] a b)"
  by (rule unit_calls_all_complete [of _ 1]) simp_all

text \<open>
  C20: permits taken one by one deadlock. Three calls of weight two under a cap of two (the
  runner without a coordinator, as the package is used as a library): the first runs and
  releases its two permits in one go, each of the two waiting calls is handed one, and both
  wait for the second forever - a reachable state with two unfinished calls and no step.
\<close>

theorem weighted_calls_deadlock:
  "\<exists>s. (sem_step [2, 2, 2])\<^sup>*\<^sup>* (sem_init 2 [2, 2, 2]) s \<and>
     tasks s = [Finished, Waiting 1, Waiting 1] \<and> permits s = 0 \<and> (\<nexists>s'. sem_step [2, 2, 2] s s')"
proof -
  let ?n = "[2, 2, 2] :: nat list"
  let ?s = "\<lambda>v q ps. \<lparr>permits = v, queue = q, tasks = ps\<rparr>"
  let ?last = "?s 0 [] [Finished, Getting 1, Getting 1]"
  let ?dead = "?s 0 [1, 2] [Finished, Waiting 1, Waiting 1]"
  have "sem_init 2 ?n = ?s 2 [] [Getting 0, Getting 0, Getting 0]"
    by (simp add: sem_init_def)
  also have "(sem_step ?n)\<^sup>*\<^sup>* \<dots> (?s 1 [] [Getting 1, Getting 0, Getting 0])"
    using sem_step.take [of 0 "?s 2 [] [Getting 0, Getting 0, Getting 0]" 0 ?n 1] by (auto simp: numeral_2_eq_2)
  finally have "(sem_step ?n)\<^sup>*\<^sup>* (sem_init 2 ?n) (?s 1 [] [Getting 1, Getting 0, Getting 0])" .
  then have "(sem_step ?n)\<^sup>*\<^sup>* (sem_init 2 ?n) (?s 0 [] [Getting 2, Getting 0, Getting 0])"
    using sem_step.take [of 0 "?s 1 [] [Getting 1, Getting 0, Getting 0]" 1 ?n 0]
    by (auto simp: numeral_2_eq_2 intro: rtranclp.rtrancl_into_rtrancl)
  then have "(sem_step ?n)\<^sup>*\<^sup>* (sem_init 2 ?n) (?s 0 [] [Running, Getting 0, Getting 0])"
    using sem_step.enter [of 0 "?s 0 [] [Getting 2, Getting 0, Getting 0]" ?n]
    by (auto intro: rtranclp.rtrancl_into_rtrancl)
  then have "(sem_step ?n)\<^sup>*\<^sup>* (sem_init 2 ?n) (?s 0 [1] [Running, Waiting 0, Getting 0])"
    using sem_step.block [of 1 "?s 0 [] [Running, Getting 0, Getting 0]" 0 ?n]
    by (auto intro: rtranclp.rtrancl_into_rtrancl)
  then have "(sem_step ?n)\<^sup>*\<^sup>* (sem_init 2 ?n) (?s 0 [1, 2] [Running, Waiting 0, Waiting 0])"
    using sem_step.block [of 2 "?s 0 [1] [Running, Waiting 0, Getting 0]" 0 ?n]
    by (auto intro: rtranclp.rtrancl_into_rtrancl)
  then have "(sem_step ?n)\<^sup>*\<^sup>* (sem_init 2 ?n) ?last"
    using sem_step.finish [of 0 "?s 0 [1, 2] [Running, Waiting 0, Waiting 0]" ?n]
    by (auto simp: release_one_def numeral_2_eq_2 intro: rtranclp.rtrancl_into_rtrancl)
  then have "(sem_step ?n)\<^sup>*\<^sup>* (sem_init 2 ?n) (?s 0 [1] [Finished, Waiting 1, Getting 1])"
    using sem_step.block [of 1 ?last 1 ?n] by (auto intro: rtranclp.rtrancl_into_rtrancl)
  then have "(sem_step ?n)\<^sup>*\<^sup>* (sem_init 2 ?n) ?dead"
    using sem_step.block [of 2 "?s 0 [1] [Finished, Waiting 1, Getting 1]" 1 ?n]
    by (auto intro: rtranclp.rtrancl_into_rtrancl)
  moreover have "\<not> sem_step ?n ?dead s'" for s'
    by (auto elim!: sem_stepE simp: less_Suc_eq nth_Cons')
  ultimately show ?thesis by (intro exI [of _ ?dead]) auto
qed

end
