(* ===== verification/Core_Pool.thy ===== *)
theory Core_Pool
  imports Json
begin

text \<open>
  The shared core pool of \<open>hares/coordination.py\<close>: a JSON file in the coordination directory,
  read, changed and replaced under an exclusive lock, so each operation is one step (\<open>Pool_Lock\<close>
  shows it of the system calls). The file refines a list of claims, process by process.
\<close>

definition CORE_POOL_VERSION :: int where
  "CORE_POOL_VERSION = 1"

definition fresh_pool :: "(string \<times> json) list" where
  "fresh_pool = [(''version'', JInt CORE_POOL_VERSION), (''claimed'', JObj [])]"

text \<open>\<open>True == 1\<close> in Python.\<close>

definition py_eq_int :: "json \<Rightarrow> int \<Rightarrow> bool" where
  "py_eq_int j n = (case j of JInt m \<Rightarrow> m = n | JBool b \<Rightarrow> n = (if b then 1 else 0) | _ \<Rightarrow> False)"

definition read_core_pool :: "file_content option \<Rightarrow> (string \<times> json) list result" where
  "read_core_pool content = (case content of
      None \<Rightarrow> ok fresh_pool
    | Some BadUtf8 \<Rightarrow> raise_err (ValueError ''UnicodeDecodeError'')
    | Some Blank \<Rightarrow> ok fresh_pool
    | Some Corrupt \<Rightarrow> ok fresh_pool
    | Some (Doc j) \<Rightarrow> (case j of
          JObj data \<Rightarrow> ok (if py_eq_int (jget data ''version'') CORE_POOL_VERSION then data else fresh_pool)
        | _ \<Rightarrow> raise_err (AttributeError ''get'')))"

text \<open>The operating system: which process numbers are alive.\<close>

definition evict_stale_entries :: "(int \<Rightarrow> bool) \<Rightarrow> (string \<times> json) list \<Rightarrow> (string \<times> json) list result" where
  "evict_stale_entries alive st = (case map_of st ''claimed'' of
      None \<Rightarrow> ok st
    | Some (JObj cl) \<Rightarrow> ok (AList.update ''claimed''
        (JObj (filter (\<lambda>(k, _). case py_int k of None \<Rightarrow> False | Some pid \<Rightarrow> alive pid) cl)) st)
    | Some _ \<Rightarrow> raise_err (AttributeError ''keys''))"

fun hashable :: "json \<Rightarrow> bool" where
  "hashable (JList _) = False"
| "hashable (JObj _) = False"
| "hashable _ = True"

definition claimed_by_others :: "(string \<times> json) list \<Rightarrow> json list result" where
  "claimed_by_others st = (case map_of st ''claimed'' of
      None \<Rightarrow> ok []
    | Some (JObj cl) \<Rightarrow>
        rbind (collect (\<lambda>(_, cores). rbind (json_iter cores) (\<lambda>cs.
          if list_all hashable cs then ok cs else raise_err (TypeError ''unhashable''))) cl) (\<lambda>css.
        ok (concat css))
    | Some _ \<Rightarrow> raise_err (AttributeError ''items''))"

definition first_cores :: "int \<Rightarrow> nat list \<Rightarrow> nat list \<Rightarrow> nat list" where
  "first_cores max_concurrent all_cores free =
     (let m = min max_concurrent (int (length free));
          want = (if m = 0 then max_concurrent else m)
      in if free \<noteq> [] then take (nat want) free else take (nat want) all_cores)"

text \<open>\<open>claim_cores\<close> with a coordination directory.\<close>

definition claim_shared_cores ::
  "(int \<Rightarrow> bool) \<Rightarrow> nat list \<Rightarrow> int \<Rightarrow> int \<Rightarrow> file_content option \<Rightarrow> nat list result \<times> file_content option" where
  "claim_shared_cores alive all_cores max_concurrent pid file =
     (case (rbind (read_core_pool file) (\<lambda>st0.
            rbind (evict_stale_entries alive st0) (\<lambda>st.
            rbind (claimed_by_others st) (\<lambda>taken.
            let free = filter (\<lambda>c. \<not> list_ex (\<lambda>j. py_eq_int j (int c)) taken) all_cores;
                chosen = first_cores max_concurrent all_cores free;
                cl = (case map_of st ''claimed'' of Some (JObj cl) \<Rightarrow> cl | _ \<Rightarrow> []);
                st1 = AList.update ''claimed'' (JObj (AList.update (int_str pid) (JList (map (\<lambda>c. JInt (int c)) chosen)) cl)) st;
                st2 = AList.update ''total_cores'' (JInt (int (length all_cores))) st1;
                st3 = AList.update ''version'' (JInt CORE_POOL_VERSION) st2
            in ok (chosen, st3))))) of
        Inl e \<Rightarrow> (Inl e, file)
      | Inr (chosen, st) \<Rightarrow> (ok chosen, Some (Doc (JObj st))))"

definition claim_host_cores ::
  "bool \<Rightarrow> (int \<Rightarrow> bool) \<Rightarrow> nat list \<Rightarrow> int \<Rightarrow> int \<Rightarrow> file_content option \<Rightarrow> nat list result \<times> file_content option" where
  "claim_host_cores shared alive all_cores max_concurrent pid file =
     (if all_cores = [] then (ok [], file)
      else if \<not> shared then (ok (take (nat max_concurrent) all_cores), file)
      else claim_shared_cores alive all_cores max_concurrent pid file)"

text \<open>\<open>release_cores\<close>: the entry is dropped when the file can be read; a failure is logged and
  leaves the claim recorded in the process too.\<close>

definition release_host_cores ::
  "bool \<Rightarrow> int \<Rightarrow> nat list \<Rightarrow> file_content option \<Rightarrow> nat list \<times> file_content option" where
  "release_host_cores shared pid claimed file =
     (if \<not> shared \<or> claimed = [] then (claimed, file)
      else (case read_core_pool file of
         Inl _ \<Rightarrow> (claimed, file)
       | Inr st \<Rightarrow> (case map_of st ''claimed'' of
             None \<Rightarrow> ([], Some (Doc (JObj st)))
           | Some (JObj cl) \<Rightarrow> ([], Some (Doc (JObj (AList.update ''claimed''
               (JObj (filter (\<lambda>(k, _). k \<noteq> int_str pid) cl)) st))))
           | Some _ \<Rightarrow> (claimed, file))))"

section \<open>The claims a file stands for\<close>

type_synonym claims = "(int \<times> nat list) list"

definition claims_json :: "claims \<Rightarrow> json" where
  "claims_json cl = JObj (map (\<lambda>(p, cs). (int_str p, JList (map (\<lambda>c. JInt (int c)) cs))) cl)"

definition pool_doc :: "nat \<Rightarrow> claims \<Rightarrow> file_content option" where
  "pool_doc n cl = Some (Doc (JObj [(''version'', JInt CORE_POOL_VERSION),
     (''claimed'', claims_json cl), (''total_cores'', JInt (int n))]))"

definition live_claims :: "(int \<Rightarrow> bool) \<Rightarrow> claims \<Rightarrow> claims" where
  "live_claims alive = filter (\<lambda>(p, _). alive p)"

definition cores_of :: "claims \<Rightarrow> nat list" where
  "cores_of cl = concat (map snd cl)"

lemma live_claims_id: "list_all (\<lambda>(p, _). alive p) cl \<Longrightarrow> live_claims alive cl = cl"
  by (induction cl) (auto simp: live_claims_def)

text \<open>The abstract operations.\<close>

definition abs_claim :: "(int \<Rightarrow> bool) \<Rightarrow> nat list \<Rightarrow> int \<Rightarrow> int \<Rightarrow> claims \<Rightarrow> nat list \<times> claims" where
  "abs_claim alive all_cores max_concurrent pid cl =
     (let live = live_claims alive cl;
          free = filter (\<lambda>c. c \<notin> set (cores_of live)) all_cores;
          chosen = first_cores max_concurrent all_cores free
      in (chosen, AList.update pid chosen live))"

definition abs_release :: "int \<Rightarrow> claims \<Rightarrow> claims" where
  "abs_release pid = filter (\<lambda>(p, _). p \<noteq> pid)"

lemma claims_filter:
  "filter (\<lambda>(k, _). case py_int k of None \<Rightarrow> False | Some p \<Rightarrow> P p)
     (map (\<lambda>(p, cs). (int_str p, f cs)) cl) = map (\<lambda>(p, cs). (int_str p, f cs)) (filter (\<lambda>(p, _). P p) cl)"
  by (induction cl) (auto simp: py_int_int_str)

lemma claims_filter_key:
  "filter (\<lambda>(k, _). k \<noteq> int_str pid) (map (\<lambda>(p, cs). (int_str p, f cs)) cl) =
     map (\<lambda>(p, cs). (int_str p, f cs)) (filter (\<lambda>(p, _). p \<noteq> pid) cl)"
  by (induction cl) auto

lemma claims_update:
  "AList.update (int_str pid) (f v) (map (\<lambda>(p, cs). (int_str p, f cs)) cl) =
     map (\<lambda>(p, cs). (int_str p, f cs)) (AList.update pid v cl)"
  by (induction cl) auto

lemma collect_claims:
  "collect (\<lambda>(_, cores). rbind (json_iter cores) (\<lambda>cs.
     if list_all hashable cs then ok cs else raise_err (TypeError ''unhashable'')))
     (map (\<lambda>(p, cs). (int_str p, JList (map (\<lambda>c. JInt (int c)) cs))) cl)
   = ok (map (\<lambda>(_, cs). map (\<lambda>c. JInt (int c)) cs) cl)"
  by (induction cl) (auto simp: list_all_iff)

lemma taken_iff:
  "list_ex (\<lambda>j. py_eq_int j (int c)) (concat (map (\<lambda>(_, cs). map (\<lambda>c. JInt (int c)) cs) cl)) \<longleftrightarrow>
     c \<in> set (cores_of cl)"
  unfolding cores_of_def
proof (induction cl)
  case (Cons x cl)
  have "list_ex (\<lambda>j. py_eq_int j (int c)) (map (\<lambda>c. JInt (int c)) cs) \<longleftrightarrow> c \<in> set cs" for cs
    by (auto simp: list_ex_iff py_eq_int_def)
  with Cons show ?case by (cases x) simp
qed simp

lemma read_pool_doc:
  "read_core_pool (pool_doc n cl) = ok [(''version'', JInt CORE_POOL_VERSION),
     (''claimed'', claims_json cl), (''total_cores'', JInt (int n))]"
  by (simp add: read_core_pool_def pool_doc_def py_eq_int_def)


text \<open>A file the claims of which are none: absent, blank, not JSON, or of another version.\<close>

definition blank_pool :: "file_content option \<Rightarrow> bool" where
  "blank_pool file \<longleftrightarrow> read_core_pool file = ok fresh_pool"

lemma claim_from_doc:
  assumes "read_core_pool file = ok ((''version'', JInt CORE_POOL_VERSION) # (''claimed'', claims_json cl) # rest)"
    and rest: "rest = [] \<or> (\<exists>n. rest = [(''total_cores'', JInt n)])"
  shows "claim_shared_cores alive all_cores maxc pid file =
    (let (chosen, cl') = abs_claim alive all_cores maxc pid cl in (ok chosen, pool_doc (length all_cores) cl'))"
proof -
  let ?live = "live_claims alive cl"
  have e: "evict_stale_entries alive ((''version'', JInt CORE_POOL_VERSION) # (''claimed'', claims_json cl) # rest) =
      ok ((''version'', JInt CORE_POOL_VERSION) # (''claimed'', claims_json ?live) # rest)"
    by (simp add: evict_stale_entries_def claims_json_def claims_filter live_claims_def)
  have t: "claimed_by_others ((''version'', JInt CORE_POOL_VERSION) # (''claimed'', claims_json ?live) # rest) =
      ok (concat (map (\<lambda>(_, cs). map (\<lambda>c. JInt (int c)) cs) ?live))"
    by (simp add: claimed_by_others_def claims_json_def collect_claims)
  have m: "map_of ((''version'', JInt CORE_POOL_VERSION) # (''claimed'', claims_json ?live) # rest) ''claimed''
      = Some (JObj (map (\<lambda>(p, cs). (int_str p, JList (map (\<lambda>c. JInt (int c)) cs))) ?live))"
    by (simp add: claims_json_def)
  show ?thesis
    unfolding claim_shared_cores_def assms(1) rbind_simps e t m taken_iff Let_def option.case json.case
    using rest by (auto simp: abs_claim_def Let_def pool_doc_def claims_json_def claims_update
        claims_update [where f = "\<lambda>cs. JList (map (\<lambda>c. JInt (int c)) cs)"])
qed

lemma claim_refines:
  "claim_shared_cores alive all_cores maxc pid (pool_doc n cl) =
    (let (chosen, cl') = abs_claim alive all_cores maxc pid cl in (ok chosen, pool_doc (length all_cores) cl'))"
  by (rule claim_from_doc [OF read_pool_doc]) blast

lemma claim_refines_blank:
  "blank_pool file \<Longrightarrow> claim_shared_cores alive all_cores maxc pid file =
    (let (chosen, cl') = abs_claim alive all_cores maxc pid [] in (ok chosen, pool_doc (length all_cores) cl'))"
  by (rule claim_from_doc [of _ _ "[]"]) (simp_all add: blank_pool_def fresh_pool_def claims_json_def)

lemma release_refines:
  "cores \<noteq> [] \<Longrightarrow> release_host_cores True pid cores (pool_doc n cl) = ([], pool_doc n (abs_release pid cl))"
  unfolding release_host_cores_def read_pool_doc
  by (simp add: pool_doc_def claims_json_def claims_filter_key abs_release_def)

text \<open>No core in two live processes' claims.\<close>

definition disjoint_claims :: "(int \<Rightarrow> bool) \<Rightarrow> claims \<Rightarrow> bool" where
  "disjoint_claims alive cl \<longleftrightarrow> distinct (map fst cl) \<and> distinct (cores_of (live_claims alive cl))"

lemma first_cores_free:
  assumes "free \<noteq> []" "1 \<le> maxc"
  shows "first_cores maxc all_cores free = take (nat maxc) free"
proof -
  have "min maxc (int (length free)) \<noteq> 0" using assms by (auto simp: min_def)
  then show ?thesis
    using assms by (cases "maxc \<le> int (length free)") (simp_all add: first_cores_def min_def)
qed

lemma update_disjoint:
  assumes "distinct (map fst cl)" "distinct (cores_of cl)" "distinct cs" "set cs \<inter> set (cores_of cl) = {}"
  shows "distinct (cores_of (AList.update p cs cl)) \<and>
    set (cores_of (AList.update p cs cl)) \<subseteq> set cs \<union> set (cores_of cl)"
  using assms
proof (induction cl)
  case Nil
  then show ?case by (simp add: cores_of_def)
next
  case (Cons x cl)
  obtain a b where x: "x = (a, b)" by (cases x)
  have cs: "cores_of ((a, b) # ys) = b @ cores_of ys" for a b and ys :: claims by (simp add: cores_of_def)
  show ?case
  proof (cases "a = p")
    case True
    with Cons x show ?thesis by (auto simp: cs)
  next
    case False
    have b: "distinct b" "set b \<inter> set (cores_of cl) = {}" "set b \<inter> set cs = {}"
      using Cons(3,5) x by (auto simp: cs)
    have "distinct (cores_of (AList.update p cs cl)) \<and> set (cores_of (AList.update p cs cl)) \<subseteq> set cs \<union> set (cores_of cl)"
      using Cons x by (intro Cons(1)) (auto simp: cs)
    with b False x show ?thesis by (auto simp: cs)
  qed
qed



text \<open>
  What the pool file holds otherwise. Absent, blank, unparsable and wrong-version files
  count as an empty pool and the claim repairs them; a document that is not an object, or
  whose claims are not one, raises out of \<open>claim_cores\<close>, which every start of a server runs, and
  the file is left as it is.
\<close>

theorem pool_file_recovery:
  "(case read_core_pool file of
      Inl e \<Rightarrow> claim_shared_cores alive all_cores maxc pid file = (Inl e, file)
    | Inr st \<Rightarrow> if st = fresh_pool
        then claim_shared_cores alive all_cores maxc pid file =
          (ok (first_cores maxc all_cores all_cores),
           pool_doc (length all_cores) [(pid, first_cores maxc all_cores all_cores)])
        else True) \<and>
   read_core_pool None = ok fresh_pool \<and> read_core_pool (Some Blank) = ok fresh_pool \<and>
   read_core_pool (Some Corrupt) = ok fresh_pool \<and>
   read_core_pool (Some (Doc (JObj [(''version'', JInt 2)]))) = ok fresh_pool \<and>
   read_core_pool (Some (Doc (JList []))) = raise_err (AttributeError ''get'')"
proof (intro conjI)
  show "case read_core_pool file of
      Inl e \<Rightarrow> claim_shared_cores alive all_cores maxc pid file = (Inl e, file)
    | Inr st \<Rightarrow> if st = fresh_pool
        then claim_shared_cores alive all_cores maxc pid file =
          (ok (first_cores maxc all_cores all_cores),
           pool_doc (length all_cores) [(pid, first_cores maxc all_cores all_cores)])
        else True"
    using claim_refines_blank [of "file"]
    by (cases "read_core_pool file")
      (simp_all add: claim_shared_cores_def blank_pool_def abs_claim_def live_claims_def cores_of_def Let_def)
qed (simp_all add: read_core_pool_def py_eq_int_def CORE_POOL_VERSION_def)

end
