(* ===== verification/Coordination.thy ===== *)
theory Coordination
  imports Runner Slots Semaphore Core_Pool
begin

text \<open>
  \<open>CrossProcessCoordinator\<close> of \<open>hares/coordination.py\<close> as the runner and the servers use it:
  its construction, how many slots a call takes in either mode, and the life of a slot around
  \<open>Runner.execute\<close>.
\<close>

record coordinator =
  co_shared :: bool
  co_max_concurrent :: int
  co_weight_cap :: int

definition CrossProcessCoordinator :: "bool \<Rightarrow> int \<Rightarrow> int \<Rightarrow> coordinator result" where
  "CrossProcessCoordinator shared n weight_cap =
     (if n < 1 then raise_err (ValueError ''max_concurrent must be >= 1'')
      else ok \<lparr>co_shared = shared, co_max_concurrent = n, co_weight_cap = weight_cap\<rparr>)"

text \<open>The servers pass a directory and the cap, and leave the weight cap at its default.\<close>

definition server_coordinator :: "string option \<Rightarrow> int \<Rightarrow> coordinator result" where
  "server_coordinator coordination_dir n = CrossProcessCoordinator (coordination_dir \<noteq> None) n 1"

text \<open>Slots (or permits) of one call, on acquiring and on releasing.\<close>

definition slots_of_call :: "coordinator \<Rightarrow> runner \<Rightarrow> request \<Rightarrow> nat" where
  "slots_of_call co r rq = nat (slot_weight (co_weight_cap co) (call_weight r rq))"

text \<open>What a started call occupies: its slots, and the cores and workers it is budgeted.\<close>

definition call_budget :: "runner \<Rightarrow> request \<Rightarrow> int" where
  "call_budget r rq = budget_for (call_weight r rq) (max_concurrent r)"

lemma slots_of_call_bounds: "1 \<le> slots_of_call co r rq \<and> int (slots_of_call co r rq) \<le> max 1 (co_weight_cap co)"
  by (auto simp: slots_of_call_def slot_weight_def)

text \<open>
  Under every server a weight costs one slot. The coordinator the servers build caps the
  weight at its default of one, so any call takes one slot in either mode, while the same
  weight decides how many cores it is pinned to and how many workers it may start. With a cap
  of two, two calls of weight two hold the two slots together, budgeted for two workers
  and two cores each, and only a third has to wait.
\<close>

theorem server_weight_costs_one_slot:
  "(case server_coordinator d n of
      Inl e \<Rightarrow> n < 1
    | Inr co \<Rightarrow> 1 \<le> n \<and> co_shared co = (d \<noteq> None) \<and> slots_of_call co r rq = 1) \<and>
   (let rq2 = demo_request\<lparr>rq_weight := 2\<rparr>;
        (a, t1) = flock_round (7, 0) 1 (init_slots 2 []);
        (b, t2) = flock_round (8, 0) 1 t1;
        (c, t3) = flock_round (9, 0) 1 t2 in
    a = ok (Some [0]) \<and> b = ok (Some [1]) \<and> c = ok None \<and>
    call_weight demo_runner rq2 = 2 \<and> call_budget demo_runner rq2 = 2)"
proof
  show "case server_coordinator d n of
      Inl e \<Rightarrow> n < 1
    | Inr co \<Rightarrow> 1 \<le> n \<and> co_shared co = (d \<noteq> None) \<and> slots_of_call co r rq = 1"
    using slots_of_call_bounds [of "\<lparr>co_shared = d \<noteq> None, co_max_concurrent = n, co_weight_cap = 1\<rparr>" r rq]
    by (simp add: server_coordinator_def CrossProcessCoordinator_def)
qed code_simp

text \<open>
  A burst of calls is admitted exactly when it fits. On intact slot files, calls that start
  one after another before any ends all get their slots if and only if their slots together
  are free, and when they have all ended the table is as it was before the first.
\<close>

theorem burst_admitted_iff_fits:
  assumes "sound_files tb"
  shows "case acquire_all flock_try (map (\<lambda>(who, rq). (who, slots_of_call co r rq)) reqs) tb of
      None \<Rightarrow> free_count tb < sum_list (map (\<lambda>(who, rq). slots_of_call co r rq) reqs)
    | Some (toks, tb') \<Rightarrow> free_count tb = free_count tb' + sum_list (map (\<lambda>(who, rq). slots_of_call co r rq) reqs) \<and>
        sound_files tb' \<and> foldr (\<lambda>(who, tok). release_slots who tok) toks tb' = tb"
proof -
  have m: "snd \<circ> (\<lambda>(who, rq). (who, slots_of_call co r rq)) = (\<lambda>(who, rq). slots_of_call co r rq)"
    by auto
  show ?thesis
    using flock.burst_counts [OF assms, of "map (\<lambda>(who, rq). (who, slots_of_call co r rq)) reqs"]
      flock.burst_undone [OF assms, of "map (\<lambda>(who, rq). (who, slots_of_call co r rq)) reqs"]
    by (auto simp: m split: option.splits prod.splits)
qed

theorem burst_admitted_iff_fits_witness:
  "let co = \<lparr>co_shared = True, co_max_concurrent = 2, co_weight_cap = 1\<rparr>;
       reqs = [((7, 0), demo_request), ((8, 0), demo_request)] in
   case acquire_all flock_try (map (\<lambda>(who, rq). (who, slots_of_call co demo_runner rq)) reqs) [Free, Held (9, 0), Free] of
      None \<Rightarrow> free_count [Free, Held (9, 0), Free] < sum_list (map (\<lambda>(who, rq). slots_of_call co demo_runner rq) reqs)
    | Some (toks, tb') \<Rightarrow> free_count [Free, Held (9, 0), Free] = free_count tb' +
          sum_list (map (\<lambda>(who, rq). slots_of_call co demo_runner rq) reqs) \<and>
        sound_files tb' \<and> foldr (\<lambda>(who, tok). release_slots who tok) toks tb' = [Free, Held (9, 0), Free]"
  unfolding Let_def by (rule burst_admitted_iff_fits) code_simp

end
