(* ===== verification/Fnmatch.thy ===== *)
theory Fnmatch
  imports Prelude
begin

text \<open>
  \<open>fnmatch.fnmatch\<close> of the Python library on a POSIX host (no case folding), used by the
  command policy and by \<open>search_files\<close>: a pattern is compiled to tokens and matched against
  the whole string. Lemmas: the meaning of a pattern without metacharacters, and of one
  wrapped in stars.
\<close>

datatype ptok = Star | AnyChar | Lit char | CharSet bool "(char \<times> char) list"

fun set_items :: "string \<Rightarrow> (char \<times> char) list" where
  "set_items [] = []"
| "set_items [x] = [(x, x)]"
| "set_items [x, y] = [(x, x), (y, y)]"
| "set_items (x # y # z # r) =
     (if y = CHR ''-'' then (if x \<le> z then [(x, z)] else []) @ set_items r
      else (x, x) # set_items (y # z # r))"

text \<open>What follows a \<open>[\<close>: negation, body and rest, when a closing bracket exists. A bracket
  right after the opening (or after \<open>!\<close>) is a member of the set.\<close>

definition split_set :: "string \<Rightarrow> (bool \<times> string \<times> string) option" where
  "split_set s =
     (let neg = (s \<noteq> [] \<and> hd s = CHR ''!'');
          s1 = (if neg then tl s else s);
          lead = (if s1 \<noteq> [] \<and> hd s1 = CHR '']'' then [CHR '']''] else []);
          s2 = drop (length lead) s1;
          body = takeWhile (\<lambda>c. c \<noteq> CHR '']'') s2;
          rest = dropWhile (\<lambda>c. c \<noteq> CHR '']'') s2
      in if rest = [] then None else Some (neg, lead @ body, tl rest))"

lemma split_set_length:
  assumes "split_set s = Some (n, b, r)"
  shows "length r < Suc (length s)"
proof -
  define s1 where "s1 = (if s \<noteq> [] \<and> hd s = CHR ''!'' then tl s else s)"
  define s2 where "s2 = drop (length (if s1 \<noteq> [] \<and> hd s1 = CHR '']'' then [CHR '']''] else [])) s1"
  have "r = tl (dropWhile (\<lambda>c. c \<noteq> CHR '']'') s2)"
    using assms unfolding split_set_def Let_def s1_def [symmetric] s2_def [symmetric]
    by (simp split: if_splits)
  moreover have "length s1 \<le> length s" by (simp add: s1_def)
  moreover have "length s2 \<le> length s1" by (simp add: s2_def)
  moreover have "length (dropWhile (\<lambda>c. c \<noteq> CHR '']'') s2) \<le> length s2"
    by (rule length_dropWhile_le)
  ultimately show ?thesis by simp
qed

function (sequential) parse_pat :: "string \<Rightarrow> ptok list" where
  "parse_pat [] = []"
| "parse_pat (c # s) =
     (if c = CHR ''*'' then Star # parse_pat s
      else if c = CHR ''?'' then AnyChar # parse_pat s
      else if c = CHR ''['' then
        (case split_set s of
           None \<Rightarrow> Lit c # parse_pat s
         | Some (neg, body, rest) \<Rightarrow> CharSet neg (set_items body) # parse_pat rest)
      else Lit c # parse_pat s)"
  by pat_completeness auto
termination
  by (relation "measure length") (auto dest: split_set_length)

fun tok_match :: "ptok \<Rightarrow> char \<Rightarrow> bool" where
  "tok_match Star c = True"
| "tok_match AnyChar c = True"
| "tok_match (Lit d) c = (c = d)"
| "tok_match (CharSet neg items) c = (neg \<noteq> list_ex (\<lambda>(lo, hi). lo \<le> c \<and> c \<le> hi) items)"

function (sequential) glob_match :: "ptok list \<Rightarrow> string \<Rightarrow> bool" where
  "glob_match [] s = (s = [])"
| "glob_match (Star # ps) [] = glob_match ps []"
| "glob_match (Star # ps) (c # s) = (glob_match ps (c # s) \<or> glob_match (Star # ps) s)"
| "glob_match (p # ps) [] = False"
| "glob_match (p # ps) (c # s) = (tok_match p c \<and> glob_match ps s)"
  by pat_completeness auto
termination
  by (relation "measure (\<lambda>(ps, s). length ps + length s)") auto

definition fnmatch :: "string \<Rightarrow> string \<Rightarrow> bool" where
  "fnmatch name pat = glob_match (parse_pat pat) name"

definition is_meta :: "char \<Rightarrow> bool" where
  "is_meta c \<longleftrightarrow> c \<in> {CHR ''*'', CHR ''?'', CHR ''[''}"

lemma parse_pat_plain: "\<forall>c \<in> set p. \<not> is_meta c \<Longrightarrow> parse_pat (p @ q) = map Lit p @ parse_pat q"
  by (induction p) (auto simp: is_meta_def)

lemma glob_match_lits: "glob_match (map Lit p @ ps) s \<longleftrightarrow> (\<exists>t. s = p @ t \<and> glob_match ps t)"
proof (induction p arbitrary: s)
  case (Cons c p)
  then show ?case by (cases s) auto
qed simp

lemma glob_match_star: "glob_match (Star # ps) s \<longleftrightarrow> (\<exists>u v. s = u @ v \<and> glob_match ps v)"
proof (induction s)
  case Nil
  then show ?case by simp
next
  case (Cons c s)
  have "(\<exists>u v. c # s = u @ v \<and> glob_match ps v) \<longleftrightarrow>
    glob_match ps (c # s) \<or> (\<exists>u v. s = u @ v \<and> glob_match ps v)"
    by (auto simp: Cons_eq_append_conv)
  with Cons show ?case by simp
qed

lemma glob_match_star_end [simp]: "glob_match [Star] s"
  by (induction s) simp_all

lemma fnmatch_literal: "\<forall>c \<in> set p. \<not> is_meta c \<Longrightarrow> fnmatch s p \<longleftrightarrow> s = p"
  using parse_pat_plain [of p "[]"] glob_match_lits [of p "[]" s] by (simp add: fnmatch_def)

text \<open>A literal between two stars matches exactly the strings that contain it.\<close>

lemma fnmatch_substr:
  assumes "\<forall>c \<in> set p. \<not> is_meta c"
  shows "fnmatch s (CHR ''*'' # p @ ''*'') \<longleftrightarrow> has_substr p s"
proof -
  have "parse_pat (CHR ''*'' # p @ ''*'') = Star # map Lit p @ [Star]"
    using parse_pat_plain [OF assms, of "''*''"] by simp
  then show ?thesis
    by (auto simp: fnmatch_def glob_match_star glob_match_lits has_substr_iff)
qed

end
