(* ===== verification/Policy.thy ===== *)
theory Policy
  imports Fnmatch Json Grants
begin

text \<open>
  \<open>hares/policy.py\<close>: the deny and suspicious lists over whole command strings, their
  construction from the command line, and the elicitation helpers as functions of what the
  client session answers. The client is a parameter: \<open>elicit_outcome\<close> is what one
  \<open>session.elicit\<close> call did.
\<close>

section \<open>Decisions\<close>

datatype decision = ALLOW | DENY | ELICIT

record policy_result =
  decision :: decision
  matched_pattern :: "string option"
  tier :: "string option"

definition DEFAULT_DENY_PATTERNS :: "string list" where
  "DEFAULT_DENY_PATTERNS = []"

definition DEFAULT_SUSPECT_PATTERNS :: "string list" where
  "DEFAULT_SUSPECT_PATTERNS =
    [''*git push*'', ''*git remote set-url*'',
     ''*-X POST*'', ''*-X PUT*'', ''*-X DELETE*'', ''*-X PATCH*'',
     ''*--request POST*'', ''*--request PUT*'', ''*--request DELETE*'', ''*--request PATCH*'',
     ''*wget *--post-data*'', ''*wget *--post-file*'',
     ''*gh pr create*'', ''*gh pr merge*'', ''*gh pr close*'',
     ''*gh issue create*'', ''*gh issue close*'',
     ''*gh release create*'', ''*gh release delete*'', ''*gh repo delete*'',
     ''*npm publish*'', ''*twine upload*'', ''*poetry publish*'', ''*cargo publish*'',
     ''*ssh *'', ''*scp *'', ''*docker push*'',
     ''*pip install *--index-url*'', ''*pip install *--extra-index-url*'']"

definition normalise_pattern :: "string \<Rightarrow> string" where
  "normalise_pattern p =
     (if CHR ''*'' \<notin> set p \<and> CHR ''?'' \<notin> set p then ''*'' @ p @ ''*'' else p)"

record policy_engine =
  deny_pats :: "string list"
  suspect_pats :: "string list"

definition PolicyEngine :: "string list \<Rightarrow> string list \<Rightarrow> policy_engine" where
  "PolicyEngine d s = \<lparr>deny_pats = map normalise_pattern d, suspect_pats = map normalise_pattern s\<rparr>"

definition policy_active :: "policy_engine \<Rightarrow> bool" where
  "policy_active e \<longleftrightarrow> deny_pats e \<noteq> [] \<or> suspect_pats e \<noteq> []"

definition policy_check :: "policy_engine \<Rightarrow> string \<Rightarrow> policy_result" where
  "policy_check e command =
     (case find (fnmatch command) (deny_pats e) of
        Some p \<Rightarrow> \<lparr>decision = DENY, matched_pattern = Some p, tier = Some ''deny''\<rparr>
      | None \<Rightarrow>
          (case find (fnmatch command) (suspect_pats e) of
             Some p \<Rightarrow> \<lparr>decision = ELICIT, matched_pattern = Some p, tier = Some ''suspect''\<rparr>
           | None \<Rightarrow> \<lparr>decision = ALLOW, matched_pattern = None, tier = None\<rparr>))"

definition parse_patterns :: "string \<Rightarrow> string list" where
  "parse_patterns raw = filter (\<lambda>p. p \<noteq> []) (map strip_str (split_on (CHR '','') raw))"

definition load_policy :: "string option \<Rightarrow> string option \<Rightarrow> policy_engine option" where
  "load_policy deny_arg suspect_arg =
     (if deny_arg = None \<and> suspect_arg = None then
        (if DEFAULT_DENY_PATTERNS = [] \<and> DEFAULT_SUSPECT_PATTERNS = [] then None
         else Some (PolicyEngine DEFAULT_DENY_PATTERNS DEFAULT_SUSPECT_PATTERNS))
      else Some (PolicyEngine
        (case deny_arg of Some a \<Rightarrow> parse_patterns a | None \<Rightarrow> DEFAULT_DENY_PATTERNS)
        (case suspect_arg of Some a \<Rightarrow> parse_patterns a | None \<Rightarrow> DEFAULT_SUSPECT_PATTERNS)))"

section \<open>Elicitation\<close>

text \<open>What \<open>session.elicit\<close> did: returned an action (absent when the response has none) with a
  content, raised \<open>AttributeError\<close>, or raised something else.\<close>

datatype elicit_outcome = Responded "string option" json | NoElicit | ElicitFailed

text \<open>The session the server resolves for the running request, if there is one.\<close>

type_synonym client = "elicit_outcome option"

datatype elicit_reason = Accepted | UserDeclined | Unsupported | ElicitError | NoSession

definition content_field :: "json \<Rightarrow> string \<Rightarrow> json" where
  "content_field content k = (case content of JObj kvs \<Rightarrow> jget kvs k | _ \<Rightarrow> JNull)"

definition send_elicitation :: "elicit_outcome \<Rightarrow> elicit_reason" where
  "send_elicitation r = (case r of
      Responded action content \<Rightarrow>
        if (case action of None \<Rightarrow> ''cancel'' | Some a \<Rightarrow> a) \<noteq> ''accept'' then UserDeclined
        else if content_field content ''decision'' \<noteq> JStr ''deny'' then Accepted
        else UserDeclined
    | NoElicit \<Rightarrow> Unsupported
    | ElicitFailed \<Rightarrow> ElicitError)"

definition elicit_approval :: "client \<Rightarrow> bool" where
  "elicit_approval c = (case c of None \<Rightarrow> False | Some s \<Rightarrow> send_elicitation s = Accepted)"

definition elicit_memory_approval :: "client \<Rightarrow> elicit_reason" where
  "elicit_memory_approval c = (case c of None \<Rightarrow> NoSession | Some s \<Rightarrow> send_elicitation s)"

definition elicit_path_access_approval :: "client \<Rightarrow> lifetime option" where
  "elicit_path_access_approval c = (case c of None \<Rightarrow> None
    | Some (Responded action content) \<Rightarrow>
        (if (case action of None \<Rightarrow> ''cancel'' | Some a \<Rightarrow> a) \<noteq> ''accept'' then None
         else let grant = content_field content ''grant'' in
           if grant = JStr ''deny'' then None
           else if grant = JStr ''once'' then Some Once
           else if grant = JStr ''session'' then Some Session
           else Some Once)
    | Some NoElicit \<Rightarrow> None
    | Some ElicitFailed \<Rightarrow> None)"

section \<open>The tiers\<close>

definition matches_any :: "string list \<Rightarrow> string \<Rightarrow> bool" where
  "matches_any ps c \<longleftrightarrow> list_ex (fnmatch c) ps"

lemma find_matches: "find (fnmatch c) ps = None \<longleftrightarrow> \<not> matches_any ps c"
  by (auto simp: find_None_iff matches_any_def list_ex_iff)

section \<open>Severity\<close>

definition severity :: "decision \<Rightarrow> nat" where
  "severity d = (case d of ALLOW \<Rightarrow> 0 | ELICIT \<Rightarrow> 1 | DENY \<Rightarrow> 2)"

lemma severity_inj [simp]: "severity a = severity b \<longleftrightarrow> a = b"
  by (cases a; cases b) (simp_all add: severity_def)

instantiation decision :: linorder
begin

definition less_eq_decision :: "decision \<Rightarrow> decision \<Rightarrow> bool" where
  "less_eq_decision a b \<longleftrightarrow> severity a \<le> severity b"

definition less_decision :: "decision \<Rightarrow> decision \<Rightarrow> bool" where
  "less_decision a b \<longleftrightarrow> severity a < severity b"

instance
  by standard (auto simp: less_eq_decision_def less_decision_def)

end

lemma decision_of_check:
  "decision (policy_check e c) =
    (if matches_any (deny_pats e) c then DENY else if matches_any (suspect_pats e) c then ELICIT else ALLOW)"
  using find_matches [of c "deny_pats e"] find_matches [of c "suspect_pats e"]
  by (auto simp: policy_check_def split: option.splits)

lemma matches_more: "set ps \<subseteq> set qs \<Longrightarrow> matches_any ps c \<Longrightarrow> matches_any qs c"
  by (auto simp: matches_any_def list_ex_iff)

text \<open>
  C40: the policy only tightens. Whatever patterns an operator adds to the two lists, in whatever
  order, no command gets a milder decision: one that was denied stays denied, and one that
  needed approval still needs it or is denied.
\<close>

theorem policy_only_tightens:
  assumes "set deny \<subseteq> set deny'" "set suspect \<subseteq> set suspect'"
  shows "decision (policy_check (PolicyEngine deny suspect) c) \<le> decision (policy_check (PolicyEngine deny' suspect') c)"
proof -
  have "set (map normalise_pattern deny) \<subseteq> set (map normalise_pattern deny')"
    "set (map normalise_pattern suspect) \<subseteq> set (map normalise_pattern suspect')"
    using assms by auto
  from matches_more [OF this(1), of c] matches_more [OF this(2), of c] show ?thesis
    by (simp add: decision_of_check PolicyEngine_def less_eq_decision_def severity_def)
qed

theorem policy_only_tightens_witness:
  "decision (policy_check (PolicyEngine [] [''git push'']) ''git push -f'') \<le>
   decision (policy_check (PolicyEngine [''rm -rf'', ''push -f''] [''git push'', ''ssh'']) ''git push -f'')"
  by (rule policy_only_tightens) simp_all

text \<open>
  The policy is the three-tier decision the operator configured: a command is denied
  exactly when a deny pattern matches it, whatever the suspicious list says; it is elicited
  exactly when no deny pattern and some suspicious pattern matches; it runs freely exactly
  when none of either list matches; and the reported pattern is one that matched.
\<close>

theorem policy_check_tiers:
  "(decision (policy_check e c) = DENY) = matches_any (deny_pats e) c \<and>
   (decision (policy_check e c) = ELICIT) = (\<not> matches_any (deny_pats e) c \<and> matches_any (suspect_pats e) c) \<and>
   (decision (policy_check e c) = ALLOW) = (\<not> matches_any (deny_pats e @ suspect_pats e) c) \<and>
   (case matched_pattern (policy_check e c) of
      None \<Rightarrow> decision (policy_check e c) = ALLOW
    | Some p \<Rightarrow> fnmatch c p \<and> p \<in> set (if decision (policy_check e c) = DENY then deny_pats e else suspect_pats e))"
proof -
  have f: "find (fnmatch c) ps = Some p \<Longrightarrow> fnmatch c p \<and> p \<in> set ps \<and> matches_any ps c" for ps p
    by (auto simp: find_Some_iff matches_any_def list_ex_iff)
  show ?thesis
    using f [of "deny_pats e"] f [of "suspect_pats e"] find_matches [of c "deny_pats e"]
      find_matches [of c "suspect_pats e"]
    by (cases "find (fnmatch c) (deny_pats e)"; cases "find (fnmatch c) (suspect_pats e)")
      (simp_all add: policy_check_def matches_any_def)
qed

text \<open>
  A pattern given without glob characters blocks exactly the commands that contain it as a
  substring.
\<close>

theorem plain_pattern_is_substring:
  assumes "list_all (\<lambda>c. \<not> is_meta c) p"
  shows "matches_any (deny_pats (PolicyEngine [p] s)) c = has_substr p c"
proof -
  have "normalise_pattern p = CHR ''*'' # p @ ''*''"
    using assms by (auto simp: normalise_pattern_def is_meta_def list_all_iff)
  then show ?thesis
    using fnmatch_substr [of p c] assms by (simp add: PolicyEngine_def matches_any_def list_all_iff)
qed

theorem plain_pattern_is_substring_witness:
  "matches_any (deny_pats (PolicyEngine [''git push''] [])) ''cd x; git push -f'' =
   has_substr ''git push'' ''cd x; git push -f''"
  by (rule plain_pattern_is_substring) (simp add: is_meta_def)

text \<open>
  A pattern that has a glob character is anchored at both ends, so the implied leading and
  trailing star of the module's documentation is not there: the documented deny pattern
  \<open>sudo *\<close> stops \<open>sudo ls\<close> but lets \<open>true; sudo ls\<close> run.
\<close>

theorem globbed_pattern_is_anchored:
  "let e = PolicyEngine (parse_patterns ''sudo *,rm -rf /*'') [] in
   decision (policy_check e ''sudo ls'') = DENY \<and>
   decision (policy_check e ''true; sudo ls'') = ALLOW \<and>
   decision (policy_check e ''cd / && rm -rf /home'') = ALLOW"
  by code_simp

text \<open>
  Approval fails closed. A suspicious command is approved exactly when a session answered
  with the action \<open>accept\<close> and a form that does not say \<open>deny\<close>; the memory gate accepts in the
  same case and names the reason otherwise; a path grant needs an \<open>accept\<close> that does not say
  \<open>deny\<close>, and lasts for the session only when the form says so.
\<close>

theorem elicitation_fails_closed:
  "elicit_approval c =
     (\<exists>k. c = Some (Responded (Some ''accept'') k) \<and> content_field k ''decision'' \<noteq> JStr ''deny'') \<and>
   (elicit_memory_approval c = Accepted) = elicit_approval c \<and>
   (elicit_path_access_approval c \<noteq> None) =
     (\<exists>k. c = Some (Responded (Some ''accept'') k) \<and> content_field k ''grant'' \<noteq> JStr ''deny'') \<and>
   (elicit_path_access_approval c = Some Session) =
     (\<exists>k. c = Some (Responded (Some ''accept'') k) \<and> content_field k ''grant'' = JStr ''session'')"
proof (cases c)
  case (Some r)
  show ?thesis
  proof (cases r)
    case (Responded a k)
    then show ?thesis
      using Some by (cases a)
        (simp_all add: elicit_approval_def elicit_memory_approval_def elicit_path_access_approval_def
          send_elicitation_def Let_def)
  qed (simp_all add: Some elicit_approval_def elicit_memory_approval_def
      elicit_path_access_approval_def send_elicitation_def)
qed (simp add: elicit_approval_def elicit_memory_approval_def elicit_path_access_approval_def)

end
