(* ===== verification/Startup.thy ===== *)
theory Startup
  imports Arguments Coordination Policy
begin

text \<open>
  Starting the program: the checks and the dispatch of \<open>hares/cli.py\<close>, the configuration of
  \<open>hares/config.py\<close>, and the ceiling refined from the client's roots (\<open>hares/roots.py\<close>). What
  the started server can rely on is stated at the end.
\<close>

section \<open>Arguments\<close>

definition scope_id_body :: "string \<Rightarrow> bool" where
  "scope_id_body s \<longleftrightarrow> (let low = (\<lambda>c. 97 \<le> (of_char c :: nat) \<and> (of_char c :: nat) \<le> 122) in
     s \<noteq> [] \<and> low (hd s) \<and> list_all (\<lambda>c. low c \<or> is_digit c \<or> c = CHR ''_'') (tl s))"

text \<open>\<open>^[a-z][a-z0-9_]*$\<close> with \<open>match\<close>: the dollar also matches before a final newline.\<close>

definition scope_id_match :: "string \<Rightarrow> bool" where
  "scope_id_match s \<longleftrightarrow> scope_id_body s \<or> (s \<noteq> [] \<and> last s = CHR 0x0A \<and> scope_id_body (butlast s))"

definition validate_scope_id :: "string option \<Rightarrow> string option result" where
  "validate_scope_id sid = (case sid of None \<Rightarrow> ok None
     | Some s \<Rightarrow> if scope_id_match s then ok (Some s) else raise_err (SystemExit s))"

text \<open>\<open>except PathSafetyError: raise SystemExit\<close>.\<close>

definition exit_on_unsafe :: "string \<Rightarrow> 'a result \<Rightarrow> 'a result" where
  "exit_on_unsafe what r = (case r of
      Inl e \<Rightarrow> if is_path_safety e then raise_err (SystemExit what) else Inl e
    | Inr x \<Rightarrow> ok x)"

definition non_empty :: "string option \<Rightarrow> string option" where
  "non_empty x = (case x of Some s \<Rightarrow> if s = [] then None else x | None \<Rightarrow> None)"

definition resolve_expanded :: "host \<Rightarrow> string \<Rightarrow> rpath result" where
  "resolve_expanded h s = from_option (RuntimeError s) (resolve_on h (path_of (expand_path h s)))"

definition ceiling_argument :: "host \<Rightarrow> string option \<Rightarrow> string" where
  "ceiling_argument h arg = (case non_empty arg of Some s \<Rightarrow> s
     | None \<Rightarrow> strip_str (getenv h ''HARES_FS_CEILING'' []))"

definition resolve_ceiling :: "host \<Rightarrow> string option \<Rightarrow> (rpath \<times> bool) result" where
  "resolve_ceiling h arg =
     (let used_pwd_default = (ceiling_argument h arg = []);
          given = (if used_pwd_default then cwd h else ceiling_argument h arg)
      in rbind (resolve_expanded h given) (\<lambda>expanded.
         rbind (exit_on_unsafe given (validate_ceiling h (rpath_path expanded))) (\<lambda>_.
         ok (expanded, used_pwd_default))))"

definition validate_state_file :: "host \<Rightarrow> string option \<Rightarrow> rpath option result" where
  "validate_state_file h arg = (case non_empty arg of
      None \<Rightarrow> ok None
    | Some s \<Rightarrow> rbind (resolve_expanded h s) (\<lambda>expanded.
        if strip_str (getenv h ''HARES_STATE_HMAC_SECRET'' []) = [] then raise_err (SystemExit s)
        else ok (Some expanded)))"

section \<open>Environment paths\<close>

definition pieces :: "host \<Rightarrow> string \<Rightarrow> string list" where
  "pieces h var = filter (\<lambda>p. p \<noteq> []) (split_on (CHR '':'') (getenv h var []))"

definition validate_env_paths :: "host \<Rightarrow> unit result" where
  "validate_env_paths h = check_all (\<lambda>var.
     check_all (\<lambda>piece. rbind (resolve_expanded h piece) (\<lambda>expanded.
       exit_on_unsafe var (validate_path_no_system_dir h (rpath_path expanded) None)))
     (pieces h var)) [''HARES_SANDBOX_RW'', ''HARES_SANDBOX_RO'']"

definition validate_denied_piece :: "host \<Rightarrow> rpath \<Rightarrow> string \<Rightarrow> string \<Rightarrow> unit result" where
  "validate_denied_piece h ceil var piece =
     rbind (exit_on_unsafe var (validate_path_no_traversal piece)) (\<lambda>_.
     let candidate = path_of (expand_path h piece);
         candidate = (if is_absolute candidate then candidate else path_join (rpath_path ceil) candidate)
     in rbind (from_option (RuntimeError piece) (resolve_on h candidate)) (\<lambda>resolved.
        if resolved = ceil \<or> \<not> is_subpath h (rpath_path resolved) (rpath_path ceil)
        then raise_err (SystemExit var) else ok ()))"

definition validate_exclude_protect_paths :: "host \<Rightarrow> rpath \<Rightarrow> unit result" where
  "validate_exclude_protect_paths h ceil = check_all (\<lambda>var.
     check_all (validate_denied_piece h ceil var) (pieces h var))
     [''HARES_SANDBOX_EXCLUDE'', ''HARES_SANDBOX_PROTECT'']"

section \<open>Network flags\<close>

definition set_env :: "host \<Rightarrow> string \<Rightarrow> string \<Rightarrow> host" where
  "set_env h n v = h\<lparr>environ := (environ h)(n \<mapsto> v)\<rparr>"

definition network_flags :: "host \<Rightarrow> string option \<Rightarrow> string option \<Rightarrow> host result" where
  "network_flags h network network_allow =
     rbind (case network of
         None \<Rightarrow> ok h
       | Some m \<Rightarrow>
           if m = ''allowlist'' then
             (if non_empty network_allow = None \<and> getenv h ''HARES_SANDBOX_NETWORK_ALLOW'' [] = []
              then raise_err (SystemExit ''--network'') else ok h)
           else ok (set_env h ''HARES_SANDBOX_NETWORK'' (if m = ''on'' then ''on'' else ''off'')))
       (\<lambda>h1. ok (case network_allow of Some a \<Rightarrow> set_env h1 ''HARES_SANDBOX_NETWORK_ALLOW'' a | None \<Rightarrow> h1))"

section \<open>The entry point\<close>

datatype launch =
    ServeCluster string "string option" "rpath option"
  | ServeShell "string option" rpath bool "rpath option" bool "policy_engine option"
  | ServeFs "string option" rpath bool "rpath option" bool
  | ServeCombined "string option" rpath bool "rpath option" bool "policy_engine option"

definition cluster_ceiling :: "host \<Rightarrow> string option \<Rightarrow> rpath option result" where
  "cluster_ceiling h arg =
     (if ceiling_argument h arg = [] then ok None
      else rbind (resolve_expanded h (ceiling_argument h arg)) (\<lambda>expanded.
           rbind (exit_on_unsafe (ceiling_argument h arg) (validate_ceiling h (rpath_path expanded))) (\<lambda>_.
           ok (Some expanded))))"

text \<open>\<open>main\<close> after argument parsing: the server it starts, with the environment it starts it in.\<close>

definition main :: "host \<Rightarrow> cli_args \<Rightarrow> (launch \<times> host) result" where
  "main h a =
     rbind (validate_scope_id (arg_scope_id a)) (\<lambda>sid.
     if arg_enable a \<in> {''lsf'', ''slurm''} then
       rbind (cluster_ceiling h (arg_ceiling a)) (\<lambda>ceil. ok (ServeCluster (arg_enable a) sid ceil, h))
     else
       rbind (network_flags h (arg_network a) (arg_network_allow a)) (\<lambda>h1.
       rbind (resolve_ceiling h1 (arg_ceiling a)) (\<lambda>(ceil, use_roots).
       rbind (validate_state_file h1 (arg_state_file a)) (\<lambda>state_file.
       rbind (validate_env_paths h1) (\<lambda>_.
       rbind (validate_exclude_protect_paths h1 ceil) (\<lambda>_.
       let pol = load_policy (arg_deny a) (arg_suspect a) in
       if arg_enable a = ''shell'' then
         ok (ServeShell sid ceil (arg_read_only a) state_file use_roots pol, h1)
       else if arg_enable a = ''fs'' then
         ok (ServeFs sid ceil (arg_read_only a) state_file use_roots, h1)
       else if arg_enable a = ''fs+shell'' then
         ok (ServeCombined sid ceil (arg_read_only a) state_file use_roots pol, h1)
       else raise_err (SystemExit (arg_enable a))))))))"

text \<open>The console script on its argument vector.\<close>

datatype program = RunDoctor "string list" | Serving launch host

definition hares_mcp :: "host \<Rightarrow> string list \<Rightarrow> program result" where
  "hares_mcp h argv =
     (if argv \<noteq> [] \<and> hd argv = ''doctor'' then ok (RunDoctor (tl argv))
      else rbind (parse_args argv) (\<lambda>a. rbind (main h a) (\<lambda>(l, h1). ok (Serving l h1))))"

section \<open>Configuration\<close>

definition intenv :: "host \<Rightarrow> string \<Rightarrow> int \<Rightarrow> int result" where
  "intenv h name dflt = (case environ h name of
      None \<Rightarrow> ok dflt
    | Some given \<Rightarrow> if given = [] then ok dflt
        else (case py_int given of Some n \<Rightarrow> ok n | None \<Rightarrow> raise_err (ValueError name)))"

definition floatenv :: "host \<Rightarrow> string \<Rightarrow> string \<Rightarrow> string result" where
  "floatenv h name dflt = (case environ h name of
      None \<Rightarrow> ok dflt
    | Some given \<Rightarrow> if given = [] then ok dflt
        else if py_float_ok given then ok given else raise_err (ValueError name))"

record config =
  cf_max_concurrent :: int
  cf_mem_limit_mb :: int
  cf_cpu_limit_sec :: int
  cf_default_timeout :: string
  cf_rss_poll_interval :: string
  cf_rss_overshoot_ratio :: string
  cf_sandbox :: sandbox_config
  cf_coordination_dir :: "rpath option"
  cf_fs_ceiling_default :: "rpath option"
  cf_network_policy :: "network_policy option"
  cf_mem_limit_max_mb :: int

definition load_config ::
  "host \<Rightarrow> (string \<Rightarrow> string option) \<Rightarrow> (string \<Rightarrow> int \<Rightarrow> string option) \<Rightarrow> string option \<Rightarrow> config result" where
  "load_config h which getaddrinfo default_cwd =
     (let coord_raw = strip_str (getenv h ''HARES_COORDINATION_DIR'' []);
          ceil_raw = strip_str (getenv h ''HARES_FS_CEILING'' [])
      in rbind (if coord_raw = [] then ok None
                else map_sum id Some (from_option (RuntimeError coord_raw) (resolve_on h (path_of coord_raw)))) (\<lambda>coord.
         rbind (if ceil_raw = [] then ok None else map_sum id Some (resolve_expanded h ceil_raw)) (\<lambda>ceil.
         rbind (intenv h ''HARES_MAX_CONCURRENT'' 2) (\<lambda>maxc.
         rbind (intenv h ''HARES_MEM_LIMIT_MB'' 7168) (\<lambda>mem.
         rbind (intenv h ''HARES_CPU_LIMIT_SEC'' 1200) (\<lambda>cpu.
         rbind (floatenv h ''HARES_DEFAULT_TIMEOUT_SEC'' ''300.0'') (\<lambda>tmo.
         rbind (floatenv h ''HARES_RSS_POLL_INTERVAL_SEC'' ''2.0'') (\<lambda>poll.
         rbind (floatenv h ''HARES_RSS_OVERSHOOT_RATIO'' ''1.2'') (\<lambda>ratio.
         rbind (load_sandbox_config h which default_cwd) (\<lambda>sb.
         let np = load_network_policy h getaddrinfo in
         rbind (intenv h ''HARES_MEM_LIMIT_MAX_MB'' (machine_safe_max_mb h)) (\<lambda>maxmb.
         ok \<lparr>cf_max_concurrent = maxc, cf_mem_limit_mb = mem, cf_cpu_limit_sec = cpu,
             cf_default_timeout = tmo, cf_rss_poll_interval = poll, cf_rss_overshoot_ratio = ratio,
             cf_sandbox = sb, cf_coordination_dir = coord, cf_fs_ceiling_default = ceil,
             cf_network_policy = np, cf_mem_limit_max_mb = maxmb\<rparr>)))))))))))"

text \<open>What \<open>_serve_async\<close> of the shell and the combined server builds from it: the coordinator and
  the runner, over the kernel's limits, the cgroup probe and the cores of the machine.\<close>

definition build_runner ::
  "host \<Rightarrow> config \<Rightarrow> rpath \<Rightarrow> int \<Rightarrow> int \<Rightarrow> bool \<Rightarrow> nat list \<Rightarrow> (coordinator \<times> runner) result" where
  "build_runner h cf ceil as_hard cpu_hard cg cores =
     rbind (server_coordinator (map_option rpath_str (cf_coordination_dir cf)) (cf_max_concurrent cf)) (\<lambda>co.
     rbind (Runner (cf_max_concurrent cf) (cf_mem_limit_mb cf) (cf_cpu_limit_sec cf)
        (Some (cf_mem_limit_max_mb cf)) as_hard cpu_hard cg True
        (Some (cf_sandbox cf)) (Some ceil) (cf_network_policy cf) (Some []) cores) (\<lambda>r.
     ok (co, r)))"

section \<open>Roots\<close>

fun common_prefix :: "rpath \<Rightarrow> rpath \<Rightarrow> rpath" where
  "common_prefix (x # xs) (y # ys) = (if x = y then x # common_prefix xs ys else [])"
| "common_prefix _ _ = []"

definition root_paths :: "host \<Rightarrow> string list \<Rightarrow> rpath list result" where
  "root_paths h uris = collect (\<lambda>uri. from_option (RuntimeError uri) (resolve_on h (path_of (drop 7 uri))))
     (filter (prefix ''file://'') uris)"

text \<open>\<open>None\<close> for \<open>list_roots\<close> that raises.\<close>

definition derive_ceiling_from_roots :: "host \<Rightarrow> string list option \<Rightarrow> rpath option result" where
  "derive_ceiling_from_roots h listed = (case listed of
      None \<Rightarrow> ok None
    | Some uris \<Rightarrow> rbind (root_paths h uris) (\<lambda>ps.
        if ps = [] then ok None
        else let candidate = foldl common_prefix (hd ps) (tl ps) in
          if is_ok (validate_ceiling h (rpath_path candidate)) then ok (Some candidate) else ok None))"

text \<open>One call of the refiner: whether it has been applied, and the runner. Exceptions are swallowed.\<close>

definition maybe_refine ::
  "host \<Rightarrow> bool \<Rightarrow> string list option \<Rightarrow> bool \<times> runner \<Rightarrow> bool \<times> runner" where
  "maybe_refine h use_roots listed st =
     (if \<not> use_roots \<or> fst st then st
      else (True, case derive_ceiling_from_roots h listed of
          Inr (Some c) \<Rightarrow> update_ceiling c (snd st) | _ \<Rightarrow> snd st))"

section \<open>What a started server can rely on\<close>

lemma exit_on_unsafe_ok [simp]: "exit_on_unsafe w r = ok x \<longleftrightarrow> r = ok x"
  by (auto simp: exit_on_unsafe_def split: sum.splits)

lemma resolve_expanded_resolved: "resolve_expanded h s = ok r \<Longrightarrow> resolved_on h r"
  by (auto simp: resolve_expanded_def intro: resolved_onI [OF ppath_ok_path_of])

definition sound_ceiling :: "host \<Rightarrow> rpath \<Rightarrow> bool" where
  "sound_ceiling h c \<longleftrightarrow> resolved_on h c \<and> ''.git'' \<notin> set c \<and> clear_of_system h c"

lemma validate_ceiling_sound:
  assumes "resolved_on h c" "validate_ceiling h (rpath_path c) = ok u"
  shows "sound_ceiling h c"
  using assms by (auto simp: sound_ceiling_def validate_ceiling_def resolved_on_def clear_of_system_def contains_git
    split: if_splits)

lemma resolve_ceiling_sound:
  assumes "resolve_ceiling h arg = ok (c, used)"
  shows "sound_ceiling h c" "used \<longleftrightarrow> ceiling_argument h arg = []"
  using assms by (auto simp: resolve_ceiling_def Let_def intro!: validate_ceiling_sound resolve_expanded_resolved)

definition deny_inside :: "host \<Rightarrow> rpath \<Rightarrow> string \<Rightarrow> bool" where
  "deny_inside h c var \<longleftrightarrow> (case load_denylist h var (rpath_path c) of
     Inr ds \<Rightarrow> list_all (\<lambda>d. resolved_on h d \<and> strict_prefix c d) ds | Inl e \<Rightarrow> False)"

lemma denied_piece_inside:
  assumes c: "resolved_on h c" and v: "validate_denied_piece h c var piece = ok u"
  shows "\<exists>d. from_option (RuntimeError piece) (resolve_on h (let candidate = path_of (expand_path h piece) in
      if is_absolute candidate then candidate else path_join (rpath_path c) candidate)) = ok d \<and>
    resolved_on h d \<and> strict_prefix c d"
proof -
  let ?p = "let candidate = path_of (expand_path h piece) in
      if is_absolute candidate then candidate else path_join (rpath_path c) candidate"
  have pok: "ppath_ok ?p" using c by (simp add: Let_def resolved_on_def)
  from v obtain d where d: "resolve_on h ?p = Some d" and n: "d \<noteq> c" "is_subpath h (rpath_path d) (rpath_path c)"
    by (auto simp: validate_denied_piece_def Let_def split: if_splits)
  from resolved_onI [OF pok d] have "resolved_on h d" .
  with n c d show ?thesis by (auto simp: is_subpath_resolved strict_prefix_def)
qed

lemma collect_all_ok:
  assumes "\<forall>x \<in> set xs. \<exists>y. f x = ok y \<and> P y"
  shows "\<exists>ys. collect f xs = ok ys \<and> list_all P ys"
  using assms by (induction xs) auto

lemma deny_inside_iff:
  assumes c: "resolved_on h c" and v: "\<forall>piece \<in> set (pieces h var). validate_denied_piece h c var piece = ok ()"
  shows "deny_inside h c var"
proof (cases "getenv h var [] = []")
  case True
  then show ?thesis by (simp add: deny_inside_def load_denylist_def)
next
  case False
  have "\<exists>ds. collect (\<lambda>piece. from_option (RuntimeError piece) (resolve_on h (let candidate = path_of (expand_path h piece) in
      if is_absolute candidate then candidate else path_join (rpath_path c) candidate))) (pieces h var) = ok ds \<and>
    list_all (\<lambda>d. resolved_on h d \<and> strict_prefix c d) ds"
    by (rule collect_all_ok) (use v denied_piece_inside [OF c] in blast)
  with False show ?thesis by (auto simp: deny_inside_def load_denylist_def pieces_def Let_def)
qed

definition binds_clear :: "host \<Rightarrow> string \<Rightarrow> bool" where
  "binds_clear h var \<longleftrightarrow> list_all (\<lambda>piece. case resolve_expanded h piece of
      Inr b \<Rightarrow> clear_of_system h b | Inl e \<Rightarrow> False) (pieces h var)"

lemma env_paths_clear:
  "validate_env_paths h = ok u \<Longrightarrow> var \<in> {''HARES_SANDBOX_RW'', ''HARES_SANDBOX_RO''} \<Longrightarrow> binds_clear h var"
  by (auto simp: validate_env_paths_def check_all_ok binds_clear_def list_all_iff clear_of_system_def)

definition launched :: "launch \<Rightarrow> (rpath \<times> rpath option) option" where
  "launched l = (case l of ServeCluster e s c \<Rightarrow> None | ServeShell s c ro f u p \<Rightarrow> Some (c, f)
     | ServeFs s c ro f u \<Rightarrow> Some (c, f) | ServeCombined s c ro f u p \<Rightarrow> Some (c, f))"

text \<open>
  What passes the command line. A shell, fs or combined server starts only with a ceiling that
  is a resolved path without a \<open>.git\<close> component and outside the forbidden system directories;
  every exclude and protect entry then loads and lies strictly below that ceiling; every
  read-write and read-only bind resolves outside the system directories; and a state file comes
  with a secret to sign it.
\<close>

theorem startup_is_checked:
  assumes "hares_mcp h argv = ok (Serving l h1)" "launched l = Some (c, f)"
  shows "sound_ceiling h1 c \<and>
    deny_inside h1 c ''HARES_SANDBOX_EXCLUDE'' \<and> deny_inside h1 c ''HARES_SANDBOX_PROTECT'' \<and>
    binds_clear h1 ''HARES_SANDBOX_RW'' \<and> binds_clear h1 ''HARES_SANDBOX_RO'' \<and>
    (if f = None then True else strip_str (getenv h1 ''HARES_STATE_HMAC_SECRET'' []) \<noteq> [])"
proof -
  from assms(1) obtain a where m: "main h a = ok (l, h1)"
    by (auto simp: hares_mcp_def split: if_splits)
  with assms(2) obtain u where s:
    "resolve_ceiling h1 (arg_ceiling a) = ok (c, u)" "validate_state_file h1 (arg_state_file a) = ok f"
    "validate_env_paths h1 = ok ()" "validate_exclude_protect_paths h1 c = ok ()"
    by (auto simp: main_def Let_def launched_def split: if_splits)
  have c: "sound_ceiling h1 c" using resolve_ceiling_sound(1) [OF s(1)] .
  then have r: "resolved_on h1 c" by (simp add: sound_ceiling_def)
  from s(4) have d: "deny_inside h1 c var" if "var \<in> {''HARES_SANDBOX_EXCLUDE'', ''HARES_SANDBOX_PROTECT''}" for var
    using that by (intro deny_inside_iff [OF r]) (auto simp: validate_exclude_protect_paths_def check_all_ok)
  from s(2) have "if f = None then True else strip_str (getenv h1 ''HARES_STATE_HMAC_SECRET'' []) \<noteq> []"
    by (auto simp: validate_state_file_def split: option.splits if_splits)
  with c d env_paths_clear [OF s(3)] show ?thesis by simp
qed

lemma load_sandbox_network:
  assumes "load_sandbox_config h which d = ok sb" "enabled sb"
  shows "allow_network sb \<longleftrightarrow> lower_str (strip_str (getenv h ''HARES_SANDBOX_NETWORK'' ''on'')) \<notin> {''off'', ''false'', ''0'', ''no''}"
proof -
  from assms obtain rw bin ro pr ex tmp where "sb = \<lparr>enabled = True, bwrap_bin = bin, rw_binds = rw, ro_binds = ro,
      protect_binds = pr, exclude_binds = ex,
      allow_network = lower_str (strip_str (getenv h ''HARES_SANDBOX_NETWORK'' ''on'')) \<notin> {''off'', ''false'', ''0'', ''no''},
      tmp_size_mb = tmp\<rparr>"
    unfolding load_sandbox_config_def Let_def
    by (simp only: disabled_sandbox_def split: if_splits option.splits) auto
  then show ?thesis by simp
qed

theorem startup_is_checked_witness:
  "\<exists>l h1. hares_mcp default_host [''--enable=fs'', ''--scope-id'', ''src''] = ok (Serving l h1) \<and> sound_ceiling h1 [''w'']"
proof -
  have "case hares_mcp default_host [''--enable=fs'', ''--scope-id'', ''src''] of
      Inr (Serving l h1) \<Rightarrow> launched l = Some ([''w''], None) | _ \<Rightarrow> False"
    by code_simp
  then obtain l h1 where m: "hares_mcp default_host [''--enable=fs'', ''--scope-id'', ''src''] = ok (Serving l h1)"
      "launched l = Some ([''w''], None)"
    by (auto split: sum.splits program.splits)
  from startup_is_checked [OF m] m(1) show ?thesis by blast
qed

text \<open>
  The network flag and the allowlist. The mode of the runner a server starts with is decided by
  the allowlist first: with an entry in \<open>--network-allow\<close> or the environment, \<open>--network=off\<close> and
  \<open>--network=on\<close> both give the allowlist's network. Only without one does the flag decide, over
  the environment.
\<close>

theorem network_flag_decides:
  assumes "flag \<in> {''on'', ''off''}"
    and "network_flags h (Some flag) network_allow = ok h1"
    and "load_sandbox_config h1 which d = ok sb" "enabled sb" "sandbox r = Some sb"
    and "net_policy r = load_network_policy h1 getaddrinfo"
  shows "network_mode_of r =
    (if (case load_network_policy h1 getaddrinfo of None \<Rightarrow> False | Some p \<Rightarrow> policy_enabled p) then NetAllowlist
     else if flag = ''off'' then NetOff else NetFull)"
proof -
  from assms(1,2) have e: "getenv h1 ''HARES_SANDBOX_NETWORK'' ''on'' = flag"
    by (auto simp: network_flags_def set_env_def getenv_def split: option.splits)
  have plain: "lower_str (strip_str flag) = flag"
    using assms(1) by (auto simp: strip_str_def is_space_def lower_str_def lower_chr_def)
  from load_sandbox_network [OF assms(3,4)] have n: "allow_network sb \<longleftrightarrow> flag \<noteq> ''off''"
    unfolding e plain using assms(1) by auto
  show ?thesis
    unfolding network_mode_of_def assms(5,6) option.case n by (simp only: not_not)
qed

theorem network_flag_decides_witness:
  "\<exists>h1 sb. network_flags (default_host\<lparr>environ := [''HARES_SANDBOX_NETWORK_ALLOW'' \<mapsto> ''pypi.org:443'']\<rparr>) (Some ''off'') None = ok h1 \<and>
     load_sandbox_config h1 (\<lambda>b. Some b) None = ok sb \<and>
     network_mode_of (default_runner\<lparr>sandbox := Some sb, net_policy := load_network_policy h1 (\<lambda>_ _. Some ''1.2.3.4'')\<rparr>) = NetAllowlist"
proof -
  let ?h = "default_host\<lparr>environ := [''HARES_SANDBOX_NETWORK_ALLOW'' \<mapsto> ''pypi.org:443'']\<rparr>"
  let ?h1 = "set_env ?h ''HARES_SANDBOX_NETWORK'' ''off''"
  have f: "network_flags ?h (Some ''off'') None = ok ?h1" by (simp add: network_flags_def)
  have "case load_sandbox_config ?h1 (\<lambda>b. Some b) None of Inr sb \<Rightarrow> enabled sb | Inl e \<Rightarrow> False" by code_simp
  then obtain sb where sb: "load_sandbox_config ?h1 (\<lambda>b. Some b) None = ok sb" "enabled sb" by (auto split: sum.splits)
  have p: "case load_network_policy ?h1 (\<lambda>_ _. Some ''1.2.3.4'') of None \<Rightarrow> False | Some p \<Rightarrow> policy_enabled p" by code_simp
  let ?r = "default_runner\<lparr>sandbox := Some sb, net_policy := load_network_policy ?h1 (\<lambda>_ _. Some ''1.2.3.4'')\<rparr>"
  have "network_mode_of ?r = NetAllowlist"
    by (subst network_flag_decides [OF _ f sb, of ?r "\<lambda>_ _. Some ''1.2.3.4''"]) (simp_all only: p if_True, simp_all)
  with f sb show ?thesis by blast
qed

text \<open>
  The scope id that passes may end in a newline: the pattern's dollar matches before it. The
  tool names built from it then carry the newline.
\<close>

theorem scope_id_accepts_newline:
  "validate_scope_id (Some (''src'' @ [CHR 0x0A])) = ok (Some (''src'' @ [CHR 0x0A]))"
  by code_simp

lemma intenv_given: "intenv h var d = ok n \<Longrightarrow> environ h var = Some given \<Longrightarrow> given \<noteq> [] \<Longrightarrow> py_int given = Some n"
  by (simp add: intenv_def split: option.splits)

text \<open>
  Malformed or non-positive limits stop a server at its start: with any of the integer
  variables set to what \<open>int\<close> rejects, or a concurrency, memory or CPU limit below one, no runner is built.
\<close>

theorem bad_limits_stop_startup:
  assumes "environ h var = Some given" "given \<noteq> []"
    and "(var \<in> {''HARES_MAX_CONCURRENT'', ''HARES_MEM_LIMIT_MB'', ''HARES_CPU_LIMIT_SEC''} \<and>
           (case py_int given of None \<Rightarrow> True | Some n \<Rightarrow> n < 1)) \<or>
         (var = ''HARES_MEM_LIMIT_MAX_MB'' \<and> py_int given = None)"
  shows "\<not> is_ok (rbind (load_config h which getaddrinfo d) (\<lambda>cf. build_runner h cf c as_hard cpu_hard cg cores))"
proof
  assume "is_ok (rbind (load_config h which getaddrinfo d) (\<lambda>cf. build_runner h cf c as_hard cpu_hard cg cores))"
  then obtain cf co r where cf: "load_config h which getaddrinfo d = ok cf"
    and r: "build_runner h cf c as_hard cpu_hard cg cores = ok (co, r)" by (auto simp: is_ok_iff)
  from cf have i: "intenv h ''HARES_MAX_CONCURRENT'' 2 = ok (cf_max_concurrent cf)"
    "intenv h ''HARES_MEM_LIMIT_MB'' 7168 = ok (cf_mem_limit_mb cf)"
    "intenv h ''HARES_CPU_LIMIT_SEC'' 1200 = ok (cf_cpu_limit_sec cf)"
    "is_ok (intenv h ''HARES_MEM_LIMIT_MAX_MB'' (machine_safe_max_mb h))"
    by (auto simp: load_config_def Let_def is_ok_iff)
  from r have n: "cf_max_concurrent cf \<ge> 1" "cf_mem_limit_mb cf \<ge> 1" "cf_cpu_limit_sec cf \<ge> 1"
    by (auto simp: build_runner_def Runner_def server_coordinator_def split: if_splits)
  note read = intenv_given [OF _ assms(1,2)]
  from assms(3) consider "var = ''HARES_MAX_CONCURRENT''" | "var = ''HARES_MEM_LIMIT_MB''" | "var = ''HARES_CPU_LIMIT_SEC''"
    | "var = ''HARES_MEM_LIMIT_MAX_MB''" by blast
  then show False
  proof cases
    case 1
    from read [of _ "cf_max_concurrent cf"] i(1) assms(3) n(1) show False by (simp add: 1)
  next
    case 2
    from read [of _ "cf_mem_limit_mb cf"] i(2) assms(3) n(2) show False by (simp add: 2)
  next
    case 3
    from read [of _ "cf_cpu_limit_sec cf"] i(3) assms(3) n(3) show False by (simp add: 3)
  next
    case 4
    with i(4) read assms(3) show False by (auto simp: is_ok_iff)
  qed
qed

theorem bad_limits_stop_startup_witness:
  "\<not> is_ok (rbind (load_config (default_host\<lparr>environ := [''HARES_MAX_CONCURRENT'' \<mapsto> ''0'']\<rparr>) (\<lambda>b. Some b) (\<lambda>_ _. None) None)
     (\<lambda>cf. build_runner default_host cf [''w''] 0 0 True []))"
proof -
  let ?h = "default_host\<lparr>environ := [''HARES_MAX_CONCURRENT'' \<mapsto> ''0'']\<rparr>"
  have "py_int ''0'' = Some 0" by code_simp
  then have "\<not> is_ok (rbind (load_config ?h (\<lambda>b. Some b) (\<lambda>_ _. None) None) (\<lambda>cf. build_runner ?h cf [''w''] 0 0 True []))"
    by (intro bad_limits_stop_startup [of ?h "''HARES_MAX_CONCURRENT''" "''0''"]) simp_all
  then show ?thesis by (simp add: build_runner_def)
qed

section \<open>Ceilings from roots\<close>

lemma common_prefix_iff: "prefix c (common_prefix xs ys) \<longleftrightarrow> prefix c xs \<and> prefix c ys"
  by (induction xs ys arbitrary: c rule: common_prefix.induct) (case_tac c; auto)+

lemma fold_common_prefix: "prefix c (foldl common_prefix p ps) \<longleftrightarrow> prefix c p \<and> (\<forall>q \<in> set ps. prefix c q)"
  by (induction ps arbitrary: p) (auto simp: common_prefix_iff)

text \<open>
  A ceiling derived from roots is the deepest folder that contains every file root of the
  client, and passes the ceiling check.
\<close>

theorem roots_ceiling_is_meet:
  assumes "derive_ceiling_from_roots h listed = ok (Some c)"
  shows "\<exists>uris ps. listed = Some uris \<and> root_paths h uris = ok ps \<and> ps \<noteq> [] \<and>
    is_ok (validate_ceiling h (rpath_path c)) \<and>
    list_all (prefix c) ps \<and> list_all (\<lambda>n. list_ex (\<lambda>p. \<not> prefix (take n (hd ps)) p) ps) [Suc (length c)..<Suc (length (hd ps))]"
proof -
  from assms obtain uris ps where u: "listed = Some uris" "root_paths h uris = ok ps" "ps \<noteq> []"
      "c = foldl common_prefix (hd ps) (tl ps)" "is_ok (validate_ceiling h (rpath_path c))"
    by (auto simp: derive_ceiling_from_roots_def Let_def split: option.splits if_splits)
  then obtain p qs where ps: "ps = p # qs" by (cases ps) auto
  have meet: "prefix x c \<longleftrightarrow> (\<forall>q \<in> set ps. prefix x q)" for x
    using fold_common_prefix [of x p qs] u(4) by (simp add: ps)
  have "list_ex (\<lambda>q. \<not> prefix (take n (hd ps)) q) ps" if "n \<in> {Suc (length c)..length (hd ps)}" for n
  proof (rule ccontr)
    assume "\<not> list_ex (\<lambda>q. \<not> prefix (take n (hd ps)) q) ps"
    then have "prefix (take n (hd ps)) c" by (simp add: meet list_ex_iff)
    then have "n \<le> length c" using that prefix_length_le by fastforce
    with that show False by simp
  qed
  then have "list_all (\<lambda>n. list_ex (\<lambda>p. \<not> prefix (take n (hd ps)) p) ps) [Suc (length c)..<Suc (length (hd ps))]"
    by (auto simp: list_all_iff)
  moreover have "list_all (prefix c) ps" using meet [of c] by (simp add: list_all_iff)
  ultimately show ?thesis using u by blast
qed

theorem roots_ceiling_is_meet_witness:
  "\<exists>ps. root_paths default_host [''file:///w/a'', ''file:///w/b'', ''http://x''] = ok ps \<and> list_all (prefix [''w'']) ps"
proof -
  have "derive_ceiling_from_roots default_host (Some [''file:///w/a'', ''file:///w/b'', ''http://x'']) = ok (Some [''w''])"
    by code_simp
  from roots_ceiling_is_meet [OF this] show ?thesis by auto
qed

text \<open>
  Two project folders without a common parent open the whole disk: the ceiling derived from
  them is the root directory, which the ceiling check lets through even with system
  directories disallowed.
\<close>

theorem unrelated_roots_open_the_disk:
  "let h = default_host\<lparr>environ := [''HARES_DISALLOW_SYSTEM_DIRS'' \<mapsto> ''1'']\<rparr> in
   derive_ceiling_from_roots h (Some [''file:///srv/app'', ''file:///home/dev/lib'']) = ok (Some [])"
  by code_simp

end
