(* ===== verification/Scope_State.thy ===== *)
theory Scope_State
  imports Path_Safety Json
begin

text \<open>
  \<open>hares/fs/state.py\<close>: the active scope, its compare-and-swap update, the canonical payload
  its HMAC signs, and its persistence through a write-ahead file, with the crash points of a
  save. The HMAC function (HMAC-SHA256 as a hex digest) is the argument \<open>mac\<close>, taken with
  the key already applied; \<open>ts_ok\<close> is \<open>datetime.fromisoformat\<close>'s acceptance of a timestamp.
  Lemmas: the payload determines its fields; a saved scope loads back; a crash at any point
  of a save loses at most that save; a loaded scope carries the MAC of exactly its fields.
\<close>

section \<open>The signed payload\<close>

definition STATE_VERSION :: int where
  "STATE_VERSION = 3"

text \<open>\<open>str.encode("utf-8")\<close> for code points below 256.\<close>

definition utf8_chr :: "char \<Rightarrow> string" where
  "utf8_chr c = (let n = (of_char c :: nat) in
     if n < 128 then [c] else [char_of (192 + n div 64), char_of (128 + n mod 64)])"

definition utf8 :: "string \<Rightarrow> string" where
  "utf8 s = concat (map utf8_chr s)"

abbreviation NUL :: char where
  "NUL \<equiv> CHR 0x00"

definition field_sep :: string where
  "field_sep = [NUL, CHR 0x01, NUL]"

definition canonical_hmac_payload ::
  "int \<Rightarrow> string option \<Rightarrow> string \<Rightarrow> int \<Rightarrow> string list \<Rightarrow> string" where
  "canonical_hmac_payload version sid ceiling sq sorted_paths =
     join_str field_sep
       [utf8 (int_str version),
        utf8 (case sid of None \<Rightarrow> [] | Some s \<Rightarrow> s),
        utf8 ceiling,
        utf8 (int_str sq),
        join_str [NUL] (map utf8 sorted_paths)]"

definition compute_state_hmac ::
  "(string \<Rightarrow> string) \<Rightarrow> int \<Rightarrow> string option \<Rightarrow> string \<Rightarrow> int \<Rightarrow> string list \<Rightarrow> string" where
  "compute_state_hmac mac version sid ceiling sq sorted_paths =
     mac (canonical_hmac_payload version sid ceiling sq sorted_paths)"

text \<open>The key: the pinned environment value, else a per-process random one, drawn on first
  use and kept.\<close>

definition state_hmac_secret ::
  "host \<Rightarrow> string option \<Rightarrow> string \<Rightarrow> string \<times> string option" where
  "state_hmac_secret h fallback token =
     (let pinned = strip_str (getenv h ''HARES_STATE_HMAC_SECRET'' []) in
      if pinned \<noteq> [] then (utf8 pinned, fallback)
      else case fallback of Some k \<Rightarrow> (k, fallback) | None \<Rightarrow> (token, Some token))"

lemma state_hmac_secret_stable:
  "state_hmac_secret h fb t = (k, fb') \<Longrightarrow> state_hmac_secret h fb' t' = (k, fb')"
  by (auto simp: state_hmac_secret_def Let_def split: if_splits option.splits)

section \<open>The active scope and its store\<close>

record active_scope =
  paths :: "rpath list"
  last_restrict_at :: "string option"
  scope_id :: "string option"
  ceiling :: "rpath option"
  seqno :: int

text \<open>The state file and its write-ahead companion.\<close>

record state_disk =
  main_file :: "file_content option"
  wal_file :: "file_content option"

record store_cfg =
  cfg_scope_id :: "string option"
  cfg_ceiling :: rpath
  cfg_persist :: bool   \<comment> \<open>a state file is configured\<close>

record scope_store =
  cfg :: store_cfg
  scope :: active_scope
  sdisk :: state_disk

definition empty_scope :: "store_cfg \<Rightarrow> active_scope" where
  "empty_scope c = \<lparr>paths = [], last_restrict_at = None, scope_id = cfg_scope_id c,
     ceiling = Some (cfg_ceiling c), seqno = 0\<rparr>"

definition sorted_strs :: "rpath list \<Rightarrow> string list" where
  "sorted_strs ps = sort (map rpath_str ps)"

definition sign_scope :: "(string \<Rightarrow> string) \<Rightarrow> store_cfg \<Rightarrow> int \<Rightarrow> rpath list \<Rightarrow> string" where
  "sign_scope mac c sq ps =
     compute_state_hmac mac STATE_VERSION (cfg_scope_id c) (rpath_str (cfg_ceiling c)) sq (sorted_strs ps)"

definition save_doc :: "(string \<Rightarrow> string) \<Rightarrow> store_cfg \<Rightarrow> active_scope \<Rightarrow> json" where
  "save_doc mac c s =
     JObj [(''version'', JInt STATE_VERSION),
           (''scope_id'', json_of_opt (cfg_scope_id c)),
           (''ceiling'', JStr (rpath_str (cfg_ceiling c))),
           (''active_paths'', JList (map JStr (sorted_strs (paths s)))),
           (''seq'', JInt (seqno s)),
           (''hmac'', JStr (sign_scope mac c (seqno s) (paths s))),
           (''last_restrict_at'', json_of_opt (last_restrict_at s))]"

text \<open>The states of the disk a save passes through: the write-ahead file partly written,
  complete, renamed over the state file.\<close>

definition save_steps ::
  "(string \<Rightarrow> string) \<Rightarrow> store_cfg \<Rightarrow> active_scope \<Rightarrow> state_disk \<Rightarrow> state_disk list" where
  "save_steps mac c s d =
     (let doc = Doc (save_doc mac c s) in
      [d\<lparr>wal_file := Some Blank\<rparr>,
       d\<lparr>wal_file := Some Corrupt\<rparr>,
       d\<lparr>wal_file := Some doc\<rparr>,
       d\<lparr>main_file := Some doc, wal_file := None\<rparr>])"

definition save :: "(string \<Rightarrow> string) \<Rightarrow> store_cfg \<Rightarrow> active_scope \<Rightarrow> state_disk \<Rightarrow> state_disk" where
  "save mac c s d = last (save_steps mac c s d)"

definition json_path :: "host \<Rightarrow> json \<Rightarrow> rpath result" where
  "json_path h j = (case j of
      JStr s \<Rightarrow> from_option (RuntimeError s) (resolve_on h (path_of s))
    | _ \<Rightarrow> raise_err (TypeError ''path''))"

definition is_ascii :: "string \<Rightarrow> bool" where
  "is_ascii s = list_all (\<lambda>c. (of_char c :: nat) < 128) s"

definition parse_ts :: "(string \<Rightarrow> bool) \<Rightarrow> json \<Rightarrow> string option result" where
  "parse_ts ts_ok j =
     (if \<not> truthy j then ok None
      else case j of JStr s \<Rightarrow> ok (if ts_ok s then Some s else None)
           | _ \<Rightarrow> raise_err (TypeError ''fromisoformat''))"

text \<open>The checks of \<open>_try_load_one\<close> after the document is parsed, in the source's order;
  \<open>ok None\<close> is a rejection, \<open>Inl\<close> an exception that escapes it.\<close>

definition load_obj ::
  "host \<Rightarrow> (string \<Rightarrow> string) \<Rightarrow> (string \<Rightarrow> bool) \<Rightarrow> store_cfg \<Rightarrow> (string \<times> json) list
   \<Rightarrow> active_scope option result" where
  "load_obj h mac ts_ok c data =
     (if jget data ''version'' \<noteq> JInt STATE_VERSION then ok None
      else if jget data ''scope_id'' \<noteq> json_of_opt (cfg_scope_id c) then ok None
      else let stored_ceiling = (case map_of data ''ceiling'' of
                 Some (JStr s) \<Rightarrow> resolve_on h (path_of s) | _ \<Rightarrow> None) in
      if stored_ceiling \<noteq> Some (cfg_ceiling c) then ok None
      else
        rbind (json_iter (case map_of data ''active_paths'' of None \<Rightarrow> JList [] | Some v \<Rightarrow> v)) (\<lambda>items.
        rbind (collect (json_path h) items) (\<lambda>ps.
        rbind (parse_ts ts_ok (jget data ''last_restrict_at'')) (\<lambda>ts.
        case map_of data ''seq'' of None \<Rightarrow> ok None
        | Some seq_raw \<Rightarrow>
            (case json_int seq_raw of None \<Rightarrow> ok None
             | Some sq \<Rightarrow>
                 if sq < 0 then ok None
                 else case jget data ''hmac'' of
                   JStr claimed \<Rightarrow>
                     if claimed = [] then ok None
                     else if \<not> is_ascii claimed then raise_err (TypeError ''compare_digest'')
                     else if claimed \<noteq> sign_scope mac c sq ps then ok None
                     else ok (Some \<lparr>paths = ps, last_restrict_at = ts, scope_id = cfg_scope_id c,
                                   ceiling = Some (cfg_ceiling c), seqno = sq\<rparr>)
                 | _ \<Rightarrow> ok None)))))"

definition try_load_one ::
  "host \<Rightarrow> (string \<Rightarrow> string) \<Rightarrow> (string \<Rightarrow> bool) \<Rightarrow> store_cfg \<Rightarrow> file_content option
   \<Rightarrow> active_scope option result" where
  "try_load_one h mac ts_ok c content =
     (case content of None \<Rightarrow> ok None
      | Some BadUtf8 \<Rightarrow> raise_err (ValueError ''UnicodeDecodeError'')
      | Some Blank \<Rightarrow> ok None
      | Some Corrupt \<Rightarrow> ok None
      | Some (Doc j) \<Rightarrow> (case j of JObj data \<Rightarrow> load_obj h mac ts_ok c data
                         | _ \<Rightarrow> raise_err (AttributeError ''get'')))"

text \<open>\<open>_load_or_default\<close>: the recovered scope and the disk it leaves (write-ahead file
  committed, or removed).\<close>

definition load_or_default ::
  "host \<Rightarrow> (string \<Rightarrow> string) \<Rightarrow> (string \<Rightarrow> bool) \<Rightarrow> store_cfg \<Rightarrow> state_disk
   \<Rightarrow> (active_scope \<times> state_disk) result" where
  "load_or_default h mac ts_ok c d =
     (if \<not> cfg_persist c then ok (empty_scope c, d)
      else
        rbind (try_load_one h mac ts_ok c (main_file d)) (\<lambda>main_scope.
        rbind (try_load_one h mac ts_ok c (wal_file d)) (\<lambda>wal_scope.
        case wal_scope of
          Some w \<Rightarrow>
            (if (case main_scope of None \<Rightarrow> True | Some m \<Rightarrow> seqno w > seqno m)
             then ok (w, d\<lparr>main_file := wal_file d, wal_file := None\<rparr>)
             else (case main_scope of Some m \<Rightarrow> ok (m, d\<lparr>wal_file := None\<rparr>)
                   | None \<Rightarrow> ok (empty_scope c, d\<lparr>wal_file := None\<rparr>)))
        | None \<Rightarrow>
            (case main_scope of Some m \<Rightarrow> ok (m, d\<lparr>wal_file := None\<rparr>)
             | None \<Rightarrow> ok (empty_scope c, d\<lparr>wal_file := None\<rparr>)))))"

definition store_init ::
  "host \<Rightarrow> (string \<Rightarrow> string) \<Rightarrow> (string \<Rightarrow> bool) \<Rightarrow> store_cfg \<Rightarrow> state_disk \<Rightarrow> scope_store result" where
  "store_init h mac ts_ok c d =
     rbind (load_or_default h mac ts_ok c d) (\<lambda>(s, d').
     ok \<lparr>cfg = c, scope = s, sdisk = d'\<rparr>)"

definition store_set ::
  "host \<Rightarrow> (string \<Rightarrow> string) \<Rightarrow> string \<Rightarrow> scope_store \<Rightarrow> ppath list \<Rightarrow> int option \<Rightarrow> scope_store result" where
  "store_set h mac now st ps expected_seq =
     (if expected_seq \<noteq> None \<and> expected_seq \<noteq> Some (seqno (scope st))
      then raise_err (ScopeSeqMismatch (the expected_seq) (seqno (scope st)))
      else
        rbind (collect (\<lambda>p. from_option (RuntimeError (ppath_str p)) (resolve_on h p)) ps) (\<lambda>rps.
        let new = \<lparr>paths = rps, last_restrict_at = Some now, scope_id = cfg_scope_id (cfg st),
                   ceiling = Some (cfg_ceiling (cfg st)), seqno = seqno (scope st) + 1\<rparr>
        in ok (st\<lparr>scope := new,
                  sdisk := (if cfg_persist (cfg st) then save mac (cfg st) new (sdisk st) else sdisk st)\<rparr>)))"

section \<open>The payload determines its fields\<close>

lemma cut_at_NUL:
  "z \<notin> set a \<Longrightarrow> z \<notin> set b \<Longrightarrow> a @ z # x = b @ z # y \<longleftrightarrow> a = b \<and> x = y"
proof (induction a arbitrary: b)
  case Nil
  then show ?case by (cases b) auto
next
  case (Cons c a)
  then show ?case by (cases b) auto
qed

lemma of_char_NUL_char: "(of_char NUL :: nat) = 0"
  by simp

lemma utf8_chr_facts:
  "utf8_chr c \<noteq> []" "c \<noteq> NUL \<Longrightarrow> NUL \<notin> set (utf8_chr c)"
proof -
  show "utf8_chr c \<noteq> []" by (simp add: utf8_chr_def Let_def)
  assume c: "c \<noteq> NUL"
  have nz: "NUL \<noteq> char_of k" if "0 < k" "k < (256::nat)" for k
  proof
    assume "NUL = char_of k"
    then have "(of_char (char_of k :: char) :: nat) = 0" by (metis of_char_NUL_char)
    with that show False by (simp add: of_char_of)
  qed
  have n: "(of_char c :: nat) < 256" by simp
  then have "192 + (of_char c :: nat) div 64 < 256" "128 + (of_char c :: nat) mod 64 < 256"
    using mod_less_divisor [of 64 "of_char c :: nat"] by linarith+
  then show "NUL \<notin> set (utf8_chr c)"
    using c nz by (auto simp: utf8_chr_def Let_def)
qed

lemma utf8_chr_prefix_code:
  assumes "utf8_chr c @ x = utf8_chr d @ y"
  shows "c = d \<and> x = y"
proof -
  let ?n = "of_char c :: nat" and ?m = "of_char d :: nat"
  have lt: "?n < 256" "?m < 256" by simp_all
  have q: "?n div 64 < 4" "?m div 64 < 4" using lt by linarith+
  have chr: "char_of k = (char_of l :: char) \<Longrightarrow> k < 256 \<Longrightarrow> l < 256 \<Longrightarrow> k = l" for k l :: nat
    by (metis of_char_of mod_less)
  show ?thesis
  proof (cases "?n < 128")
    case True
    show ?thesis
    proof (cases "?m < 128")
      case True
      with \<open>?n < 128\<close> assms show ?thesis by (simp add: utf8_chr_def)
    next
      case False
      with \<open>?n < 128\<close> assms have "c = char_of (192 + ?m div 64)" by (simp add: utf8_chr_def Let_def)
      then have "?n = 192 + ?m div 64" using q by (simp add: of_char_of)
      with \<open>?n < 128\<close> show ?thesis by simp
    qed
  next
    case n: False
    show ?thesis
    proof (cases "?m < 128")
      case True
      with n assms have "d = char_of (192 + ?n div 64)" by (simp add: utf8_chr_def Let_def)
      then have "?m = 192 + ?n div 64" using q by (simp add: of_char_of)
      with True show ?thesis by simp
    next
      case False
      with n assms have e: "char_of (192 + ?n div 64) = (char_of (192 + ?m div 64) :: char)"
        "char_of (128 + ?n mod 64) = (char_of (128 + ?m mod 64) :: char)" "x = y"
        by (simp_all add: utf8_chr_def Let_def)
      have "?n div 64 = ?m div 64" using chr [OF e(1)] q by simp
      moreover have "?n mod 64 = ?m mod 64"
      proof -
        have "?n mod 64 < 64" "?m mod 64 < 64" by simp_all
        then show ?thesis using chr [OF e(2)] by linarith
      qed
      ultimately have "?n = ?m" by (metis div_mult_mod_eq)
      with e(3) show ?thesis by (metis char_of_char)
    qed
  qed
qed

lemma utf8_inj [simp]: "utf8 s = utf8 t \<longleftrightarrow> s = t"
proof
  show "utf8 s = utf8 t \<Longrightarrow> s = t"
  proof (induction s arbitrary: t)
    case Nil
    then show ?case by (cases t) (auto simp: utf8_def utf8_chr_facts)
  next
    case (Cons c s)
    then obtain d t' where t: "t = d # t'"
      by (cases t) (auto simp: utf8_def utf8_chr_facts)
    with Cons.prems have "utf8_chr c @ utf8 s = utf8_chr d @ utf8 t'" by (simp add: utf8_def)
    from utf8_chr_prefix_code [OF this] Cons.IH t show ?case by simp
  qed
qed simp

definition nul_free :: "string \<Rightarrow> bool" where
  "nul_free s \<longleftrightarrow> NUL \<notin> set s"

lemma utf8_nul_free [simp]: "nul_free s \<Longrightarrow> NUL \<notin> set (utf8 s)"
proof
  assume s: "nul_free s" and "NUL \<in> set (utf8 s)"
  then obtain c where "c \<in> set s" "NUL \<in> set (utf8_chr c)" unfolding utf8_def by auto
  with s utf8_chr_facts(2) [of c] show False unfolding nul_free_def by metis
qed

lemma utf8_eq_Nil [simp]: "utf8 s = [] \<longleftrightarrow> s = []"
  by (cases s) (simp_all add: utf8_def utf8_chr_facts)

lemma digit_ne_NUL: "d < 10 \<Longrightarrow> digit_chr d \<noteq> NUL"
proof
  assume "d < 10" "digit_chr d = NUL"
  then have "48 + d = (of_char NUL :: nat)" using of_char_digit_chr [of d] by metis
  then show False by (simp only: of_char_NUL_char)
qed

lemma int_str_nul_free [simp]: "nul_free (int_str i)"
proof -
  have n: "NUL \<notin> set (nat_str k)" for k
    using nat_str_digits [of NUL k] digit_ne_NUL by metis
  show ?thesis by (simp add: nul_free_def int_str_def n)
qed

lemma join_paths_inj:
  assumes "\<forall>p \<in> set ps. p \<noteq> [] \<and> nul_free p" "\<forall>p \<in> set qs. p \<noteq> [] \<and> nul_free p"
  shows "join_str [NUL] (map utf8 ps) = join_str [NUL] (map utf8 qs) \<longleftrightarrow> ps = qs"
proof
  assume e: "join_str [NUL] (map utf8 ps) = join_str [NUL] (map utf8 qs)"
  have ne: "xs \<noteq> [] \<Longrightarrow> \<forall>p \<in> set xs. p \<noteq> [] \<Longrightarrow> join_str [NUL] (map utf8 xs) \<noteq> []" for xs
    by (cases xs; cases "tl xs") auto
  have split: "xs \<noteq> [] \<Longrightarrow> \<forall>p \<in> set xs. nul_free p \<Longrightarrow>
    split_on NUL (join_str [NUL] (map utf8 xs)) = map utf8 xs" for xs
    by (rule split_join) auto
  have "ps = [] \<longleftrightarrow> qs = []"
    using e ne [of ps] ne [of qs] assms by (metis join_str.simps(1) list.simps(8))
  moreover have "ps \<noteq> [] \<Longrightarrow> qs \<noteq> [] \<Longrightarrow> map utf8 ps = map utf8 qs"
    using split [of ps] split [of qs] e assms by metis
  moreover have "map utf8 ps = map utf8 qs \<Longrightarrow> ps = qs"
    by (metis inj_map_eq_map inj_onI utf8_inj)
  ultimately show "ps = qs" by (cases "ps = []") auto
qed simp

lemma payload_inj:
  assumes "nul_free c" "nul_free c'" "nul_free (case i of None \<Rightarrow> [] | Some s \<Rightarrow> s)"
    "nul_free (case i' of None \<Rightarrow> [] | Some s \<Rightarrow> s)"
    and "\<forall>p \<in> set ps. p \<noteq> [] \<and> nul_free p" "\<forall>p \<in> set ps'. p \<noteq> [] \<and> nul_free p"
    and "canonical_hmac_payload v i c q ps = canonical_hmac_payload v' i' c' q' ps'"
  shows "v = v' \<and> (case i of None \<Rightarrow> [] | Some s \<Rightarrow> s) = (case i' of None \<Rightarrow> [] | Some s \<Rightarrow> s)
    \<and> c = c' \<and> q = q' \<and> ps = ps'"
  using assms(7)
  by (simp add: canonical_hmac_payload_def field_sep_def cut_at_NUL assms(1-4) join_paths_inj [OF assms(5,6)])

text \<open>
  The canonical payload the HMAC signs determines the version, the scope id (with
  \<open>None\<close> read as the empty string), the ceiling, the sequence number and the list of paths:
  no two different states with NUL-free fields sign the same bytes.
\<close>

theorem canonical_payload_determines_fields:
  assumes "nul_free c" "nul_free c'" "nul_free (case i of None \<Rightarrow> [] | Some s \<Rightarrow> s)"
    "nul_free (case i' of None \<Rightarrow> [] | Some s \<Rightarrow> s)"
    and "\<forall>p \<in> set ps. p \<noteq> [] \<and> nul_free p" "\<forall>p \<in> set ps'. p \<noteq> [] \<and> nul_free p"
    and "canonical_hmac_payload v i c q ps = canonical_hmac_payload v' i' c' q' ps'"
  shows "v = v' \<and> (case i of None \<Rightarrow> [] | Some s \<Rightarrow> s) = (case i' of None \<Rightarrow> [] | Some s \<Rightarrow> s)
    \<and> c = c' \<and> q = q' \<and> ps = ps'"
  using assms(7) by (rule payload_inj [OF assms(1-6)])

theorem canonical_payload_determines_fields_witness:
  "(3 :: int) = 3 \<and> (case (None :: string option) of None \<Rightarrow> [] | Some s \<Rightarrow> s) = (case Some '''' of None \<Rightarrow> [] | Some s \<Rightarrow> s)
    \<and> ''/work'' = ''/work'' \<and> (7 :: int) = 7 \<and> [''/work/a''] = [''/work/a'']"
  by (rule canonical_payload_determines_fields [where c = "''/work''" and c' = "''/work''" and i = None and i' = "Some []"])
    (simp_all add: nul_free_def canonical_hmac_payload_def)

section \<open>Saving and loading\<close>

text \<open>\<open>hexdigest\<close> returns a non-empty ASCII string.\<close>

definition mac_hex :: "(string \<Rightarrow> string) \<Rightarrow> bool" where
  "mac_hex mac \<longleftrightarrow> (\<forall>x. mac x \<noteq> [] \<and> is_ascii (mac x))"

definition scope_wf :: "host \<Rightarrow> (string \<Rightarrow> bool) \<Rightarrow> store_cfg \<Rightarrow> active_scope \<Rightarrow> bool" where
  "scope_wf h ts_ok c s \<longleftrightarrow>
     resolved_on h (cfg_ceiling c) \<and> list_all (resolved_on h) (paths s) \<and> 0 \<le> seqno s \<and>
     scope_id s = cfg_scope_id c \<and> ceiling s = Some (cfg_ceiling c) \<and>
     (case last_restrict_at s of None \<Rightarrow> True | Some t \<Rightarrow> t \<noteq> [] \<and> ts_ok t)"

text \<open>What a reload makes of a saved scope: the same paths, in the order of their strings.\<close>

definition canon_scope :: "active_scope \<Rightarrow> active_scope" where
  "canon_scope s = s\<lparr>paths := sort_key rpath_str (paths s)\<rparr>"

lemma sorted_strs_alt: "sorted_strs ps = map rpath_str (sort_key rpath_str ps)"
  unfolding sorted_strs_def by (rule properties_for_sort) simp_all

lemma sorted_strs_sort_key [simp]: "sorted_strs (sort_key rpath_str ps) = sorted_strs ps"
  unfolding sorted_strs_def by (rule properties_for_sort [symmetric]) simp_all

lemma sign_scope_sort_key [simp]: "sign_scope mac c q (sort_key rpath_str ps) = sign_scope mac c q ps"
  by (simp add: sign_scope_def)

lemma collect_json_paths:
  "list_all (resolved_on h) ps \<Longrightarrow> collect (json_path h) (map JStr (map rpath_str ps)) = ok ps"
  by (induction ps) (auto simp: json_path_def resolved_on_def path_of_rpath_str)

lemma parse_ts_json_of_opt:
  "(case t of None \<Rightarrow> True | Some x \<Rightarrow> x \<noteq> [] \<and> ts_ok x) \<Longrightarrow> parse_ts ts_ok (json_of_opt t) = ok t"
  by (auto simp: parse_ts_def json_of_opt_def split: option.splits)

lemma load_save_doc:
  assumes wf: "scope_wf h ts_ok c s" and mac: "mac_hex mac"
  shows "try_load_one h mac ts_ok c (Some (Doc (save_doc mac c s))) = ok (Some (canon_scope s))"
proof -
  let ?ps = "sort_key rpath_str (paths s)"
  have ps: "list_all (resolved_on h) ?ps"
    using wf by (simp add: scope_wf_def list_all_iff)
  have ceil: "resolve_on h (path_of (rpath_str (cfg_ceiling c))) = Some (cfg_ceiling c)"
    using wf by (simp add: scope_wf_def resolved_on_def path_of_rpath_str)
  have ts: "parse_ts ts_ok (json_of_opt (last_restrict_at s)) = ok (last_restrict_at s)"
    using wf by (intro parse_ts_json_of_opt) (simp add: scope_wf_def)
  have sig: "sign_scope mac c (seqno s) (paths s) \<noteq> []" "is_ascii (sign_scope mac c (seqno s) (paths s))"
    using mac by (simp_all add: mac_hex_def sign_scope_def compute_state_hmac_def)
  have col: "collect (json_path h) (map JStr (sorted_strs (paths s))) = ok ?ps"
    using collect_json_paths [OF ps] by (simp add: sorted_strs_alt)
  show ?thesis
    using wf by (simp add: try_load_one_def save_doc_def load_obj_def ceil ts sig col scope_wf_def canon_scope_def)
qed

text \<open>A scope saved to the state file is what the next start restores: the same
  sequence number, timestamp and paths (in sorted order), with the write-ahead file gone.\<close>

lemma load_after_save:
  assumes "scope_wf h ts_ok c s" "mac_hex mac" "cfg_persist c"
  shows "load_or_default h mac ts_ok c (save mac c s d) =
    ok (canon_scope s, save mac c s d)"
  using load_save_doc [OF assms(1,2)] assms(3)
  by (simp add: load_or_default_def save_def save_steps_def Let_def try_load_one_def)

section \<open>Crash recovery\<close>

text \<open>A disk as a completed save or a first start leaves it.\<close>

definition settled ::
  "host \<Rightarrow> (string \<Rightarrow> string) \<Rightarrow> (string \<Rightarrow> bool) \<Rightarrow> store_cfg \<Rightarrow> active_scope \<Rightarrow> state_disk \<Rightarrow> bool" where
  "settled h mac ts_ok c s d \<longleftrightarrow> wal_file d = None \<and>
     (main_file d = None \<and> s = empty_scope c \<or>
      main_file d = Some (Doc (save_doc mac c s)) \<and> scope_wf h ts_ok c s)"

lemma load_settled:
  assumes "settled h mac ts_ok c s d" "mac_hex mac" "cfg_persist c"
  shows "load_or_default h mac ts_ok c d = ok (canon_scope s, d)"
proof -
  have d: "d\<lparr>wal_file := None\<rparr> = d" if "wal_file d = None" using that by simp
  show ?thesis
    using assms load_save_doc [of h ts_ok c s mac]
    by (auto simp: settled_def load_or_default_def try_load_one_def canon_scope_def empty_scope_def d)
qed

text \<open>
  C13: when the process dies at any point of a save of the next scope, the next start
  restores either the scope that was saved before or the new one, never an older or empty
  one; once the write-ahead file is complete it restores exactly the new one, so the
  sequence number never falls behind what a reader was shown after the save.
\<close>

theorem crash_during_save:
  assumes old: "settled h mac ts_ok c s d" and new: "scope_wf h ts_ok c s'"
    and sq: "seqno s' = seqno s + 1" and mac: "mac_hex mac" and per: "cfg_persist c"
    and i: "i < length (save_steps mac c s' d)"
  shows "\<exists>d'. load_or_default h mac ts_ok c (save_steps mac c s' d ! i) =
    ok (canon_scope (if i < 2 then s else s'), d')"
proof -
  have main: "try_load_one h mac ts_ok c (main_file d) =
      ok (if main_file d = None then None else Some (canon_scope s))"
    using old load_save_doc [OF _ mac, of h ts_ok c s] by (auto simp: settled_def try_load_one_def)
  have none: "main_file d = None \<Longrightarrow> canon_scope s = empty_scope c"
    using old by (auto simp: settled_def canon_scope_def empty_scope_def)
  have wal: "try_load_one h mac ts_ok c (Some (Doc (save_doc mac c s'))) = ok (Some (canon_scope s'))"
    by (rule load_save_doc [OF new mac])
  have blank: "try_load_one h mac ts_ok c None = ok None"
    "try_load_one h mac ts_ok c (Some Blank) = ok None"
    "try_load_one h mac ts_ok c (Some Corrupt) = ok None"
    by (simp_all add: try_load_one_def)
  have len: "i = 0 \<or> i = 1 \<or> i = 2 \<or> i = 3"
    using i by (auto simp: save_steps_def Let_def)
  have seqs: "seqno (canon_scope s') > seqno (canon_scope s)"
    using sq by (simp add: canon_scope_def)
  show ?thesis
    using len by (elim disjE)
      (simp_all add: save_steps_def Let_def load_or_default_def per main wal blank none seqs)
qed

text \<open>A site for the examples: no environment, a workspace directory, a constant MAC.\<close>

definition state_host :: host where
  "state_host = \<lparr>environ = (\<lambda>_. None), cwd = ''/work'', disk = [([''work''], DirN)],
     pw_home = (\<lambda>_. None), uid_home = None\<rparr>"

definition state_cfg :: store_cfg where
  "state_cfg = \<lparr>cfg_scope_id = Some ''src'', cfg_ceiling = [''work''], cfg_persist = True\<rparr>"

definition state_scope :: "int \<Rightarrow> rpath list \<Rightarrow> active_scope" where
  "state_scope q ps = \<lparr>paths = ps, last_restrict_at = Some ''2026'', scope_id = Some ''src'',
     ceiling = Some [''work''], seqno = q\<rparr>"

lemma state_mac: "mac_hex (\<lambda>_. ''m'')"
  by (simp add: mac_hex_def is_ascii_def)

theorem crash_during_save_witness:
  "\<exists>d'. load_or_default state_host (\<lambda>_. ''m'') (\<lambda>_. True) state_cfg
      (save_steps (\<lambda>_. ''m'') state_cfg (state_scope 1 [[''work'', ''b''], [''work'', ''a'']])
        \<lparr>main_file = None, wal_file = None\<rparr> ! 1) =
    ok (canon_scope (if (1::nat) < 2 then empty_scope state_cfg
      else state_scope 1 [[''work'', ''b''], [''work'', ''a'']]), d')"
proof (rule crash_during_save)
  show "settled state_host (\<lambda>_. ''m'') (\<lambda>_. True) state_cfg (empty_scope state_cfg)
      \<lparr>main_file = None, wal_file = None\<rparr>" by (simp add: settled_def)
  show "scope_wf state_host (\<lambda>_. True) state_cfg (state_scope 1 [[''work'', ''b''], [''work'', ''a'']])"
    by code_simp
qed (simp_all add: state_mac, (code_simp)+)

section \<open>What an accepted file proves\<close>

text \<open>
  C15: a state file the loader accepts carries the MAC of exactly the version, instance,
  sequence number and paths it is loaded with; its version, scope id and ceiling are this
  instance's, and its sequence number is not negative.
\<close>

theorem load_authentic:
  assumes "try_load_one h mac ts_ok c content = ok (Some s)"
  shows "\<exists>data. content = Some (Doc (JObj data)) \<and>
    jget data ''hmac'' = JStr (sign_scope mac c (seqno s) (paths s)) \<and>
    jget data ''version'' = JInt STATE_VERSION \<and>
    scope_id s = cfg_scope_id c \<and> ceiling s = Some (cfg_ceiling c) \<and> 0 \<le> seqno s"
proof -
  from assms obtain data where d: "content = Some (Doc (JObj data))"
    and l: "load_obj h mac ts_ok c data = ok (Some s)"
    by (auto simp: try_load_one_def split: option.splits file_content.splits json.splits)
  from l show ?thesis
    by (auto simp: d load_obj_def Let_def simp del: jget.simps
        split: if_splits option.splits json.splits)
qed

theorem load_authentic_witness:
  "\<exists>data. Some (Doc (save_doc (\<lambda>_. ''m'') state_cfg (state_scope 4 []))) = Some (Doc (JObj data)) \<and>
    jget data ''hmac'' = JStr (sign_scope (\<lambda>_. ''m'') state_cfg
      (seqno (state_scope 4 [])) (paths (state_scope 4 []))) \<and>
    jget data ''version'' = JInt STATE_VERSION \<and>
    scope_id (state_scope 4 []) = cfg_scope_id state_cfg \<and>
    ceiling (state_scope 4 []) = Some (cfg_ceiling state_cfg) \<and> 0 \<le> seqno (state_scope 4 [])"
  by (rule load_authentic [where h = state_host and ts_ok = "\<lambda>_. True"]) code_simp

text \<open>Documented behaviour of HMAC the code relies on: within the payloads at hand the MAC
  tells two inputs apart.\<close>

definition mac_separates :: "(string \<Rightarrow> string) \<Rightarrow> string \<Rightarrow> string \<Rightarrow> bool" where
  "mac_separates mac x y \<longleftrightarrow> (mac x = mac y \<longrightarrow> x = y)"

definition payload_of :: "store_cfg \<Rightarrow> int \<Rightarrow> rpath list \<Rightarrow> string" where
  "payload_of c q ps = canonical_hmac_payload STATE_VERSION (cfg_scope_id c) (rpath_str (cfg_ceiling c)) q (sorted_strs ps)"

text \<open>
  Fields of two signed states cannot be spliced. A file that carries the MAC issued for
  sequence number \<open>q\<close> and paths \<open>ps\<close> of this instance is accepted with that sequence number
  and those paths only, whatever else the file says.
\<close>

theorem load_rejects_splice:
  assumes "try_load_one h mac ts_ok c (Some (Doc (JObj data))) = ok (Some s)"
    and "jget data ''hmac'' = JStr (sign_scope mac c q ps)"
    and sep: "mac_separates mac (payload_of c q ps) (payload_of c (seqno s) (paths s))"
    and n: "nul_free (rpath_str (cfg_ceiling c))" "nul_free (case cfg_scope_id c of None \<Rightarrow> [] | Some i \<Rightarrow> i)"
      "\<forall>p \<in> set ps. nul_free (rpath_str p)" "\<forall>p \<in> set (paths s). nul_free (rpath_str p)"
  shows "seqno s = q \<and> sorted_strs (paths s) = sorted_strs ps"
proof -
  have ne: "rpath_str p \<noteq> []" for p by (simp add: rpath_str_def)
  from assms(1) have "load_obj h mac ts_ok c data = ok (Some s)"
    by (simp add: try_load_one_def)
  then have "jget data ''hmac'' = JStr (sign_scope mac c (seqno s) (paths s))"
    by (auto simp: load_obj_def Let_def simp del: jget.simps
        split: if_splits option.splits json.splits)
  with assms(2) have "sign_scope mac c q ps = sign_scope mac c (seqno s) (paths s)" by simp
  with sep have "payload_of c q ps = payload_of c (seqno s) (paths s)"
    by (simp add: mac_separates_def sign_scope_def compute_state_hmac_def payload_of_def)
  then show ?thesis
    using payload_inj [of "rpath_str (cfg_ceiling c)" "rpath_str (cfg_ceiling c)" "cfg_scope_id c"
        "cfg_scope_id c" "sorted_strs ps" "sorted_strs (paths s)" STATE_VERSION q STATE_VERSION "seqno s"]
      n ne by (simp add: payload_of_def sorted_strs_def)
qed

theorem load_rejects_splice_witness:
  "seqno (state_scope 4 [[''work'', ''a'']]) = 4 \<and>
   sorted_strs (paths (state_scope 4 [[''work'', ''a'']])) = sorted_strs [[''work'', ''a'']]"
proof (rule load_rejects_splice [where h = state_host and mac = "\<lambda>x. CHR ''m'' # map (\<lambda>_. CHR ''x'') x"
      and ts_ok = "\<lambda>_. True" and c = state_cfg])
  show "try_load_one state_host (\<lambda>x. CHR ''m'' # map (\<lambda>_. CHR ''x'') x) (\<lambda>_. True) state_cfg
      (Some (Doc (JObj [(''version'', JInt 3), (''scope_id'', JStr ''src''), (''ceiling'', JStr ''/work''),
        (''active_paths'', JList [JStr ''/work/a'']), (''seq'', JInt 4),
        (''hmac'', JStr (sign_scope (\<lambda>x. CHR ''m'' # map (\<lambda>_. CHR ''x'') x) state_cfg 4 [[''work'', ''a'']])),
        (''last_restrict_at'', JStr ''2026'')]))) = ok (Some (state_scope 4 [[''work'', ''a'']]))"
    by code_simp
qed (code_simp, simp add: mac_separates_def state_scope_def payload_of_def, code_simp+)

section \<open>Compare-and-swap updates\<close>

lemma store_set_ok:
  assumes "store_set h mac now st ps e = ok st'"
  shows "seqno (scope st') = seqno (scope st) + 1" "cfg st' = cfg st"
    "e = None \<or> e = Some (seqno (scope st))"
    "list_all2 (\<lambda>p r. resolve_on h p = Some r) ps (paths (scope st'))"
    "scope_id (scope st') = cfg_scope_id (cfg st)" "ceiling (scope st') = Some (cfg_ceiling (cfg st))"
    "sdisk st' = (if cfg_persist (cfg st) then save mac (cfg st) (scope st') (sdisk st) else sdisk st)"
    "last_restrict_at (scope st') = Some now"
  using assms by (cases "cfg_persist (cfg st)"; auto simp: store_set_def Let_def collect_ok split: if_splits)+

text \<open>A run of updates: each is a list of paths with an optional expected number; a refused
  update leaves the store as it was.\<close>

fun store_run ::
  "host \<Rightarrow> (string \<Rightarrow> string) \<Rightarrow> string \<Rightarrow> scope_store \<Rightarrow> (ppath list \<times> int option) list \<Rightarrow> scope_store \<times> nat" where
  "store_run h mac now st [] = (st, 0)"
| "store_run h mac now st ((ps, e) # us) =
     (case store_set h mac now st ps e of
        Inl _ \<Rightarrow> store_run h mac now st us
      | Inr st' \<Rightarrow> (let (st'', n) = store_run h mac now st' us in (st'', Suc n)))"

lemma run_seqno:
  "store_run h mac now st us = (st', n) \<Longrightarrow> seqno (scope st') = seqno (scope st) + int n"
proof (induction us arbitrary: st st' n)
  case Nil
  then show ?case by simp
next
  case (Cons u us)
  obtain ps e where u: "u = (ps, e)" by (cases u)
  show ?case
  proof (cases "store_set h mac now st ps e")
    case (Inl err)
    with Cons u show ?thesis by simp
  next
    case (Inr st1)
    obtain st2 m where r: "store_run h mac now st1 us = (st2, m)" by fastforce
    with Cons.prems u Inr have "st' = st2" "n = Suc m" by simp_all
    with Cons.IH [OF r] store_set_ok(1) [OF Inr] show ?thesis by simp
  qed
qed

text \<open>
  Over any sequence of \<open>set\<close> calls the sequence number grows by exactly the number
  of calls that succeeded: no update is lost and none is counted twice.
\<close>

theorem store_run_seqno:
  "seqno (scope (fst (store_run h mac now st us))) = seqno (scope st) + int (snd (store_run h mac now st us))"
  by (rule run_seqno) simp

lemma store_set_scope_wf:
  assumes "store_set h mac now st ps e = ok st'" "list_all ppath_ok ps" "now \<noteq> []" "ts_ok now"
    "resolved_on h (cfg_ceiling (cfg st))" "0 \<le> seqno (scope st)"
  shows "scope_wf h ts_ok (cfg st) (scope st')"
proof -
  have "list_all (resolved_on h) (paths (scope st'))"
    using store_set_ok(4) [OF assms(1)] assms(2)
    by (induction rule: list_all2_induct) (auto intro: resolved_onI)
  with store_set_ok [OF assms(1)] assms show ?thesis by (simp add: scope_wf_def)
qed

text \<open>The store and its disk agree: what is on disk is the scope in memory.\<close>

definition store_inv :: "host \<Rightarrow> (string \<Rightarrow> string) \<Rightarrow> (string \<Rightarrow> bool) \<Rightarrow> scope_store \<Rightarrow> bool" where
  "store_inv h mac ts_ok st \<longleftrightarrow> cfg_persist (cfg st) \<and> resolved_on h (cfg_ceiling (cfg st)) \<and>
     0 \<le> seqno (scope st) \<and> settled h mac ts_ok (cfg st) (scope st) (sdisk st)"

lemma store_set_inv [inv_facts]:
  assumes "store_inv h mac ts_ok st" "store_set h mac now st ps e = ok st'" "list_all ppath_ok ps"
    "now \<noteq> []" "ts_ok now"
  shows "store_inv h mac ts_ok st'"
proof -
  have "scope_wf h ts_ok (cfg st) (scope st')"
    using store_set_scope_wf [of h mac now st ps e st' ts_ok] assms by (simp add: store_inv_def)
  with store_set_ok [OF assms(2)] assms(1) show ?thesis
    by (simp add: store_inv_def settled_def save_def save_steps_def Let_def)
qed

lemma store_run_inv [inv_facts]:
  assumes "store_inv h mac ts_ok st" "list_all (\<lambda>(ps, e). list_all ppath_ok ps) us" "now \<noteq> []" "ts_ok now"
  shows "store_inv h mac ts_ok (fst (store_run h mac now st us))"
  using assms
proof (induction us arbitrary: st)
  case (Cons u us)
  obtain ps e where u: "u = (ps, e)" by (cases u)
  show ?case
  proof (cases "store_set h mac now st ps e")
    case (Inr st1)
    have "store_inv h mac ts_ok st1" using store_set_inv [OF _ Inr] Cons.prems u by simp
    from Cons.IH [OF this] Cons.prems u Inr show ?thesis by (simp add: case_prod_beta)
  qed (use Cons u in simp)
qed simp



text \<open>
  An update whose expected number is not the current one is refused with both
  numbers, before anything is resolved or written; one whose number matches is never
  refused for it.
\<close>

theorem store_set_cas:
  "store_set h mac now st ps (Some e) =
     (if e \<noteq> seqno (scope st) then Inl (ScopeSeqMismatch e (seqno (scope st)))
      else store_set h mac now st ps None)"
  by (simp add: store_set_def)

text \<open>
  A state file that holds valid JSON which is not an object, or bytes that are not
  UTF-8, is not treated as corrupt content that falls back to an empty scope: the exception
  escapes and the store cannot be constructed.
\<close>

theorem non_object_state_file_raises:
  assumes "cfg_persist c" "main_file d \<in> {Some (Doc (JList xs)), Some BadUtf8}"
  shows "\<exists>e. store_init h mac ts_ok c d = Inl e"
  using assms by (auto simp: store_init_def load_or_default_def try_load_one_def)

theorem non_object_state_file_raises_witness:
  "\<exists>e. store_init state_host (\<lambda>_. ''m'') (\<lambda>_. True) state_cfg
     \<lparr>main_file = Some (Doc (JList [])), wal_file = None\<rparr> = Inl e"
  by (rule non_object_state_file_raises [where xs = "[]"]) (simp_all add: state_cfg_def)

end
