(* ===== verification/Fs_Ops.thy ===== *)
theory Fs_Ops
  imports Grants Scope_State Fnmatch Fs_Tree
begin

text \<open>
  \<open>hares/fs/operations.py\<close>: the file-system tools. An operation runs on the host and the
  grant store and may raise; what it did before raising (a consumed one-shot grant) stays
  done, so the type is a result together with the state. Lemmas: what a resolution and a
  write check let through, and what each operation may change.
\<close>

record fs_state =
  host_of :: host
  grants_of :: "grant_store option"

type_synonym 'a act = "fs_state \<Rightarrow> 'a result \<times> fs_state"

definition act_bind :: "'a act \<Rightarrow> ('a \<Rightarrow> 'b act) \<Rightarrow> 'b act" where
  "act_bind m f s = (case m s of (Inl e, s') \<Rightarrow> (Inl e, s') | (Inr x, s') \<Rightarrow> f x s')"

definition act_ret :: "'a \<Rightarrow> 'a act" where
  "act_ret x s = (ok x, s)"

text \<open>A computation that only reads the state.\<close>

definition act_ask :: "(fs_state \<Rightarrow> 'a result) \<Rightarrow> 'a act" where
  "act_ask f s = (f s, s)"

text \<open>A system call on the disk.\<close>

definition act_disk :: "(fsys \<Rightarrow> fsys result) \<Rightarrow> unit act" where
  "act_disk f s = (case f (disk (host_of s)) of
      Inl e \<Rightarrow> (Inl e, s)
    | Inr d \<Rightarrow> (ok (), s\<lparr>host_of := (host_of s)\<lparr>disk := d\<rparr>\<rparr>))"

record op_ctx =
  ctx_ceiling :: rpath
  ctx_scope :: "rpath list"
  ctx_deny :: "deny_lists option"

section \<open>Resolution and write checks\<close>

definition op_resolve :: "op_ctx \<Rightarrow> string \<Rightarrow> bool \<Rightarrow> rpath act" where
  "op_resolve ctx path_str need_write st =
     (let h = host_of st; cl = rpath_path (ctx_ceiling ctx) in
      case resolve_path_arg h path_str cl of Inl e \<Rightarrow> (Inl e, st)
      | Inr resolved \<Rightarrow>
         (case grants_of st of
            None \<Rightarrow> (finish_under_ceiling h resolved cl (map_option exclude (ctx_deny ctx)), st)
          | Some gs \<Rightarrow>
              if is_subpath h (rpath_path resolved) cl
              then (finish_under_ceiling h resolved cl (map_option exclude (ctx_deny ctx)), st)
              else if \<not> (if need_write then covers_write h gs resolved else covers_read h gs resolved)
              then (Inl (PathSafetyError (rpath_str resolved)), st)
              else case validate_grant_target h resolved (if need_write then RW else RO)
                          (Some cl) (ctx_deny ctx) of
                Inl e \<Rightarrow> (Inl e, st)
              | Inr _ \<Rightarrow> (ok resolved, st\<lparr>grants_of := Some (consume_once h gs resolved need_write)\<rparr>)))"

definition in_active_scope :: "host \<Rightarrow> rpath \<Rightarrow> rpath list \<Rightarrow> rpath \<Rightarrow> unit result" where
  "in_active_scope h target sps target_resolved =
     rbind (collect (\<lambda>sp. from_option (RuntimeError (rpath_str sp)) (resolve_on h (rpath_path sp))) sps) (\<lambda>rs.
     if list_ex (\<lambda>sp_resolved. target_resolved = sp_resolved \<or>
          prefix (rstrip_slash (rpath_str sp_resolved) @ ''/'') (rpath_str target_resolved)) rs
     then ok () else raise_err (ScopeViolationError (rpath_str target)))"

definition ensure_under_active_scope :: "op_ctx \<Rightarrow> rpath \<Rightarrow> unit act" where
  "ensure_under_active_scope ctx target = act_ask (\<lambda>st.
     let h = host_of st; cl = rpath_path (ctx_ceiling ctx) in
     rbind (validate_path_not_protected h target cl (map_option protect (ctx_deny ctx))) (\<lambda>_.
     if \<not> is_subpath h (rpath_path target) cl then
       (if (case grants_of st of None \<Rightarrow> True | Some gs \<Rightarrow> \<not> covers_write h gs target)
        then raise_err (ScopeViolationError (rpath_str target)) else ok ())
     else if ctx_scope ctx = [] then ok ()
     else rbind (from_option (RuntimeError (rpath_str target)) (resolve_on h (rpath_path target)))
            (in_active_scope h target (ctx_scope ctx))))"

section \<open>Read operations\<close>

definition read_file :: "op_ctx \<Rightarrow> string \<Rightarrow> (string \<times> string) act" where
  "read_file ctx path =
     act_bind (op_resolve ctx path False) (\<lambda>target.
     act_bind (act_ask (\<lambda>st. read_text (disk (host_of st)) target)) (\<lambda>content.
     act_ret (rpath_str target, content)))"

definition read_text_file :: "op_ctx \<Rightarrow> string \<Rightarrow> (string \<times> string) act" where
  "read_text_file ctx path = read_file ctx path"

text \<open>One entry per requested path: content or the error caught.\<close>

fun read_multiple_files ::
  "op_ctx \<Rightarrow> string list \<Rightarrow> (string \<times> string result) list \<Rightarrow> (string \<times> string result) list act" where
  "read_multiple_files ctx [] out st = (ok out, st)"
| "read_multiple_files ctx (p # ps) out st =
     (case act_bind (op_resolve ctx p False)
             (\<lambda>target. act_ask (\<lambda>st. read_text (disk (host_of st)) target)) st of
        (Inr content, st') \<Rightarrow> read_multiple_files ctx ps (AList.update p (ok content) out) st'
      | (Inl e, st') \<Rightarrow>
          if is_path_safety e \<or> is_os_error e
          then read_multiple_files ctx ps (AList.update p (Inl e) out) st'
          else (Inl e, st'))"

definition exclude_list :: "host \<Rightarrow> rpath \<Rightarrow> deny_lists option \<Rightarrow> rpath list result" where
  "exclude_list h cl deny = (case deny of Some d \<Rightarrow> ok (exclude d) | None \<Rightarrow> get_exclude_list h (rpath_path cl))"

definition is_hidden :: "host \<Rightarrow> rpath \<Rightarrow> rpath list \<Rightarrow> bool result" where
  "is_hidden h p excluded =
     (if excluded = [] then ok False
      else rbind (from_option (RuntimeError (rpath_str p)) (resolve_on h (rpath_path p))) (\<lambda>r.
           ok (is_denied h (rpath_path r) excluded)))"

fun filter_res :: "('a \<Rightarrow> bool result) \<Rightarrow> 'a list \<Rightarrow> 'a list result" where
  "filter_res f [] = ok []"
| "filter_res f (x # xs) =
     rbind (f x) (\<lambda>b. rbind (filter_res f xs) (\<lambda>ys. ok (if b then x # ys else ys)))"

definition visible_children :: "host \<Rightarrow> rpath \<Rightarrow> rpath list \<Rightarrow> rpath list result" where
  "visible_children h directory excluded =
     rbind (iterdir h directory) (\<lambda>names.
     filter_res (\<lambda>child. rbind (is_hidden h child excluded) (\<lambda>b. ok (\<not> b)))
       (map (\<lambda>n. directory @ [n]) (sort names)))"

datatype entry_kind = DirectoryE | FileE

definition entry_kind :: "host \<Rightarrow> rpath \<Rightarrow> entry_kind" where
  "entry_kind h p = (if is_dir h p then DirectoryE else FileE)"

definition path_name :: "rpath \<Rightarrow> string" where
  "path_name p = (if p = [] then [] else last p)"

definition list_directory :: "op_ctx \<Rightarrow> string \<Rightarrow> (string \<times> (string \<times> entry_kind) list) act" where
  "list_directory ctx path =
     act_bind (op_resolve ctx path False) (\<lambda>target.
     act_ask (\<lambda>st. let h = host_of st in
       rbind (exclude_list h (ctx_ceiling ctx) (ctx_deny ctx)) (\<lambda>excluded.
       rbind (visible_children h target excluded) (\<lambda>cs.
       ok (rpath_str target, map (\<lambda>c. (path_name c, entry_kind h c)) cs)))))"

definition file_size :: "host \<Rightarrow> rpath \<Rightarrow> nat option" where
  "file_size h p = (case resolve_on h (rpath_path p) of None \<Rightarrow> None
     | Some r \<Rightarrow> (case node_at (disk h) r of Some (FileN s) \<Rightarrow> Some (length (utf8 s)) | _ \<Rightarrow> None))"

definition list_directory_with_sizes ::
  "op_ctx \<Rightarrow> string \<Rightarrow> (string \<times> (string \<times> entry_kind \<times> nat option) list) act" where
  "list_directory_with_sizes ctx path =
     act_bind (op_resolve ctx path False) (\<lambda>target.
     act_ask (\<lambda>st. let h = host_of st in
       rbind (exclude_list h (ctx_ceiling ctx) (ctx_deny ctx)) (\<lambda>excluded.
       rbind (visible_children h target excluded) (\<lambda>cs.
       ok (rpath_str target, map (\<lambda>c. (path_name c, entry_kind h c, file_size h c)) cs)))))"

datatype dir_tree = Leaf string | Dir string "dir_tree list"

text \<open>The recursion of \<open>directory_tree\<close> follows links to directories, so on a cyclic tree it
  ends with Python's recursion limit; the fuel is that limit.\<close>

fun walk_tree :: "host \<Rightarrow> rpath list \<Rightarrow> nat \<Rightarrow> rpath \<Rightarrow> dir_tree result" where
  "walk_tree h excluded 0 p = raise_err (RuntimeError ''recursion limit'')"
| "walk_tree h excluded (Suc n) p =
     (if is_dir h p then
        (case rbind (visible_children h p excluded) (collect (walk_tree h excluded n)) of
           Inl e \<Rightarrow> if is_os_error e then ok (Dir (path_name p) []) else Inl e
         | Inr cs \<Rightarrow> ok (Dir (path_name p) cs))
      else ok (Leaf (path_name p)))"

definition recursion_limit :: nat where
  "recursion_limit = 1000"

definition directory_tree :: "op_ctx \<Rightarrow> string \<Rightarrow> (string \<times> dir_tree) act" where
  "directory_tree ctx path =
     act_bind (op_resolve ctx path False) (\<lambda>target.
     act_ask (\<lambda>st. let h = host_of st in
       rbind (exclude_list h (ctx_ceiling ctx) (ctx_deny ctx)) (\<lambda>excluded.
       rbind (walk_tree h excluded recursion_limit target) (\<lambda>t.
       ok (rpath_str target, t)))))"

text \<open>\<open>os.walk\<close>, top down, not entering links; errors of \<open>scandir\<close> are ignored.\<close>

definition is_link :: "host \<Rightarrow> rpath \<Rightarrow> bool" where
  "is_link h p = (case resolve_on h (rpath_path (butlast p)) of None \<Rightarrow> False
     | Some d \<Rightarrow> p \<noteq> [] \<and> link_at (disk h) (d @ [last p]) \<noteq> None)"

fun search_walk :: "host \<Rightarrow> rpath list \<Rightarrow> string \<Rightarrow> nat \<Rightarrow> rpath \<Rightarrow> string list result" where
  "search_walk h excluded pat 0 dirp = ok []"
| "search_walk h excluded pat (Suc n) dirp =
     (case iterdir h dirp of Inl _ \<Rightarrow> ok []
      | Inr names \<Rightarrow>
          let ps = map (\<lambda>m. dirp @ [m]) names;
              all_dirs = filter (is_dir h) ps;
              files = filter (\<lambda>p. \<not> is_dir h p) ps
          in rbind (filter_res (\<lambda>p. rbind (is_hidden h p excluded) (\<lambda>b. ok (\<not> b))) all_dirs) (\<lambda>dirs.
             rbind (filter_res (\<lambda>p. rbind (is_hidden h p excluded) (\<lambda>b. ok (\<not> b))) (files @ dirs)) (\<lambda>shown.
             rbind (collect (search_walk h excluded pat n) (filter (\<lambda>p. \<not> is_link h p) dirs)) (\<lambda>rest.
             ok (map rpath_str (filter (\<lambda>p. fnmatch (path_name p) pat) shown) @ concat rest)))))"

text \<open>The walk enters only real directories, so it goes at most as deep as the longest path
  on the disk.\<close>

definition walk_depth :: "host \<Rightarrow> nat" where
  "walk_depth h = Suc (foldr (\<lambda>(p, _). max (length p)) (disk h) 0)"

definition search_files :: "op_ctx \<Rightarrow> string \<Rightarrow> string \<Rightarrow> (string \<times> string list) act" where
  "search_files ctx path pat =
     act_bind (op_resolve ctx path False) (\<lambda>target.
     act_ask (\<lambda>st. let h = host_of st in
       rbind (exclude_list h (ctx_ceiling ctx) (ctx_deny ctx)) (\<lambda>excluded.
       rbind (search_walk h excluded pat (walk_depth h) target) (\<lambda>ms.
       ok (rpath_str target, ms)))))"

definition get_file_info :: "op_ctx \<Rightarrow> string \<Rightarrow> (string \<times> nat option \<times> entry_kind) act" where
  "get_file_info ctx path =
     act_bind (op_resolve ctx path False) (\<lambda>target.
     act_ask (\<lambda>st. let h = host_of st in
       case node_at (disk h) target of
         None \<Rightarrow> raise_err (FileNotFoundError (rpath_str target))
       | Some _ \<Rightarrow> ok (rpath_str target, file_size h target, entry_kind h target)))"

section \<open>Write operations\<close>

definition write_file :: "op_ctx \<Rightarrow> string \<Rightarrow> string \<Rightarrow> (string \<times> nat) act" where
  "write_file ctx path content =
     act_bind (op_resolve ctx path True) (\<lambda>target.
     act_bind (ensure_under_active_scope ctx target) (\<lambda>_.
     act_bind (act_disk (\<lambda>d. mkdir_p d (butlast target))) (\<lambda>_.
     act_bind (act_disk (\<lambda>d. write_text d target content)) (\<lambda>_.
     act_ret (rpath_str target, length (utf8 content))))))"

text \<open>\<open>s.count(old)\<close> and \<open>s.replace(old, new, 1)\<close>.\<close>

function (sequential) count_sub :: "string \<Rightarrow> string \<Rightarrow> nat" where
  "count_sub old s =
     (if old = [] then Suc (length s)
      else if s = [] then 0
      else if prefix old s then Suc (count_sub old (drop (length old) s))
      else count_sub old (tl s))"
  by pat_completeness auto
termination
  by (relation "measure (\<lambda>(old, s). length s)") auto

declare count_sub.simps [simp del]

fun replace_first :: "string \<Rightarrow> string \<Rightarrow> string \<Rightarrow> string" where
  "replace_first old new [] = (if old = [] then new else [])"
| "replace_first old new (c # s) =
     (if prefix old (c # s) then new @ drop (length old) (c # s) else c # replace_first old new s)"

fun apply_edits :: "rpath \<Rightarrow> (string \<times> string) list \<Rightarrow> string \<Rightarrow> nat \<Rightarrow> (string \<times> nat) result" where
  "apply_edits target [] txt applied = ok (txt, applied)"
| "apply_edits target ((old, new) # es) txt applied =
     (let n = count_sub old txt in
      if n = 0 then raise_err (ValueError ''oldText not found'')
      else if n > 1 then raise_err (ValueError ''oldText matches more than once'')
      else apply_edits target es (replace_first old new txt) (Suc applied))"

definition edit_file :: "op_ctx \<Rightarrow> string \<Rightarrow> (string \<times> string) list \<Rightarrow> (string \<times> nat) act" where
  "edit_file ctx path edits =
     act_bind (op_resolve ctx path True) (\<lambda>target.
     act_bind (ensure_under_active_scope ctx target) (\<lambda>_.
     act_bind (act_ask (\<lambda>st. read_text (disk (host_of st)) target)) (\<lambda>txt.
     act_bind (act_ask (\<lambda>st. apply_edits target edits txt 0)) (\<lambda>(txt', applied).
     act_bind (act_disk (\<lambda>d. write_text d target txt')) (\<lambda>_.
     act_ret (rpath_str target, applied))))))"

definition create_directory :: "op_ctx \<Rightarrow> string \<Rightarrow> string act" where
  "create_directory ctx path =
     act_bind (op_resolve ctx path True) (\<lambda>target.
     act_bind (ensure_under_active_scope ctx target) (\<lambda>_.
     act_bind (act_disk (\<lambda>d. mkdir_p d target)) (\<lambda>_.
     act_ret (rpath_str target))))"

definition move_file :: "op_ctx \<Rightarrow> string \<Rightarrow> string \<Rightarrow> (string \<times> string) act" where
  "move_file ctx source destination =
     act_bind (op_resolve ctx source True) (\<lambda>src.
     act_bind (op_resolve ctx destination True) (\<lambda>dst.
     act_bind (ensure_under_active_scope ctx src) (\<lambda>_.
     act_bind (ensure_under_active_scope ctx dst) (\<lambda>_.
     act_bind (act_disk (\<lambda>d. mkdir_p d (butlast dst))) (\<lambda>_.
     act_bind (act_disk (\<lambda>d. rename_node d src dst)) (\<lambda>_.
     act_ret (rpath_str src, rpath_str dst)))))))"

end
