(* ===== verification/Fs_Confine.thy ===== *)
theory Fs_Confine
  imports Fs_Ops Disk_View
begin

text \<open>
  What the file-system operations may reach and change: a resolution and a write check are
  characterised on component paths (\<open>may_reach\<close>, \<open>may_write\<close>), a small Hoare calculus for the
  actions of \<open>Fs_Ops\<close> carries them through the operations, and the frame theorems state what a
  read and a write operation can have changed, errors included.
\<close>

section \<open>Contexts as the servers build them\<close>

text \<open>The ceiling, the scope paths and the deny entries are resolution results, and the deny
  lists were resolved when the ceiling was fixed.\<close>

definition ctx_ok :: "host \<Rightarrow> op_ctx \<Rightarrow> deny_lists \<Rightarrow> bool" where
  "ctx_ok h ctx d \<longleftrightarrow> ctx_deny ctx = Some d \<and> resolved_on h (ctx_ceiling ctx) \<and>
     list_all (resolved_on h) (exclude d) \<and> list_all (resolved_on h) (protect d) \<and>
     list_all (resolved_on h) (ctx_scope ctx)"

definition store_ok :: "host \<Rightarrow> grant_store option \<Rightarrow> bool" where
  "store_ok h gs \<longleftrightarrow> (case gs of None \<Rightarrow> True | Some gs \<Rightarrow> list_all (\<lambda>g. resolved_on h (root g)) gs)"

text \<open>What may be accessed, on component paths alone.\<close>

definition granted :: "grant_store option \<Rightarrow> bool \<Rightarrow> rpath \<Rightarrow> bool" where
  "granted gs w r \<longleftrightarrow> (case gs of None \<Rightarrow> False
     | Some l \<Rightarrow> list_ex (\<lambda>g. (w \<longrightarrow> gmode g = RW) \<and> prefix (root g) r) l)"

lemma granted_iff:
  "granted gs w r \<longleftrightarrow> (\<exists>l g. gs = Some l \<and> g \<in> set l \<and> (w \<longrightarrow> gmode g = RW) \<and> prefix (root g) r)"
  by (auto simp: granted_def list_ex_iff split: option.splits)

definition may_reach :: "op_ctx \<Rightarrow> deny_lists \<Rightarrow> grant_store option \<Rightarrow> bool \<Rightarrow> rpath \<Rightarrow> bool" where
  "may_reach ctx d gs w r \<longleftrightarrow>
     (if prefix (ctx_ceiling ctx) r then (\<forall>e \<in> set (exclude d). \<not> prefix e r)
      else granted gs w r \<and> ''.git'' \<notin> set r)"

lemma grant_matches_prefix:
  "store_ok h (Some gs) \<Longrightarrow> resolved_on h r \<Longrightarrow> g \<in> set gs \<Longrightarrow>
   grant_matches h r w g \<longleftrightarrow> (w \<longrightarrow> gmode g = RW) \<and> prefix (root g) r"
  by (auto simp: grant_matches_def store_ok_def list_all_iff is_subpath_resolved)

lemma covers_granted:
  assumes "store_ok h (Some gs)" "resolved_on h r"
  shows "covers_read h gs r \<longleftrightarrow> granted (Some gs) False r"
    "covers_write h gs r \<longleftrightarrow> granted (Some gs) True r"
  using grant_matches_prefix [OF assms]
  by (auto simp: covers_read_iff covers_write_iff granted_iff)

lemma not_excluded_prefix:
  "list_all (resolved_on h) ex \<Longrightarrow> resolved_on h r \<Longrightarrow>
   validate_path_not_excluded h r cl (Some ex) = ok () \<longleftrightarrow> (\<forall>e \<in> set ex. \<not> prefix e r)"
  by (auto simp: validate_path_not_excluded_ok list_all_iff is_subpath_resolved)

lemma not_protected_prefix:
  "list_all (resolved_on h) pr \<Longrightarrow> resolved_on h r \<Longrightarrow>
   validate_path_not_protected h r cl (Some pr) = ok () \<longleftrightarrow> (\<forall>e \<in> set pr. \<not> prefix e r)"
  by (auto simp: validate_path_not_protected_ok list_all_iff is_subpath_resolved)

lemma validate_grant_target_ok:
  "validate_grant_target h r m (Some cl) d = ok u \<longleftrightarrow>
     ''.git'' \<notin> set r \<and> clear_of_system h r \<and>
     (is_subpath h (rpath_path r) cl \<longrightarrow>
        validate_path_not_excluded h r cl (map_option exclude d) = ok () \<and>
        (m = RW \<longrightarrow> validate_path_not_protected h r cl (map_option protect d) = ok ()))"
  by (auto simp: validate_grant_target_def contains_git clear_of_system_def)

text \<open>The state after a resolution: a one-shot grant that authorised it is gone.\<close>

definition after_resolve :: "op_ctx \<Rightarrow> bool \<Rightarrow> rpath \<Rightarrow> fs_state \<Rightarrow> fs_state" where
  "after_resolve ctx w r st =
     (if prefix (ctx_ceiling ctx) r then st
      else st\<lparr>grants_of := map_option (\<lambda>gs. consume_once (host_of st) gs r w) (grants_of st)\<rparr>)"

lemma op_resolve_spec:
  assumes c: "ctx_ok (host_of st) ctx d" and s: "store_ok (host_of st) (grants_of st)"
  shows "op_resolve ctx p w st = (ok r, st') \<longleftrightarrow>
    resolve_path_arg (host_of st) p (rpath_path (ctx_ceiling ctx)) = ok r \<and>
    clear_of_system (host_of st) r \<and> may_reach ctx d (grants_of st) w r \<and>
    st' = after_resolve ctx w r st"
proof (cases "resolve_path_arg (host_of st) p (rpath_path (ctx_ceiling ctx))")
  case (Inl e)
  then show ?thesis by (simp add: op_resolve_def Let_def)
next
  case (Inr q)
  have cl: "resolved_on (host_of st) (ctx_ceiling ctx)" and d: "ctx_deny ctx = Some d"
    and ex: "list_all (resolved_on (host_of st)) (exclude d)"
    using c by (simp_all add: ctx_ok_def)
  have "ppath_ok (rpath_path (ctx_ceiling ctx))"
    using cl by (simp add: resolved_on_def)
  then have q: "resolved_on (host_of st) q" using Inr by (rule resolve_path_arg_resolved)
  note sub = is_subpath_resolved [OF q cl]
  note fin = finish_under_ceiling_ok not_excluded_prefix [OF ex q] sub clear_of_system_def
  show ?thesis
  proof (cases "grants_of st")
    case None
    then show ?thesis
      by (auto simp: op_resolve_def Let_def Inr d fin may_reach_def granted_def after_resolve_def)
  next
    case (Some gs)
    note cov = covers_granted [OF s [unfolded Some] q]
    show ?thesis
    proof (cases "prefix (ctx_ceiling ctx) q")
      case True
      with Some show ?thesis
        by (auto simp: op_resolve_def Let_def Inr d fin may_reach_def after_resolve_def)
    next
      case False
      have vg: "validate_grant_target (host_of st) q m (Some (rpath_path (ctx_ceiling ctx))) (Some d)
          = ok u \<longleftrightarrow> ''.git'' \<notin> set q \<and> clear_of_system (host_of st) q" for m u
        using False by (simp add: validate_grant_target_ok sub)
      show ?thesis
      proof (cases "granted (Some gs) w q")
        case g: True
        then have cw: "(if w then covers_write (host_of st) gs q else covers_read (host_of st) gs q)"
          using cov by (cases w) simp_all
        show ?thesis
        proof (cases "''.git'' \<notin> set q \<and> clear_of_system (host_of st) q")
          case ng: True
          then have "validate_grant_target (host_of st) q (if w then RW else RO)
              (Some (rpath_path (ctx_ceiling ctx))) (Some d) = ok ()" by (simp add: vg)
          with cw False Some g ng show ?thesis
            by (auto simp: op_resolve_def Let_def Inr d sub may_reach_def after_resolve_def)
        next
          case ng: False
          then obtain e where "validate_grant_target (host_of st) q (if w then RW else RO)
              (Some (rpath_path (ctx_ceiling ctx))) (Some d) = Inl e"
            using vg by (metis sum.exhaust)
          with cw False Some ng show ?thesis
            by (auto simp: op_resolve_def Let_def Inr d sub may_reach_def)
        qed
      next
        case g: False
        then have "\<not> (if w then covers_write (host_of st) gs q else covers_read (host_of st) gs q)"
          using cov by (cases w) simp_all
        with False Some g show ?thesis
          by (auto simp: op_resolve_def Let_def Inr d sub may_reach_def)
      qed
    qed
  qed
qed

lemma startswith_resolved:
  "rpath_ok s \<Longrightarrow> rpath_ok r \<Longrightarrow>
   r = s \<or> prefix (rstrip_slash (rpath_str s) @ ''/'') (rpath_str r) \<longleftrightarrow> prefix s r"
  by (auto simp: startswith_iff_prefix strict_prefix_def)

lemma collect_resolved:
  "list_all (resolved_on h) ps \<Longrightarrow>
   collect (\<lambda>sp. from_option (RuntimeError (rpath_str sp)) (resolve_on h (rpath_path sp))) ps = ok ps"
  by (auto simp: collect_ok list_all2_same list_all_iff resolved_on_def)

lemma in_active_scope_ok:
  assumes "list_all (resolved_on h) sps" "resolved_on h r"
  shows "in_active_scope h t sps r = ok u \<longleftrightarrow> (\<exists>sp \<in> set sps. prefix sp r)"
  using assms
  by (auto simp: in_active_scope_def collect_resolved list_ex_iff list_all_iff resolved_on_def
      startswith_resolved)

text \<open>What may be written, on component paths alone.\<close>

definition may_write :: "op_ctx \<Rightarrow> deny_lists \<Rightarrow> grant_store option \<Rightarrow> rpath \<Rightarrow> bool" where
  "may_write ctx d gs r \<longleftrightarrow> (\<forall>e \<in> set (protect d). \<not> prefix e r) \<and>
     (if prefix (ctx_ceiling ctx) r then ctx_scope ctx = [] \<or> (\<exists>sp \<in> set (ctx_scope ctx). prefix sp r)
      else granted gs True r)"

lemma ensure_under_active_scope_ok:
  assumes c: "ctx_ok (host_of st) ctx d" and s: "store_ok (host_of st) (grants_of st)"
    and r: "resolved_on (host_of st) r"
  shows "ensure_under_active_scope ctx r st = (ok u, st') \<longleftrightarrow>
     st' = st \<and> may_write ctx d (grants_of st) r"
proof -
  have cl: "resolved_on (host_of st) (ctx_ceiling ctx)" and d: "ctx_deny ctx = Some d"
    and pr: "list_all (resolved_on (host_of st)) (protect d)"
    and sc: "list_all (resolved_on (host_of st)) (ctx_scope ctx)"
    using c by (simp_all add: ctx_ok_def)
  have rr: "resolve_on (host_of st) (rpath_path r) = Some r" using r by (simp add: resolved_on_def)
  have cov: "(case grants_of st of None \<Rightarrow> True | Some gs \<Rightarrow> \<not> covers_write (host_of st) gs r)
      \<longleftrightarrow> \<not> granted (grants_of st) True r"
    using covers_granted(2) [OF _ r] s by (cases "grants_of st") (simp_all add: granted_def)
  note p = not_protected_prefix [OF pr r]
  note sub = is_subpath_resolved [OF r cl]
  show ?thesis
  proof (cases "prefix (ctx_ceiling ctx) r")
    case True
    then show ?thesis
      using in_active_scope_ok [OF sc r]
      by (auto simp: ensure_under_active_scope_def act_ask_def Let_def d p sub rr may_write_def)
  next
    case False
    then show ?thesis
      unfolding ensure_under_active_scope_def act_ask_def Let_def d option.map sub cov
      by (auto simp: p may_write_def)
  qed
qed

lemma ensure_state: "ensure_under_active_scope ctx r st = (x, st') \<Longrightarrow> st' = st"
  by (simp add: ensure_under_active_scope_def act_ask_def)

lemma after_resolve_host [simp]: "host_of (after_resolve ctx w r st) = host_of st"
  by (simp add: after_resolve_def)

lemma op_resolve_host: "op_resolve ctx p w st = (x, st') \<Longrightarrow> host_of st' = host_of st"
  by (auto simp: op_resolve_def Let_def split: sum.splits option.splits if_splits)

lemma op_resolve_store:
  "op_resolve ctx p w st = (x, st') \<Longrightarrow> store_ok h (grants_of st) \<Longrightarrow> store_ok h (grants_of st')"
  by (auto simp: op_resolve_def Let_def store_ok_def list_all_iff
      dest!: set_consume_once [THEN subsetD] split: sum.splits option.splits if_splits)

lemma op_resolve_resolved:
  "resolved_on (host_of st) (ctx_ceiling ctx) \<Longrightarrow> op_resolve ctx p w st = (ok r, st')
   \<Longrightarrow> resolved_on (host_of st) r"
  using resolve_path_arg_resolved [of "rpath_path (ctx_ceiling ctx)" "host_of st" p r]
  by (auto simp: op_resolve_def Let_def finish_under_ceiling_ok resolved_on_def
      split: sum.splits option.splits if_splits)

section \<open>Sequencing\<close>

lemma act_bind_ok:
  "act_bind m f s = (ok y, s') \<longleftrightarrow> (\<exists>x t. m s = (ok x, t) \<and> f x t = (ok y, s'))"
  by (cases "m s") (auto simp: act_bind_def split: sum.splits)

lemma act_bind_cases:
  assumes "act_bind m f s = (y, s')"
  obtains e where "m s = (Inl e, s')" "y = Inl e" | x t where "m s = (ok x, t)" "f x t = (y, s')"
  using assms by (cases "m s") (auto simp: act_bind_def split: sum.splits)

lemma act_ask_iff [simp]: "act_ask f s = (x, s') \<longleftrightarrow> x = f s \<and> s' = s"
  by (auto simp: act_ask_def)

lemma act_ret_iff [simp]: "act_ret y s = (x, s') \<longleftrightarrow> x = ok y \<and> s' = s"
  by (auto simp: act_ret_def)

lemma act_disk_ok:
  "act_disk f s = (ok u, s') \<longleftrightarrow>
    (\<exists>d. f (disk (host_of s)) = ok d \<and> s' = s\<lparr>host_of := (host_of s)\<lparr>disk := d\<rparr>\<rparr>)"
  by (auto simp: act_disk_def split: sum.splits)

lemma act_disk_err: "act_disk f s = (Inl e, s') \<longleftrightarrow> f (disk (host_of s)) = Inl e \<and> s' = s"
  by (auto simp: act_disk_def split: sum.splits)

lemma act_disk_cases:
  assumes "act_disk f s = (x, s')"
  obtains e where "x = Inl e" "s' = s" | d where "x = ok ()" "f (disk (host_of s)) = ok d"
    "s' = s\<lparr>host_of := (host_of s)\<lparr>disk := d\<rparr>\<rparr>"
  using assms by (auto simp: act_disk_def split: sum.splits)

definition keeps_host :: "'a act \<Rightarrow> bool" where
  "keeps_host m \<longleftrightarrow> (\<forall>s. host_of (snd (m s)) = host_of s)"

lemma keeps_host_bind: "keeps_host m \<Longrightarrow> (\<And>x. keeps_host (f x)) \<Longrightarrow> keeps_host (act_bind m f)"
  unfolding keeps_host_def act_bind_def
  by (auto split: prod.splits sum.splits) (metis snd_conv)+

lemma keeps_host_ask [simp]: "keeps_host (act_ask f)"
  by (simp add: keeps_host_def act_ask_def)

lemma keeps_host_ret [simp]: "keeps_host (act_ret f)"
  by (simp add: keeps_host_def act_ret_def)

lemma keeps_host_resolve [simp]: "keeps_host (op_resolve ctx p w)"
  unfolding keeps_host_def by (metis op_resolve_host prod.collapse)

lemma keeps_host_ensure [simp]: "keeps_host (ensure_under_active_scope ctx r)"
  unfolding keeps_host_def by (metis ensure_state prod.collapse)

lemma keeps_hostD: "keeps_host m \<Longrightarrow> m s = (x, s') \<Longrightarrow> host_of s' = host_of s"
  unfolding keeps_host_def by (metis snd_conv)

lemma keeps_host_read_multiple: "keeps_host (read_multiple_files ctx ps out)"
proof -
  have "host_of (snd (read_multiple_files ctx ps out st)) = host_of st" for st
  proof (induction ctx ps out st rule: read_multiple_files.induct)
    case (2 ctx p ps out st)
    let ?m = "act_bind (op_resolve ctx p False)
             (\<lambda>target. act_ask (\<lambda>st. read_text (disk (host_of st)) target))"
    obtain x st' where m: "?m st = (x, st')" by (cases "?m st")
    have "keeps_host ?m" by (intro keeps_host_bind) simp_all
    from keeps_hostD [OF this m] have h: "host_of st' = host_of st" .
    show ?case
      using "2.IH"(1) [OF m [symmetric]] "2.IH"(2) [OF m [symmetric]] h
      by (cases x) (auto simp: m simp del: read_multiple_files.simps(1))
  qed simp
  then show ?thesis by (simp add: keeps_host_def)
qed

text \<open>
  The read operations never change the host (disk, environment, working directory),
  whatever they are called with and whether they return or raise; only the grant store may
  lose one-shot grants.
\<close>

theorem read_ops_keep_host:
  "keeps_host (read_file ctx p) \<and> keeps_host (read_text_file ctx p) \<and>
   keeps_host (read_multiple_files ctx ps []) \<and> keeps_host (list_directory ctx p) \<and>
   keeps_host (list_directory_with_sizes ctx p) \<and> keeps_host (directory_tree ctx p) \<and>
   keeps_host (search_files ctx p pat) \<and> keeps_host (get_file_info ctx p)"
  unfolding read_text_file_def read_file_def list_directory_def list_directory_with_sizes_def
    directory_tree_def search_files_def get_file_info_def
  by (intro conjI keeps_host_bind keeps_host_read_multiple) simp_all

section \<open>What the write operations change\<close>

lemma granted_after_resolve: "granted (grants_of (after_resolve ctx w r st)) v q \<Longrightarrow> granted (grants_of st) v q"
  by (auto simp: granted_iff after_resolve_def dest!: set_consume_once [THEN subsetD] split: if_splits)

definition writable :: "op_ctx \<Rightarrow> deny_lists \<Rightarrow> fs_state \<Rightarrow> rpath \<Rightarrow> bool" where
  "writable ctx d st r \<longleftrightarrow> resolved_on (host_of st) r \<and> clear_of_system (host_of st) r \<and>
     may_reach ctx d (grants_of st) True r \<and> may_write ctx d (grants_of st) r"

lemma writable_if:
  assumes c: "ctx_ok (host_of st) ctx d" and s: "store_ok (host_of st) (grants_of st)"
    and o1: "op_resolve ctx p True st = (ok r, st1)"
    and st1: "store_ok (host_of st) (grants_of st2)" "host_of st2 = host_of st"
    and sub: "\<And>q. granted (grants_of st2) True q \<Longrightarrow> granted (grants_of st1) True q"
    and o2: "ensure_under_active_scope ctx r st2 = (ok u, st3)"
  shows "writable ctx d st r"
proof -
  have cl: "resolved_on (host_of st) (ctx_ceiling ctx)" using c by (simp add: ctx_ok_def)
  have r: "resolved_on (host_of st) r" using op_resolve_resolved [OF cl o1] .
  from o1 op_resolve_spec [OF c s] have a: "clear_of_system (host_of st) r"
    "may_reach ctx d (grants_of st) True r" "st1 = after_resolve ctx True r st" by blast+
  have "may_write ctx d (grants_of st2) r"
    using ensure_under_active_scope_ok [of st2 ctx d r] c st1 r o2 by auto
  then have "may_write ctx d (grants_of st) r"
    using sub granted_after_resolve [of ctx True r st] a(3) by (auto simp: may_write_def split: if_splits)
  with a r show ?thesis by (simp add: writable_def)
qed

lemma write_prologue_writable:
  assumes c: "ctx_ok (host_of st) ctx d" and s: "store_ok (host_of st) (grants_of st)"
    and o1: "op_resolve ctx p True st = (ok r, st1)"
    and o2: "ensure_under_active_scope ctx r st1 = (ok u, st2)"
  shows "writable ctx d st r" "host_of st2 = host_of st"
  using writable_if [OF c s o1 op_resolve_store [OF o1 s] op_resolve_host [OF o1] _ o2]
    op_resolve_host [OF o1] ensure_state [OF o2] by auto

text \<open>A node the operation may have created or changed on behalf of a target.\<close>

definition changed :: "fs_state \<Rightarrow> fs_state \<Rightarrow> rpath \<Rightarrow> bool" where
  "changed st st' q \<longleftrightarrow> node_at (disk (host_of st')) q \<noteq> node_at (disk (host_of st)) q"

definition new_parent :: "fs_state \<Rightarrow> fs_state \<Rightarrow> rpath \<Rightarrow> rpath \<Rightarrow> bool" where
  "new_parent st st' r q \<longleftrightarrow> prefix q r \<and> node_at (disk (host_of st)) q = None \<and>
     node_at (disk (host_of st')) q = Some DirN"

text \<open>Partial and exceptional postconditions of an action.\<close>

definition act_spec ::
  "(fs_state \<Rightarrow> bool) \<Rightarrow> 'a act \<Rightarrow> ('a \<Rightarrow> fs_state \<Rightarrow> bool) \<Rightarrow> (fs_state \<Rightarrow> bool) \<Rightarrow> bool" where
  "act_spec P m Q E \<longleftrightarrow>
     (\<forall>s. P s \<longrightarrow> (case m s of (Inl e, s') \<Rightarrow> E s' | (Inr x, s') \<Rightarrow> Q x s'))"

lemma act_specI:
  "(\<And>s e s'. P s \<Longrightarrow> m s = (Inl e, s') \<Longrightarrow> E s') \<Longrightarrow>
   (\<And>s x s'. P s \<Longrightarrow> m s = (ok x, s') \<Longrightarrow> Q x s') \<Longrightarrow> act_spec P m Q E"
  by (auto simp: act_spec_def split: prod.splits sum.splits)

lemma act_specD:
  "act_spec P m Q E \<Longrightarrow> P s \<Longrightarrow> m s = (x, s') \<Longrightarrow>
   (case x of Inl e \<Rightarrow> E s' | Inr y \<Rightarrow> Q y s')"
  by (auto simp: act_spec_def split: prod.splits sum.splits)

lemma act_spec_bind:
  assumes "act_spec P m R E" "\<And>x. act_spec (R x) (f x) Q E"
  shows "act_spec P (act_bind m f) Q E"
proof (rule act_specI)
  fix s e s' assume "P s" "act_bind m f s = (Inl e, s')"
  then show "E s'"
    using act_specD [OF assms(1) \<open>P s\<close>] act_specD [OF assms(2)] by (elim act_bind_cases) fastforce+
next
  fix s x s' assume "P s" "act_bind m f s = (ok x, s')"
  then show "Q x s'"
    using act_specD [OF assms(1) \<open>P s\<close>] act_specD [OF assms(2)] by (elim act_bind_cases) fastforce+
qed

lemma act_spec_ret: "(\<And>s. P s \<Longrightarrow> Q y s) \<Longrightarrow> act_spec P (act_ret y) Q E"
  by (auto simp: act_spec_def act_ret_def)

lemma act_spec_ask:
  "(\<And>s. P s \<Longrightarrow> E s) \<Longrightarrow> (\<And>s x. P s \<Longrightarrow> f s = ok x \<Longrightarrow> Q x s) \<Longrightarrow> act_spec P (act_ask f) Q E"
  by (auto simp: act_spec_def act_ask_def split: sum.splits)

lemma act_spec_disk:
  "(\<And>s. P s \<Longrightarrow> E s) \<Longrightarrow>
   (\<And>s d. P s \<Longrightarrow> f (disk (host_of s)) = ok d \<Longrightarrow> Q () (s\<lparr>host_of := (host_of s)\<lparr>disk := d\<rparr>\<rparr>)) \<Longrightarrow>
   act_spec P (act_disk f) Q E"
  by (auto simp: act_spec_def act_disk_def split: sum.splits)

text \<open>The frame of a write operation: every node it changed is a target that may be written,
  or a directory that was missing above one.\<close>

definition confined :: "op_ctx \<Rightarrow> deny_lists \<Rightarrow> fs_state \<Rightarrow> fs_state \<Rightarrow> bool" where
  "confined ctx d st st' \<longleftrightarrow>
     (\<forall>q. changed st st' q \<longrightarrow> (\<exists>r. writable ctx d st r \<and> (q = r \<or> new_parent st st' r q)))"

lemma confined_same: "host_of s = host_of st \<Longrightarrow> confined ctx d st s"
  by (simp add: confined_def changed_def)

definition guarded :: "op_ctx \<Rightarrow> deny_lists \<Rightarrow> fs_state \<Rightarrow> rpath \<Rightarrow> fs_state \<Rightarrow> bool" where
  "guarded ctx d st r s \<longleftrightarrow> writable ctx d st r \<and> host_of s = host_of st"

lemma write_prologue_spec:
  assumes "ctx_ok (host_of st) ctx d" "store_ok (host_of st) (grants_of st)"
    and "\<And>r. act_spec (guarded ctx d st r) (f r) Q (confined ctx d st)"
  shows "act_spec (\<lambda>s. s = st)
     (act_bind (op_resolve ctx p True) (\<lambda>r. act_bind (ensure_under_active_scope ctx r) (\<lambda>_. f r)))
     Q (confined ctx d st)"
proof (rule act_spec_bind)
  show "act_spec (\<lambda>s. s = st) (op_resolve ctx p True)
      (\<lambda>r s. op_resolve ctx p True st = (ok r, s)) (confined ctx d st)"
    by (rule act_specI) (auto dest: op_resolve_host intro: confined_same)
  fix r
  show "act_spec (\<lambda>s. op_resolve ctx p True st = (ok r, s))
      (act_bind (ensure_under_active_scope ctx r) (\<lambda>_. f r)) Q (confined ctx d st)"
  proof (rule act_spec_bind)
    show "act_spec (\<lambda>s. op_resolve ctx p True st = (ok r, s)) (ensure_under_active_scope ctx r)
        (\<lambda>_. guarded ctx d st r) (confined ctx d st)"
    proof (rule act_specI)
      fix s e s' assume "op_resolve ctx p True st = (ok r, s)"
        "ensure_under_active_scope ctx r s = (Inl e, s')"
      then show "confined ctx d st s'"
        by (metis op_resolve_host ensure_state confined_same)
    next
      fix s u s' assume "op_resolve ctx p True st = (ok r, s)"
        "ensure_under_active_scope ctx r s = (ok u, s')"
      from write_prologue_writable [OF assms(1,2) this] show "guarded ctx d st r s'"
        by (simp add: guarded_def)
    qed
  qed (rule assms(3))
qed

definition parents_made :: "op_ctx \<Rightarrow> deny_lists \<Rightarrow> fs_state \<Rightarrow> rpath \<Rightarrow> fs_state \<Rightarrow> bool" where
  "parents_made ctx d st r s \<longleftrightarrow> writable ctx d st r \<and> (\<forall>q. changed st s q \<longrightarrow> new_parent st s r q)"

lemma parents_made_confined: "parents_made ctx d st r s \<Longrightarrow> confined ctx d st s"
  by (auto simp: parents_made_def confined_def)

lemma guarded_parents: "guarded ctx d st r s \<Longrightarrow> parents_made ctx d st r s"
  by (simp add: guarded_def parents_made_def changed_def)

lemma mkdir_spec:
  assumes "prefix p r"
  shows "act_spec (guarded ctx d st r) (act_disk (\<lambda>fs. mkdir_p fs p))
     (\<lambda>_. parents_made ctx d st r) (confined ctx d st)"
proof (rule act_spec_disk)
  fix s fs' assume g: "guarded ctx d st r s" and "mkdir_p (disk (host_of s)) p = ok fs'"
  from mkdir_step [OF this(2)] assms g
  show "parents_made ctx d st r (s\<lparr>host_of := (host_of s)\<lparr>disk := fs'\<rparr>\<rparr>)"
    by (auto simp: parents_made_def guarded_def changed_def new_parent_def
        dest: prefix_order.order_trans)
qed (simp add: guarded_def confined_same)

lemma write_spec:
  "act_spec (parents_made ctx d st r) (act_disk (\<lambda>fs. write_text fs r c))
     (\<lambda>_. confined ctx d st) (confined ctx d st)"
proof (rule act_spec_disk)
  fix s fs' assume g: "parents_made ctx d st r s" and w: "write_text (disk (host_of s)) r c = ok fs'"
  let ?s' = "s\<lparr>host_of := (host_of s)\<lparr>disk := fs'\<rparr>\<rparr>"
  have "q = r \<or> new_parent st ?s' r q" if c: "changed st ?s' q" for q
  proof (cases "q = r")
    case False
    from write_text_ok(2) [OF w this] have e: "node_at (disk (host_of ?s')) q = node_at (disk (host_of s)) q"
      by simp
    with c have "changed st s q" by (simp add: changed_def)
    with g have "new_parent st s r q" by (simp add: parents_made_def)
    with e show ?thesis by (simp add: new_parent_def)
  qed simp
  with g show "confined ctx d st ?s'" unfolding confined_def parents_made_def by blast
qed (rule parents_made_confined)

lemma act_spec_weaken:
  "act_spec P m Q E \<Longrightarrow> (\<And>s. P' s \<Longrightarrow> P s) \<Longrightarrow> (\<And>x s. Q x s \<Longrightarrow> Q' x s) \<Longrightarrow> act_spec P' m Q' E"
  unfolding act_spec_def by (simp split: prod.splits sum.splits) metis

text \<open>
  C1: whatever \<open>write_file\<close>, \<open>edit_file\<close> and \<open>create_directory\<close> return or raise, every node of
  the disk they changed is a path that the ceiling (or an rw grant), the exclude and protect
  lists and the active scope let through, or a missing directory created above one.
\<close>

theorem write_ops_confined:
  assumes "ctx_ok (host_of st) ctx d" "store_ok (host_of st) (grants_of st)"
  shows "confined ctx d st (snd (write_file ctx p c st)) \<and>
    confined ctx d st (snd (edit_file ctx p es st)) \<and>
    confined ctx d st (snd (create_directory ctx p st))"
proof -
  have w: "act_spec (\<lambda>s. s = st) (write_file ctx p c) (\<lambda>_. confined ctx d st) (confined ctx d st)"
    unfolding write_file_def
    by (intro write_prologue_spec [OF assms] act_spec_bind [OF mkdir_spec] act_spec_bind [OF write_spec]
        act_spec_ret) (simp_all add: prefixeq_butlast)
  have e: "act_spec (\<lambda>s. s = st) (edit_file ctx p es) (\<lambda>_. confined ctx d st) (confined ctx d st)"
    unfolding edit_file_def
  proof (intro write_prologue_spec [OF assms])
    fix r
    show "act_spec (guarded ctx d st r)
      (act_bind (act_ask (\<lambda>st. read_text (disk (host_of st)) r))
        (\<lambda>txt. act_bind (act_ask (\<lambda>st. apply_edits r es txt 0))
        (\<lambda>(txt', applied). act_bind (act_disk (\<lambda>d. write_text d r txt'))
        (\<lambda>_. act_ret (rpath_str r, applied)))))
      (\<lambda>_. confined ctx d st) (confined ctx d st)"
      by (intro act_spec_bind [where R = "\<lambda>_. guarded ctx d st r"] act_spec_ask)
        (auto simp: guarded_def confined_same intro!: act_spec_bind act_spec_ret
          act_spec_weaken [OF write_spec] guarded_parents [unfolded guarded_def])
  qed
  have m: "act_spec (\<lambda>s. s = st) (create_directory ctx p) (\<lambda>_. confined ctx d st) (confined ctx d st)"
    unfolding create_directory_def
    by (intro write_prologue_spec [OF assms] act_spec_bind [OF mkdir_spec] act_spec_ret)
      (simp_all add: parents_made_confined)
  from act_specD [OF w refl] act_specD [OF e refl] act_specD [OF m refl] show ?thesis
    by (metis (no_types, lifting) prod.collapse sum.case_eq_if)
qed

lemma map_of_map_key:
  assumes "\<And>p. g p = q \<longleftrightarrow> p = q"
  shows "map_of (map (\<lambda>(p, m). (g p, m)) xs) q = map_of xs q"
proof (induction xs)
  case (Cons x xs)
  obtain a b where x: "x = (a, b)" by (cases x)
  show ?case using Cons assms [of a] by (cases "a = q") (simp_all add: x)
qed simp

lemma rename_step:
  assumes "rename_node fs src dst = ok fs'" "\<not> prefix src q" "\<not> prefix dst q"
  shows "node_at fs' q = node_at fs q"
proof -
  define g where "g = (\<lambda>p. if prefix src p then dst @ drop (length src) p else p)"
  have g: "g p = q \<longleftrightarrow> p = q" for p
    using assms(2,3) by (auto simp: g_def)
  have "q \<noteq> dst" using assms(3) by auto
  then have f: "map_of (filter (\<lambda>(p, m). p \<noteq> dst) fs) q = map_of fs q"
    using map_of_filter_key [of "\<lambda>k. k \<noteq> dst" fs q] by simp
  from assms(1) have "fs' = fs \<or> fs' = map (\<lambda>(p, m). (g p, m)) (filter (\<lambda>(p, m). p \<noteq> dst) fs)"
    unfolding rename_node_def g_def by (auto split: option.splits if_splits)
  then show ?thesis
  proof
    assume fs': "fs' = map (\<lambda>(p, m). (g p, m)) (filter (\<lambda>(p, m). p \<noteq> dst) fs)"
    have "map_of fs' q = map_of (filter (\<lambda>(p, m). p \<noteq> dst) fs) q"
      unfolding fs' by (rule map_of_map_key) (rule g)
    with f show ?thesis by (simp add: node_at_def)
  qed simp
qed

definition move_confined :: "op_ctx \<Rightarrow> deny_lists \<Rightarrow> fs_state \<Rightarrow> fs_state \<Rightarrow> bool" where
  "move_confined ctx d st st' \<longleftrightarrow> (\<forall>q. changed st st' q \<longrightarrow>
     (\<exists>src dst. writable ctx d st src \<and> writable ctx d st dst \<and>
        (prefix src q \<or> prefix dst q \<or> new_parent st st' dst q)))"

lemma move_confined_same: "host_of s = host_of st \<Longrightarrow> move_confined ctx d st s"
  by (simp add: move_confined_def changed_def)

lemma rename_spec:
  assumes "writable ctx d st src"
  shows "act_spec (parents_made ctx d st dst) (act_disk (\<lambda>fs. rename_node fs src dst))
     (\<lambda>_. move_confined ctx d st) (move_confined ctx d st)"
proof (rule act_spec_disk)
  fix s assume "parents_made ctx d st dst s"
  then show "move_confined ctx d st s" using assms by (auto simp: parents_made_def move_confined_def)
next
  fix s fs' assume g: "parents_made ctx d st dst s" and r: "rename_node (disk (host_of s)) src dst = ok fs'"
  let ?s' = "s\<lparr>host_of := (host_of s)\<lparr>disk := fs'\<rparr>\<rparr>"
  have "prefix src q \<or> prefix dst q \<or> new_parent st ?s' dst q" if c: "changed st ?s' q" for q
  proof (cases "prefix src q \<or> prefix dst q")
    case False
    with rename_step [OF r] have e: "node_at (disk (host_of ?s')) q = node_at (disk (host_of s)) q" by simp
    with c have "changed st s q" by (simp add: changed_def)
    with g have "new_parent st s dst q" by (simp add: parents_made_def)
    with e show ?thesis by (simp add: new_parent_def)
  qed blast
  with g assms show "move_confined ctx d st ?s'" unfolding move_confined_def parents_made_def by blast
qed

lemma move_resolved:
  assumes c: "ctx_ok (host_of st) ctx d" and s: "store_ok (host_of st) (grants_of st)"
    and r1: "op_resolve ctx p True st = (ok src, st1)"
    and r2: "op_resolve ctx q True st1 = (ok dst, st2)"
    and e1: "ensure_under_active_scope ctx src st2 = (ok u, st3)"
    and e2: "ensure_under_active_scope ctx dst st3 = (ok v, st4)"
  shows "writable ctx d st src" "guarded ctx d st dst st4"
proof -
  have h1: "host_of st1 = host_of st" and h2: "host_of st2 = host_of st"
    using op_resolve_host [OF r1] op_resolve_host [OF r2] by simp_all
  have s1: "store_ok (host_of st) (grants_of st1)" and s2: "store_ok (host_of st) (grants_of st2)"
    using op_resolve_store [OF r1 s] op_resolve_store [OF r2] by blast+
  have c1: "ctx_ok (host_of st1) ctx d" using c h1 by simp
  have a1: "st1 = after_resolve ctx True src st" and a2: "st2 = after_resolve ctx True dst st1"
    using op_resolve_spec [OF c s] r1 op_resolve_spec [OF c1] s1 r2 h1 by auto
  have "granted (grants_of st2) True q \<Longrightarrow> granted (grants_of st1) True q" for q
    unfolding a2 by (rule granted_after_resolve)
  from writable_if [OF c s r1 s2 h2 this e1] show "writable ctx d st src" .
  have e3: "st3 = st2" "st4 = st2" using ensure_state [OF e1] ensure_state [OF e2] by simp_all
  have "writable ctx d st1 dst"
    using write_prologue_writable(1) [OF c1 _ r2 e2 [unfolded e3]] s1 h1 by simp
  then have "writable ctx d st dst"
    using h1 granted_after_resolve [of ctx True src st] a1
    by (auto simp: writable_def may_reach_def may_write_def split: if_splits)
  with h2 e3 show "guarded ctx d st dst st4" by (simp add: guarded_def)
qed

text \<open>A step that keeps the host confines, whatever it establishes.\<close>

lemma host_step_spec:
  assumes "keeps_host m" "\<And>s. P s \<Longrightarrow> host_of s = host_of st" "\<And>s x s'. P s \<Longrightarrow> m s = (ok x, s') \<Longrightarrow> R x s'"
  shows "act_spec P m R (move_confined ctx d st)"
proof (rule act_specI)
  fix s e s' assume "P s" "m s = (Inl e, s')"
  then show "move_confined ctx d st s'"
    using keeps_hostD [OF assms(1)] assms(2) by (metis move_confined_same snd_conv)
qed (rule assms(3))

lemma move_body_spec:
  assumes "writable ctx d st src"
  shows "act_spec (guarded ctx d st dst)
     (act_bind (act_disk (\<lambda>d. mkdir_p d (butlast dst))) (\<lambda>_.
      act_bind (act_disk (\<lambda>d. rename_node d src dst)) (\<lambda>_. act_ret x)))
     (\<lambda>_. move_confined ctx d st) (move_confined ctx d st)"
proof (rule act_spec_bind)
  show "act_spec (guarded ctx d st dst) (act_disk (\<lambda>fs. mkdir_p fs (butlast dst)))
     (\<lambda>_. parents_made ctx d st dst) (move_confined ctx d st)"
    by (rule act_spec_disk)
      (auto simp: guarded_def move_confined_same parents_made_def changed_def new_parent_def
        dest: mkdir_step prefix_order.order_trans [OF _ prefixeq_butlast])
qed (auto intro!: act_spec_bind [OF rename_spec [OF assms]] act_spec_ret)

lemma move_prologue_spec:
  assumes c: "ctx_ok (host_of st) ctx d" and s: "store_ok (host_of st) (grants_of st)"
    and f: "\<And>src dst. writable ctx d st src \<Longrightarrow> act_spec (guarded ctx d st dst) (f src dst) Q (move_confined ctx d st)"
  shows "act_spec (\<lambda>s. s = st)
    (act_bind (op_resolve ctx p True) (\<lambda>src. act_bind (op_resolve ctx q True) (\<lambda>dst.
     act_bind (ensure_under_active_scope ctx src) (\<lambda>_. act_bind (ensure_under_active_scope ctx dst) (\<lambda>_. f src dst)))))
    Q (move_confined ctx d st)"
proof (rule act_spec_bind [OF host_step_spec [where R = "\<lambda>src s. op_resolve ctx p True st = (ok src, s)"]])
  fix src
  let ?R1 = "\<lambda>dst s. \<exists>st1. op_resolve ctx p True st = (ok src, st1) \<and> op_resolve ctx q True st1 = (ok dst, s)"
  show "act_spec (\<lambda>s. op_resolve ctx p True st = (ok src, s)) (act_bind (op_resolve ctx q True) (\<lambda>dst.
     act_bind (ensure_under_active_scope ctx src) (\<lambda>_. act_bind (ensure_under_active_scope ctx dst) (\<lambda>_. f src dst))))
    Q (move_confined ctx d st)"
  proof (rule act_spec_bind [OF host_step_spec [where R = ?R1]])
    fix dst
    let ?R2 = "\<lambda>_ s. \<exists>st1 st2 u. op_resolve ctx p True st = (ok src, st1) \<and> op_resolve ctx q True st1 = (ok dst, st2) \<and>
      ensure_under_active_scope ctx src st2 = (ok u, s)"
    show "act_spec (?R1 dst) (act_bind (ensure_under_active_scope ctx src) (\<lambda>_.
        act_bind (ensure_under_active_scope ctx dst) (\<lambda>_. f src dst))) Q (move_confined ctx d st)"
    proof (rule act_spec_bind [OF host_step_spec [where R = ?R2]])
      fix u
      show "act_spec (?R2 u) (act_bind (ensure_under_active_scope ctx dst) (\<lambda>_. f src dst)) Q (move_confined ctx d st)"
      proof (rule act_spec_bind [OF host_step_spec [where R = "\<lambda>_ s. writable ctx d st src \<and> guarded ctx d st dst s"]])
        show "act_spec (\<lambda>s. writable ctx d st src \<and> guarded ctx d st dst s) (f src dst) Q (move_confined ctx d st)"
          using f by (auto simp: act_spec_def)
      next
        fix s1 v s2 assume "?R2 u s1" "ensure_under_active_scope ctx dst s1 = (ok v, s2)"
        with move_resolved [OF c s] show "writable ctx d st src \<and> guarded ctx d st dst s2" by blast
      qed (auto dest!: op_resolve_host ensure_state)
    qed (rule keeps_host_ensure, metis op_resolve_host, blast)
  qed (rule keeps_host_resolve, metis op_resolve_host, blast)
qed simp_all

text \<open>
  C2: \<open>move_file\<close> changes only nodes under a source and a destination that both pass every
  write check, and directories missing above the destination.
\<close>

theorem move_file_confined:
  assumes c: "ctx_ok (host_of st) ctx d" and s: "store_ok (host_of st) (grants_of st)"
  shows "move_confined ctx d st (snd (move_file ctx p q st))"
proof -
  have "act_spec (\<lambda>s. s = st) (move_file ctx p q) (\<lambda>_. move_confined ctx d st) (move_confined ctx d st)"
    unfolding move_file_def by (rule move_prologue_spec [OF c s move_body_spec])
  from act_specD [OF this refl] show ?thesis
    by (metis (no_types, lifting) prod.collapse sum.case_eq_if)
qed

end
