(* ===== verification/Fs_Contents.thy ===== *)
theory Fs_Contents
  imports Fs_Confine
begin

text \<open>
  What the file-system operations mean for contents: a write is read back, \<open>edit_file\<close> is the
  relation \<open>edits_to\<close> applied all or nothing, listings show exactly what is not excluded; and
  the places where the operations do less than their descriptions promise (one-shot write
  grants, moves of a directory with an excluded file, links to directories, overlapping
  edits).
\<close>

section \<open>Write, then read\<close>

lemma same_view_ctx:
  assumes "same_view h h'"
  shows "ctx_ok h' ctx d = ctx_ok h ctx d" "store_ok h' gs = store_ok h gs"
proof -
  have e: "resolved_on h' = resolved_on h" by (intro ext) (rule same_view_checks [OF assms])
  show "ctx_ok h' ctx d = ctx_ok h ctx d" by (simp add: ctx_ok_def e)
  show "store_ok h' gs = store_ok h gs" by (cases gs) (simp_all add: store_ok_def e)
qed

lemma write_file_ok:
  "write_file ctx p c st = (ok (t, n), st') \<longleftrightarrow>
    (\<exists>r st1 fs1 fs2. op_resolve ctx p True st = (ok r, st1) \<and>
       ensure_under_active_scope ctx r st1 = (ok (), st1) \<and>
       mkdir_p (disk (host_of st1)) (butlast r) = ok fs1 \<and> write_text fs1 r c = ok fs2 \<and>
       st' = st1\<lparr>host_of := (host_of st1)\<lparr>disk := fs2\<rparr>\<rparr> \<and> t = rpath_str r \<and> n = length (utf8 c))"
  (is "?L = ?R")
proof
  assume ?L
  then show ?R
    unfolding write_file_def act_bind_ok act_disk_ok act_ret_iff
    by (elim exE conjE) (frule ensure_state, auto)
next
  assume ?R
  then show ?L
    unfolding write_file_def act_bind_ok act_disk_ok act_ret_iff by fastforce
qed

text \<open>
  C35: a file written with \<open>write_file\<close> is read back by \<open>read_file\<close> at the same argument: the
  content up to Python's universal newlines, under the resolved name the write reported.
  This holds inside the ceiling and, through a standing grant, outside it.
\<close>

theorem write_then_read:
  assumes c: "ctx_ok (host_of st) ctx d" and s: "store_ok (host_of st) (grants_of st)"
    and w: "write_file ctx p txt st = (ok (t, n), st')"
  shows "fst (read_file ctx p st') = ok (t, universal_newlines txt)"
proof -
  from w obtain r st1 fs1 fs2 where r: "op_resolve ctx p True st = (ok r, st1)"
    and e: "ensure_under_active_scope ctx r st1 = (ok (), st1)"
    and m: "mkdir_p (disk (host_of st1)) (butlast r) = ok fs1" and wr: "write_text fs1 r txt = ok fs2"
    and st': "st' = st1\<lparr>host_of := (host_of st1)\<lparr>disk := fs2\<rparr>\<rparr>" and t: "t = rpath_str r"
    unfolding write_file_ok by blast
  have h1: "host_of st1 = host_of st" using op_resolve_host [OF r] .
  from write_prologue_writable [OF c s r e] have wb: "writable ctx d st r" by simp
  then have rr: "resolved_on (host_of st) r" by (simp add: writable_def)
  have "node_at fs1 r \<noteq> Some (LinkN l)" for l
    using resolved_not_link [OF rr] mkdir_step [OF m, of r] h1
    by (cases "node_at fs1 r = node_at (disk (host_of st1)) r") auto
  then have "same_links (disk (host_of st)) fs2"
    using mkdir_same_links [OF m] write_same_links [OF wr] same_links_trans h1 by metis
  then have v: "same_view (host_of st) (host_of st')" by (simp add: same_view_def st' h1)
  note ck = same_view_checks [OF v] same_view_ctx [OF v]
  have c': "ctx_ok (host_of st') ctx d" using c by (simp add: ck)
  have s': "store_ok (host_of st') (grants_of st')"
    using op_resolve_store [OF r s] by (simp only: ck) (simp add: st')
  from r op_resolve_spec [OF c s] have
    a: "resolve_path_arg (host_of st) p (rpath_path (ctx_ceiling ctx)) = ok r"
      "clear_of_system (host_of st) r" "may_reach ctx d (grants_of st) True r" by blast+
  have "may_write ctx d (grants_of st1) r"
    using ensure_under_active_scope_ok [of st1 ctx d r "()" st1] c op_resolve_store [OF r s] rr e
    by (simp add: h1)
  then have "may_reach ctx d (grants_of st') False r"
    using a(3) by (auto simp: may_reach_def may_write_def granted_iff st' split: if_splits)
  with a op_resolve_spec [OF c' s', of p False r] have
    rd: "op_resolve ctx p False st' = (ok r, after_resolve ctx False r st')" by (simp add: ck)
  have "read_text (disk (host_of st')) r = ok (universal_newlines txt)"
    using write_text_ok(3) [OF wr] by (simp add: st')
  with rd show ?thesis by (simp add: read_file_def act_bind_def act_ask_def act_ret_def t)
qed

section \<open>One-shot grants and writes\<close>

lemma consume_only_once:
  "\<forall>g \<in> set gs. grant_matches h r True g \<longrightarrow> lifetime g = Once \<Longrightarrow>
   length (filter (grant_matches h r True) gs) = 1 \<Longrightarrow>
   \<not> covers_write h (consume_once h gs r True) r"
proof (induction gs)
  case (Cons g gs)
  show ?case
  proof (cases "grant_matches h r True g")
    case True
    with Cons.prems have "filter (grant_matches h r True) gs = []" "lifetime g = Once" by simp_all
    moreover from True have "gmode g = RW" "is_subpath h (rpath_path r) (rpath_path (root g))"
      by (simp_all add: grant_matches_def)
    ultimately show ?thesis by (auto simp: covers_write_iff filter_empty_conv)
  next
    case False
    with Cons have "\<not> covers_write h (consume_once h gs r True) r" by simp
    moreover from False have "consume_once h (g # gs) r True = g # consume_once h gs r True"
      by (auto simp: grant_matches_def)
    ultimately show ?thesis using False by (simp add: covers_write_iff)
  qed
qed simp

text \<open>
  A one-shot rw grant never lets a write through. The resolution consumes it, and the
  write check that follows asks for a covering grant again: the write is refused with a scope
  violation, the disk is untouched, and the grant is gone.
\<close>

theorem once_grant_never_writes:
  assumes c: "ctx_ok (host_of st) ctx d" and s: "store_ok (host_of st) (grants_of st)"
    and g: "grants_of st = Some gs"
    and one: "length (filter (grant_matches (host_of st) r True) gs) = 1"
    and once: "\<forall>g \<in> set gs. grant_matches (host_of st) r True g \<longrightarrow> lifetime g = Once"
    and out: "\<not> prefix (ctx_ceiling ctx) r" and np: "\<forall>e \<in> set (protect d). \<not> prefix e r"
    and res: "op_resolve ctx p True st = (ok r, st1)"
  shows "write_file ctx p txt st =
      (Inl (ScopeViolationError (rpath_str r)),
       st\<lparr>grants_of := Some (consume_once (host_of st) gs r True)\<rparr>) \<and>
    edit_file ctx p es st =
      (Inl (ScopeViolationError (rpath_str r)),
       st\<lparr>grants_of := Some (consume_once (host_of st) gs r True)\<rparr>)"
proof -
  let ?st1 = "st\<lparr>grants_of := Some (consume_once (host_of st) gs r True)\<rparr>"
  have rr: "resolved_on (host_of st) r"
    using c op_resolve_resolved [OF _ res] by (simp add: ctx_ok_def)
  have cl: "resolved_on (host_of st) (ctx_ceiling ctx)" and d: "ctx_deny ctx = Some d"
    and pr: "list_all (resolved_on (host_of st)) (protect d)"
    using c by (simp_all add: ctx_ok_def)
  have st1: "st1 = ?st1"
    using res op_resolve_spec [OF c s, of p True r st1] out g by (simp add: after_resolve_def)
  have "\<not> covers_write (host_of st) (consume_once (host_of st) gs r True) r"
    using consume_only_once [OF once one] .
  then have "ensure_under_active_scope ctx r ?st1 = (Inl (ScopeViolationError (rpath_str r)), ?st1)"
    unfolding ensure_under_active_scope_def act_ask_def Let_def
    using not_protected_prefix [OF pr rr, of "rpath_path (ctx_ceiling ctx)"] np out d
    by (simp add: is_subpath_resolved [OF rr cl])
  then show ?thesis
    using res st1 by (simp_all add: write_file_def edit_file_def act_bind_def)
qed

section \<open>Edits\<close>

text \<open>What one edit means, without scanning: the text splits at the first occurrence, and no
  occurrence follows it.\<close>

definition edit_at :: "string \<Rightarrow> string \<Rightarrow> string \<Rightarrow> string \<Rightarrow> bool" where
  "edit_at old s pre post \<longleftrightarrow> s = pre @ old @ post \<and>
     (\<forall>i < length pre. \<not> prefix old (drop i s)) \<and> \<not> has_substr old post"

inductive edits_to :: "string \<Rightarrow> (string \<times> string) list \<Rightarrow> string \<Rightarrow> bool" where
  edits_none: "edits_to s [] s"
| edits_step: "edit_at old s pre post \<Longrightarrow> old \<noteq> [] \<Longrightarrow> edits_to (pre @ new @ post) es t
    \<Longrightarrow> edits_to s ((old, new) # es) t"
| edits_empty: "edits_to new es t \<Longrightarrow> edits_to [] (([], new) # es) t"

inductive_cases edits_to_cases: "edits_to s es t"

lemma count_sub_none: "old \<noteq> [] \<Longrightarrow> count_sub old s = 0 \<longleftrightarrow> \<not> has_substr old s"
proof (induction s)
  case Nil
  then show ?case by (simp add: count_sub.simps has_substr_iff)
next
  case (Cons c s)
  have "has_substr old (c # s) \<longleftrightarrow> prefix old (c # s) \<or> has_substr old s"
    by (auto simp: has_substr_iff prefix_def Cons_eq_append_conv)
  with Cons show ?case by (simp add: count_sub.simps)
qed

lemma first_occurrence:
  assumes "old \<noteq> []" "has_substr old s"
  shows "\<exists>pre post. s = pre @ old @ post \<and> (\<forall>i < length pre. \<not> prefix old (drop i s)) \<and>
    count_sub old s = Suc (count_sub old post) \<and> replace_first old new s = pre @ new @ post"
  using assms(2)
proof (induction s)
  case Nil
  with assms(1) show ?case by (simp add: has_substr_iff)
next
  case (Cons c s)
  show ?case
  proof (cases "prefix old (c # s)")
    case True
    then have "c # s = old @ drop (length old) (c # s)" by (auto simp: prefix_def)
    with True assms(1) show ?thesis
      by (intro exI [of _ "[]"] exI [of _ "drop (length old) (c # s)"]) (simp add: count_sub.simps)
  next
    case False
    with Cons.prems have "has_substr old s"
      by (auto simp: has_substr_iff prefix_def Cons_eq_append_conv)
    with Cons.IH obtain pre post where p: "s = pre @ old @ post"
      "\<forall>i < length pre. \<not> prefix old (drop i s)" "count_sub old s = Suc (count_sub old post)"
      "replace_first old new s = pre @ new @ post" by auto
    have "\<forall>i < length (c # pre). \<not> prefix old (drop i (c # s))"
      using p(2) False by (auto simp: less_Suc_eq_0_disj)
    moreover have "count_sub old (c # s) = Suc (count_sub old post)"
      "replace_first old new (c # s) = (c # pre) @ new @ post"
      using False assms(1) p(3,4) by (simp_all add: count_sub.simps)
    ultimately show ?thesis using p(1) by (intro exI [of _ "c # pre"] exI [of _ post]) simp
  qed
qed

lemma first_unique:
  assumes "edit_at old s pre post" "s = pre' @ old @ post'" "\<forall>i < length pre'. \<not> prefix old (drop i s)"
  shows "pre' = pre \<and> post' = post"
proof -
  have at: "s = u @ old @ v \<Longrightarrow> prefix old (drop (length u) s)" for u v by simp
  have "s = pre @ old @ post" using assms(1) by (simp add: edit_at_def)
  from at [OF this] at [OF assms(2)] assms(1,3) have "length pre = length pre'"
    unfolding edit_at_def by (metis linorder_neqE_nat)
  with assms(1,2) show ?thesis by (auto simp: edit_at_def)
qed

lemma count_sub_one:
  assumes "old \<noteq> []"
  shows "count_sub old s = 1 \<longleftrightarrow> (\<exists>pre post. edit_at old s pre post)"
proof
  assume "count_sub old s = 1"
  then have "has_substr old s" using count_sub_none [OF assms] by force
  from first_occurrence [OF assms this, of "[]"] obtain pre post where
    "s = pre @ old @ post" "\<forall>i < length pre. \<not> prefix old (drop i s)"
    "count_sub old s = Suc (count_sub old post)" by blast
  with \<open>count_sub old s = 1\<close> show "\<exists>pre post. edit_at old s pre post"
    using count_sub_none [OF assms, of post] unfolding edit_at_def by (metis One_nat_def diff_Suc_1)
next
  assume "\<exists>pre post. edit_at old s pre post"
  then obtain pre post where e: "edit_at old s pre post" by blast
  then have "has_substr old s" by (auto simp: edit_at_def has_substr_iff)
  from first_occurrence [OF assms this] obtain pre' post' where p: "s = pre' @ old @ post'"
    "\<forall>i < length pre'. \<not> prefix old (drop i s)" "count_sub old s = Suc (count_sub old post')" by blast
  then have "post' = post" using first_unique [OF e p(1,2)] by simp
  with e p(3) count_sub_none [OF assms, of post] show "count_sub old s = 1" by (simp add: edit_at_def)
qed

lemma replace_first_edit:
  assumes "old \<noteq> []" "edit_at old s pre post"
  shows "replace_first old new s = pre @ new @ post"
proof -
  have "has_substr old s" using assms(2) by (auto simp: edit_at_def has_substr_iff)
  from first_occurrence [OF assms(1) this, of new] obtain pre' post' where p: "s = pre' @ old @ post'"
    "\<forall>i < length pre'. \<not> prefix old (drop i s)" "replace_first old new s = pre' @ new @ post'" by blast
  with first_unique [OF assms(2) p(1,2)] show ?thesis by simp
qed

lemma apply_edits_sound:
  "apply_edits r es s n = ok (t, m) \<Longrightarrow> edits_to s es t \<and> m = n + length es"
proof (induction r es s n rule: apply_edits.induct)
  case (2 r old new es s n)
  then have one: "count_sub old s = 1" by (auto simp: Let_def split: if_splits)
  with 2 have t: "edits_to (replace_first old new s) es t" "m = n + length ((old, new) # es)"
    by (auto simp: Let_def)
  show ?case
  proof (cases "old = []")
    case True
    with one have "s = []" by (simp add: count_sub.simps)
    with t True show ?thesis by (auto intro: edits_empty)
  next
    case False
    from one count_sub_one [OF False] obtain pre post where e: "edit_at old s pre post" by blast
    with t replace_first_edit [OF False e] False show ?thesis by (auto intro: edits_step)
  qed
qed (auto intro: edits_none)

lemma apply_edits_complete:
  "edits_to s es t \<Longrightarrow> apply_edits r es s n = ok (t, n + length es)"
proof (induction s es t arbitrary: n rule: edits_to.induct)
  case (edits_step old s pre post new es t)
  then have "count_sub old s = 1" using count_sub_one by blast
  with edits_step replace_first_edit [of old s pre post new] show ?case by simp
qed (simp_all add: count_sub.simps)

text \<open>
  C36: \<open>edit_file\<close> is all or nothing. When it raises, the host is as before. When it returns,
  the target held a file, the edits lead from its text to the new text one after the other,
  each at an occurrence with none before and none after it, every edit is counted, and the
  target's node is the only one replaced.
\<close>

theorem edit_file_all_or_nothing:
  "case edit_file ctx p es st of
     (Inl e, st') \<Rightarrow> host_of st' = host_of st
   | (Inr (t, n), st') \<Rightarrow> n = length es \<and> (\<exists>r s txt. t = rpath_str r \<and>
       node_at (disk (host_of st)) r = Some (FileN s) \<and>
       edits_to (universal_newlines s) es txt \<and>
       disk (host_of st') = AList.update r (FileN txt) (disk (host_of st)))"
proof (cases "edit_file ctx p es st")
  case (Pair x st')
  show ?thesis
  proof (cases x)
    case (Inl e)
    with Pair show ?thesis
      unfolding edit_file_def
      by (auto elim!: act_bind_cases dest!: op_resolve_host ensure_state simp: act_disk_err split: prod.splits)
  next
    case (Inr y)
    with Pair obtain r st1 st2 s txt' where
      r: "op_resolve ctx p True st = (ok r, st1)" and e: "ensure_under_active_scope ctx r st1 = (ok (), st2)"
      and s: "read_text (disk (host_of st2)) r = ok s" and a: "apply_edits r es s 0 = ok (txt', snd y)"
      and w: "write_text (disk (host_of st2)) r txt' = ok (disk (host_of st'))" and t: "fst y = rpath_str r"
      unfolding edit_file_def act_bind_ok act_ask_iff act_ret_iff act_disk_ok
      by (auto simp: act_bind_ok act_disk_ok split: prod.splits dest!: sym [of "Inr _"])
    have h: "host_of st2 = host_of st" using op_resolve_host [OF r] ensure_state [OF e] by simp
    from s h obtain f where f: "node_at (disk (host_of st)) r = Some (FileN f)" "s = universal_newlines f"
      by (auto simp: read_text_def split: option.splits node.splits)
    from w h have d: "disk (host_of st') = AList.update r (FileN txt') (disk (host_of st))"
      by (auto simp: write_text_def split: if_splits option.splits node.splits)
    from apply_edits_sound [OF a] f d t have
      "snd y = length es \<and> (\<exists>r s txt. fst y = rpath_str r \<and>
       node_at (disk (host_of st)) r = Some (FileN s) \<and>
       edits_to (universal_newlines s) es txt \<and>
       disk (host_of st') = AList.update r (FileN txt) (disk (host_of st)))" by auto
    with Pair Inr show ?thesis by (cases y) simp
  qed
qed

section \<open>Listings\<close>

lemma filter_res_ok:
  "filter_res f xs = ok ys \<longleftrightarrow> (\<forall>x \<in> set xs. \<exists>b. f x = ok b) \<and> ys = filter (\<lambda>x. f x = ok True) xs"
proof (induction xs arbitrary: ys)
  case (Cons x xs)
  show ?case
  proof (cases "f x")
    case (Inr b)
    then show ?thesis using Cons by (cases b) auto
  qed simp
qed auto

text \<open>A child as the listing filter sees it.\<close>

definition shown :: "host \<Rightarrow> rpath list \<Rightarrow> rpath \<Rightarrow> bool" where
  "shown h ex c \<longleftrightarrow> ex = [] \<or> (\<exists>r. resolve_on h (rpath_path c) = Some r \<and> (\<forall>x \<in> set ex. \<not> prefix x r))"

lemma is_hidden_shown:
  assumes "list_all (resolved_on h) ex" "rpath_ok c"
  shows "is_hidden h c ex = ok False \<longleftrightarrow> shown h ex c"
proof -
  have "resolve_on h (rpath_path c) = Some r \<Longrightarrow> resolved_on h r" for r
    using resolved_onI [of "rpath_path c" h r] assms(2) by simp
  with assms(1) show ?thesis
    by (auto simp: is_hidden_def shown_def is_denied_def list_ex_iff list_all_iff is_subpath_resolved)
qed


text \<open>
  \<open>list_directory\<close> lists a child exactly when it does not resolve to a path under an exclude
  entry, each with its name and kind, in sorted order: no excluded entry is shown, and no
  other is dropped.
\<close>

theorem list_directory_shows:
  assumes c: "ctx_ok (host_of st) ctx d" and kids: "list_all ok_seg (children (disk (host_of st)) r)"
    and l: "list_directory ctx p st = (ok (rpath_str r, es), st')" and r: "op_resolve ctx p False st = (ok r, st1)"
  shows "es = map (\<lambda>n. (n, entry_kind (host_of st) (r @ [n])))
     (filter (\<lambda>n. shown (host_of st) (exclude d) (r @ [n])) (sort (children (disk (host_of st)) r)))"
proof -
  let ?h = "host_of st"
  have d: "ctx_deny ctx = Some d" and ex: "list_all (resolved_on ?h) (exclude d)"
    and cl: "resolved_on ?h (ctx_ceiling ctx)" using c by (simp_all add: ctx_ok_def)
  have rr: "resolved_on ?h r" using op_resolve_resolved [OF cl r] .
  have h1: "host_of st1 = ?h" using op_resolve_host [OF r] .
  from l r obtain cs where cs: "visible_children ?h r (exclude d) = ok cs"
    and es: "es = map (\<lambda>c. (path_name c, entry_kind ?h c)) cs"
    by (auto simp: list_directory_def act_bind_ok Let_def h1 d exclude_list_def
        dest!: sym [of "Inr _"])
  have it: "iterdir ?h r = ok ns \<Longrightarrow> ns = children (disk ?h) r" for ns
    using rr by (auto simp: iterdir_def resolved_on_def split: option.splits node.splits)
  have nx: "(\<exists>b. A = ok b \<and> \<not> b) = (A = ok False)" for A :: "bool result" by (metis (full_types))
  from cs it have f: "cs = filter (\<lambda>c. is_hidden ?h c (exclude d) = ok False)
      (map (\<lambda>n. r @ [n]) (sort (children (disk ?h) r)))"
    unfolding visible_children_def rbind_eq_Inr filter_res_ok by (auto simp: nx)
  have "is_hidden ?h (r @ [n]) (exclude d) = ok False \<longleftrightarrow> shown ?h (exclude d) (r @ [n])"
    if "n \<in> set (children (disk ?h) r)" for n
    using that kids rr by (intro is_hidden_shown [OF ex]) (auto simp: rpath_ok_def resolved_on_def list_all_iff)
  then have "filter (\<lambda>n. is_hidden ?h (r @ [n]) (exclude d) = ok False) (sort (children (disk ?h) r)) =
      filter (\<lambda>n. shown ?h (exclude d) (r @ [n])) (sort (children (disk ?h) r))"
    by (intro filter_cong) auto
  then show ?thesis
    unfolding es f filter_map by (simp add: path_name_def comp_def)
qed

section \<open>A concrete site\<close>

text \<open>A workspace \<open>/w\<close> with an excluded file, a link out of it, and a tree \<open>/x\<close> outside it.\<close>

definition demo_host :: host where
  "demo_host = \<lparr>environ = (\<lambda>_. None), cwd = ''/w'',
     disk = [([''w''], DirN), ([''w'', ''a''], FileN ''one two''), ([''w'', ''s''], DirN),
             ([''w'', ''s'', ''key''], FileN ''k''), ([''w'', ''out''], LinkN ''/x''),
             ([''x''], DirN), ([''x'', ''f''], FileN ''far'')],
     pw_home = (\<lambda>_. None), uid_home = None\<rparr>"

definition demo_deny :: deny_lists where
  "demo_deny = \<lparr>exclude = [[''w'', ''s'', ''key'']], protect = [[''w'', ''p'']]\<rparr>"

definition demo_ctx :: op_ctx where
  "demo_ctx = \<lparr>ctx_ceiling = [''w''], ctx_scope = [], ctx_deny = Some demo_deny\<rparr>"

definition demo_st :: fs_state where
  "demo_st = \<lparr>host_of = demo_host, grants_of = Some [\<lparr>root = [''x''], gmode = RW, lifetime = Once\<rparr>]\<rparr>"

lemma demo_ok: "ctx_ok (host_of demo_st) demo_ctx demo_deny" "store_ok (host_of demo_st) (grants_of demo_st)"
  by code_simp+

theorem write_ops_confined_witness:
  "confined demo_ctx demo_deny demo_st (snd (write_file demo_ctx ''b'' ''t'' demo_st)) \<and>
   confined demo_ctx demo_deny demo_st (snd (edit_file demo_ctx ''a'' [(''one'', ''1'')] demo_st)) \<and>
   confined demo_ctx demo_deny demo_st (snd (create_directory demo_ctx ''c/d'' demo_st))"
  using write_ops_confined [OF demo_ok] by blast

theorem move_file_confined_witness:
  "move_confined demo_ctx demo_deny demo_st (snd (move_file demo_ctx ''a'' ''n/a'' demo_st))"
  by (rule move_file_confined [OF demo_ok])

theorem write_then_read_witness:
  "fst (read_file demo_ctx ''n/b'' (snd (write_file demo_ctx ''n/b'' ''text'' demo_st))) =
     ok (''/w/n/b'', universal_newlines ''text'')"
proof (rule write_then_read [OF demo_ok])
  have "fst (write_file demo_ctx ''n/b'' ''text'' demo_st) = ok (''/w/n/b'', 4)" by code_simp
  then show "write_file demo_ctx ''n/b'' ''text'' demo_st =
      (ok (''/w/n/b'', 4), snd (write_file demo_ctx ''n/b'' ''text'' demo_st))"
    by (metis prod.collapse)
qed

theorem once_grant_never_writes_witness:
  "write_file demo_ctx ''/x/g'' ''t'' demo_st =
     (Inl (ScopeViolationError ''/x/g''),
      demo_st\<lparr>grants_of := Some (consume_once (host_of demo_st)
        [\<lparr>root = [''x''], gmode = RW, lifetime = Once\<rparr>] [''x'', ''g''] True)\<rparr>)"
proof -
  have f: "fst (op_resolve demo_ctx ''/x/g'' True demo_st) = ok [''x'', ''g'']" by code_simp
  have s: "rpath_str [''x'', ''g''] = ''/x/g''" by code_simp
  show ?thesis
    by (rule once_grant_never_writes [OF demo_ok, of "[\<lparr>root = [''x''], gmode = RW, lifetime = Once\<rparr>]"
          "[''x'', ''g'']" "''/x/g''" "snd (op_resolve demo_ctx ''/x/g'' True demo_st)", unfolded s,
          THEN conjunct1]) (simp add: demo_st_def, code_simp, code_simp, code_simp, code_simp, metis f prod.collapse)
qed

theorem list_directory_shows_witness:
  "[(''a'', FileE), (''out'', DirectoryE), (''s'', DirectoryE)] =
    map (\<lambda>n. (n, entry_kind (host_of demo_st) ([''w''] @ [n])))
     (filter (\<lambda>n. shown (host_of demo_st) (exclude demo_deny) ([''w''] @ [n]))
       (sort (children (disk (host_of demo_st)) [''w''])))"
proof (rule list_directory_shows [OF demo_ok(1)])
  show "list_all ok_seg (children (disk (host_of demo_st)) [''w''])" by code_simp
  have "fst (op_resolve demo_ctx ''.'' False demo_st) = ok [''w'']" by code_simp
  then show "op_resolve demo_ctx ''.'' False demo_st = (ok [''w''], snd (op_resolve demo_ctx ''.'' False demo_st))"
    by (metis prod.collapse)
  have "fst (list_directory demo_ctx ''.'' demo_st) =
      ok (rpath_str [''w''], [(''a'', FileE), (''out'', DirectoryE), (''s'', DirectoryE)])" by code_simp
  then show "list_directory demo_ctx ''.'' demo_st =
      (ok (rpath_str [''w''], [(''a'', FileE), (''out'', DirectoryE), (''s'', DirectoryE)]),
       snd (list_directory demo_ctx ''.'' demo_st))" by (metis prod.collapse)
qed

text \<open>
  Excluding a file does not follow it through a move. The excluded file cannot be read;
  after one \<open>move_file\<close> of the directory above it, which every check lets through, it can.
\<close>

theorem move_unhides_excluded:
  "fst (read_file demo_ctx ''s/key'' demo_st) = Inl (PathDeniedError ''/w/s/key'') \<and>
   (let (x, st') = move_file demo_ctx ''s'' ''t'' demo_st in
     x = ok (''/w/s'', ''/w/t'') \<and> fst (read_file demo_ctx ''t/key'' st') = ok (''/w/t/key'', ''k''))"
  by code_simp

text \<open>
  \<open>directory_tree\<close> leaves the ceiling through a directory link: the tree of the ceiling
  shows the files behind the link, which \<open>list_directory\<close> refuses to list.
\<close>

theorem directory_tree_leaves_ceiling:
  "(case fst (directory_tree demo_ctx ''.'' demo_st) of
      Inr (_, Dir _ ts) \<Rightarrow> Dir ''out'' [Leaf ''f''] \<in> set ts | _ \<Rightarrow> False) \<and>
   fst (list_directory demo_ctx ''out'' (demo_st\<lparr>grants_of := None\<rparr>)) = Inl (PathSafetyError ''/x'')"
  by code_simp

text \<open>
  The uniqueness test of \<open>edit_file\<close> counts non-overlapping occurrences, so a snippet that
  occurs twice with an overlap passes as unique and its first occurrence is replaced.
\<close>

theorem overlapping_edit_accepted:
  "apply_edits r [(''aa'', ''b'')] ''aaa'' 0 = ok (''ba'', 1) \<and>
   prefix ''aa'' (drop 0 ''aaa'') \<and> prefix ''aa'' (drop 1 ''aaa'')"
  by (simp add: count_sub.simps)

end
