(* ===== verification/Json_Schema.thy ===== *)
theory Json_Schema
  imports Json
begin

text \<open>
  The JSON Schema documents the servers declare for their tools. The keywords the code uses are
  \<open>type\<close>, \<open>enum\<close>, \<open>minimum\<close>, \<open>items\<close>, \<open>minItems\<close>, \<open>properties\<close>, \<open>required\<close> and \<open>additionalProperties\<close>;
  \<open>schema_json\<close> is the document (without its descriptions), \<open>conforms\<close> what these keywords demand of an
  instance. The validator itself is the library's; the theorems about it take it as a parameter.
\<close>

datatype schema =
    TString "string list option"   \<comment> \<open>\<open>enum\<close>\<close>
  | TInteger "int option"   \<comment> \<open>\<open>minimum\<close>\<close>
  | TNumber
  | TArray schema nat   \<comment> \<open>\<open>items\<close> and \<open>minItems\<close>\<close>
  | TMap schema   \<comment> \<open>\<open>additionalProperties\<close>\<close>
  | TObject "(string \<times> schema) list" "string list"   \<comment> \<open>\<open>properties\<close> and \<open>required\<close>\<close>

fun schema_json :: "schema \<Rightarrow> json" where
  "schema_json (TString en) = JObj ((''type'', JStr ''string'') #
     (case en of None \<Rightarrow> [] | Some xs \<Rightarrow> [(''enum'', JList (map JStr xs))]))"
| "schema_json (TInteger mn) = JObj ((''type'', JStr ''integer'') #
     (case mn of None \<Rightarrow> [] | Some n \<Rightarrow> [(''minimum'', JInt n)]))"
| "schema_json TNumber = JObj [(''type'', JStr ''number'')]"
| "schema_json (TArray s n) = JObj ([(''type'', JStr ''array''), (''items'', schema_json s)] @
     (if n = 0 then [] else [(''minItems'', JInt (int n))]))"
| "schema_json (TMap s) = JObj [(''type'', JStr ''object''), (''additionalProperties'', schema_json s)]"
| "schema_json (TObject ps req) = JObj ([(''type'', JStr ''object''),
     (''properties'', JObj (map (\<lambda>(k, s). (k, schema_json s)) ps))] @
     (if req = [] then [] else [(''required'', JList (map JStr req))]))"

text \<open>An absent property is constrained by \<open>required\<close> alone; a boolean is no number.\<close>

fun conforms :: "schema \<Rightarrow> json \<Rightarrow> bool" where
  "conforms (TString en) j = (case j of
     JStr s \<Rightarrow> (case en of None \<Rightarrow> True | Some xs \<Rightarrow> s \<in> set xs) | _ \<Rightarrow> False)"
| "conforms (TInteger mn) j = (case j of
     JInt n \<Rightarrow> (case mn of None \<Rightarrow> True | Some m \<Rightarrow> m \<le> n) | _ \<Rightarrow> False)"
| "conforms TNumber j = (case j of JInt n \<Rightarrow> True | _ \<Rightarrow> False)"
| "conforms (TArray s n) j = (case j of JList xs \<Rightarrow> n \<le> length xs \<and> list_all (conforms s) xs | _ \<Rightarrow> False)"
| "conforms (TMap s) j = (case j of JObj kvs \<Rightarrow> list_all (\<lambda>(k, v). conforms s v) kvs | _ \<Rightarrow> False)"
| "conforms (TObject ps req) j = (case j of
     JObj kvs \<Rightarrow> list_all (\<lambda>k. map_of kvs k \<noteq> None) req \<and>
       list_all (\<lambda>(k, s). case map_of kvs k of None \<Rightarrow> True | Some v \<Rightarrow> conforms s v) ps
   | _ \<Rightarrow> False)"

text \<open>A validator that enforces these keywords. Which further constraints it has is left open.\<close>

definition enforces :: "(json \<Rightarrow> json \<Rightarrow> bool) \<Rightarrow> bool" where
  "enforces accepts \<longleftrightarrow> (\<forall>s j. accepts (schema_json s) j \<longrightarrow> conforms s j)"

section \<open>Descriptors\<close>

text \<open>A tool as it is listed: its name, under the scope id of the instance, and its input schema.\<close>

type_synonym descriptor = "string \<times> schema"

definition prefixed :: "string \<Rightarrow> string option \<Rightarrow> string" where
  "prefixed name sid = (case sid of Some s \<Rightarrow> if s = [] then name else s @ ''_'' @ name | None \<Rightarrow> name)"

lemma prefixed_inj [simp]: "prefixed m sid = prefixed n sid \<longleftrightarrow> m = n"
  by (simp add: prefixed_def split: option.split)

section \<open>Reading conforming instances\<close>

named_theorems shape_facts

lemma conforms_string [shape_facts]: "conforms (TString en) j \<longleftrightarrow> (\<exists>s. j = JStr s \<and> (\<forall>xs. en = Some xs \<longrightarrow> s \<in> set xs))"
  by (auto split: json.split option.split)

lemma conforms_integer [shape_facts]: "conforms (TInteger mn) j \<longleftrightarrow> (\<exists>n. j = JInt n \<and> (\<forall>m. mn = Some m \<longrightarrow> m \<le> n))"
  by (auto split: json.split option.split)

lemma conforms_number [shape_facts]: "conforms TNumber j \<longleftrightarrow> (\<exists>n. j = JInt n)"
  by (auto split: json.split)

lemma conforms_array [shape_facts]:
  "conforms (TArray s n) j \<longleftrightarrow> (\<exists>xs. j = JList xs \<and> n \<le> length xs \<and> (\<forall>x \<in> set xs. conforms s x))"
  by (auto simp: list_all_iff split: json.split)

lemma conforms_map [shape_facts]:
  "conforms (TMap s) j \<longleftrightarrow> (\<exists>kvs. j = JObj kvs \<and> (\<forall>(k, v) \<in> set kvs. conforms s v))"
  by (auto simp: list_all_iff split: json.split)

lemma conforms_object:
  "conforms (TObject ps req) j \<longleftrightarrow> (\<exists>kvs. j = JObj kvs \<and> (\<forall>k \<in> set req. map_of kvs k \<noteq> None) \<and>
     (\<forall>(k, s) \<in> set ps. \<forall>v. map_of kvs k = Some v \<longrightarrow> conforms s v))"
  by (auto simp: list_all_iff split: json.split option.split)

declare conforms.simps [simp del]

lemma required_field:
  assumes "conforms (TObject ps req) (JObj kvs)" "k \<in> set req" "(k, s) \<in> set ps"
  obtains v where "map_of kvs k = Some v" "conforms s v"
  using assms by (fastforce simp: conforms_object)

lemma optional_field:
  assumes "conforms (TObject ps req) (JObj kvs)" "(k, s) \<in> set ps"
  shows "map_of kvs k = None \<or> (\<exists>v. map_of kvs k = Some v \<and> conforms s v)"
  using assms by (cases "map_of kvs k") (fastforce simp: conforms_object)+

lemma strings_of_array:
  assumes "\<forall>x \<in> set xs. conforms (TString None) x"
  obtains ss where "xs = map JStr ss"
proof -
  from assms have "xs = map JStr (map (\<lambda>j. case j of JStr s \<Rightarrow> s | _ \<Rightarrow> []) xs)"
    by (induction xs) (auto simp: shape_facts)
  with that show thesis by blast
qed

lemma enforcesD: "enforces accepts \<Longrightarrow> accepts (schema_json s) j \<Longrightarrow> conforms s j"
  by (simp add: enforces_def)

text \<open>The document determines the schema.\<close>

lemma map_JStr_inj: "map JStr xs = map JStr ys \<Longrightarrow> xs = ys"
  by (rule map_injective) (auto simp: inj_def)

lemma schema_json_inj: "schema_json s = schema_json t \<Longrightarrow> s = t"
proof (induction s arbitrary: t)
  case (TString en)
  then show ?case by (cases t) (auto split: option.splits if_splits dest: map_JStr_inj)
next
  case (TObject ps req)
  have ps: "map (\<lambda>(k, s). (k, schema_json s)) qs = map (\<lambda>(k, s). (k, schema_json s)) qs' \<Longrightarrow> set qs \<subseteq> set ps \<Longrightarrow> qs = qs'" for qs qs'
  proof (induction qs arbitrary: qs')
    case (Cons x qs)
    then obtain y ys where y: "qs' = y # ys" by (cases qs') auto
    with Cons show ?case using TObject.IH [of x "snd x" "snd y"] by (cases x; cases y) auto
  qed simp
  from TObject.prems show ?case by (cases t) (auto split: option.splits if_splits dest: ps map_JStr_inj)
qed (case_tac t; auto split: option.splits if_splits)+

end
