(* ===== verification/Fs_Tools.thy ===== *)
theory Fs_Tools
  imports Fs_Contents Json_Schema
begin

text \<open>
  The tools of \<open>hares/fs/operations.py\<close> as they are registered: the tables \<open>READ_OPS\<close> and \<open>WRITE_OPS\<close> with
  their input schemas, and the handlers on the JSON object of a call. A handler reads each argument
  where the code reads it, so a missing or ill-typed one raises after whatever was done before. On arguments
  that conform to the schema of the tool, a handler is the typed operation on the fields.
\<close>

section \<open>Tools\<close>

datatype fs_op = Read_File | Read_Text_File | Read_Multiple_Files | List_Directory | List_Directory_With_Sizes
  | Directory_Tree | Search_Files | Get_File_Info | Write_File | Edit_File | Create_Directory | Move_File

fun op_name :: "fs_op \<Rightarrow> string" where
  "op_name Read_File = ''read_file''"
| "op_name Read_Text_File = ''read_text_file''"
| "op_name Read_Multiple_Files = ''read_multiple_files''"
| "op_name List_Directory = ''list_directory''"
| "op_name List_Directory_With_Sizes = ''list_directory_with_sizes''"
| "op_name Directory_Tree = ''directory_tree''"
| "op_name Search_Files = ''search_files''"
| "op_name Get_File_Info = ''get_file_info''"
| "op_name Write_File = ''write_file''"
| "op_name Edit_File = ''edit_file''"
| "op_name Create_Directory = ''create_directory''"
| "op_name Move_File = ''move_file''"

definition READ_OPS :: "fs_op list" where
  "READ_OPS = [Read_File, Read_Text_File, Read_Multiple_Files, List_Directory, List_Directory_With_Sizes,
     Directory_Tree, Search_Files, Get_File_Info]"

definition WRITE_OPS :: "fs_op list" where
  "WRITE_OPS = [Write_File, Edit_File, Create_Directory, Move_File]"

fun op_schema :: "fs_op \<Rightarrow> schema" where
  "op_schema Read_Multiple_Files = TObject [(''paths'', TArray (TString None) 0)] [''paths'']"
| "op_schema Search_Files = TObject [(''path'', TString None), (''pattern'', TString None)] [''path'', ''pattern'']"
| "op_schema Write_File = TObject [(''path'', TString None), (''content'', TString None)] [''path'', ''content'']"
| "op_schema Edit_File = TObject [(''path'', TString None), (''edits'', TArray (TObject
     [(''oldText'', TString None), (''newText'', TString None)] [''oldText'', ''newText'']) 0)] [''path'', ''edits'']"
| "op_schema Move_File = TObject [(''source'', TString None), (''destination'', TString None)] [''source'', ''destination'']"
| "op_schema _ = TObject [(''path'', TString None)] [''path'']"

definition op_descriptor :: "string option \<Rightarrow> fs_op \<Rightarrow> descriptor" where
  "op_descriptor sid op = (prefixed (op_name op) sid, op_schema op)"

section \<open>Handlers\<close>

datatype fs_reply =
    TextReply "string \<times> string"
  | TextsReply "(string \<times> string result) list"
  | ListReply "string \<times> (string \<times> entry_kind) list"
  | SizesReply "string \<times> (string \<times> entry_kind \<times> nat option) list"
  | TreeReply "string \<times> dir_tree"
  | MatchesReply "string \<times> string list"
  | InfoReply "string \<times> nat option \<times> entry_kind"
  | WroteReply "string \<times> nat"
  | MadeReply string
  | MovedReply "string \<times> string"

definition act_map :: "('a \<Rightarrow> 'b) \<Rightarrow> 'a act \<Rightarrow> 'b act" where
  "act_map f m = act_bind m (\<lambda>x. act_ret (f x))"

type_synonym args = "(string \<times> json) list"

definition item :: "(string \<times> json) list \<Rightarrow> string \<Rightarrow> json result" where
  "item kvs k = from_option (KeyError k) (map_of kvs k)"

definition act_lift :: "'a result \<Rightarrow> 'a act" where
  "act_lift x = act_ask (\<lambda>_. x)"

text \<open>What is no string has no \<open>replace\<close> for \<open>validate_path_no_traversal\<close> to call.\<close>

definition path_text :: "json \<Rightarrow> string result" where
  "path_text j = (case j of JStr s \<Rightarrow> ok s | _ \<Rightarrow> raise_err (AttributeError ''replace''))"

definition text_of :: "json \<Rightarrow> string result" where
  "text_of j = (case j of JStr s \<Rightarrow> ok s | _ \<Rightarrow> raise_err (TypeError ''str''))"

definition on_path :: "args \<Rightarrow> string \<Rightarrow> (string \<Rightarrow> 'a act) \<Rightarrow> 'a act" where
  "on_path args k f = act_bind (act_lift (rbind (item args k) path_text)) f"

text \<open>The loop over \<open>paths\<close> stops at the first item that is no string.\<close>

definition read_paths :: "op_ctx \<Rightarrow> json list \<Rightarrow> (string \<times> string result) list act" where
  "read_paths ctx js =
     (let strs = takeWhile (\<lambda>j. is_ok (path_text j)) js in
      act_bind (read_multiple_files ctx (map (\<lambda>j. projr (path_text j)) strs) []) (\<lambda>out.
      act_lift (rbind (collect path_text (drop (length strs) js)) (\<lambda>_. ok out))))"

text \<open>A pattern that is no string is noticed when it first meets a name; with no visible entry in the
  directory it never is.\<close>

fun meets_a_name :: "host \<Rightarrow> rpath list \<Rightarrow> rpath list \<Rightarrow> unit result" where
  "meets_a_name h excluded [] = ok ()"
| "meets_a_name h excluded (p # ps) =
     rbind (is_hidden h p excluded) (\<lambda>b. if b then meets_a_name h excluded ps else raise_err (TypeError ''fspath''))"

definition search_no_pattern :: "op_ctx \<Rightarrow> string \<Rightarrow> (string \<times> string list) act" where
  "search_no_pattern ctx path =
     act_bind (op_resolve ctx path False) (\<lambda>target.
     act_ask (\<lambda>st. let h = host_of st in
       rbind (exclude_list h (ctx_ceiling ctx) (ctx_deny ctx)) (\<lambda>excluded.
       case iterdir h target of Inl _ \<Rightarrow> ok (rpath_str target, [])
       | Inr names \<Rightarrow>
           (let ps = map (\<lambda>m. target @ [m]) names in
            rbind (filter_res (\<lambda>p. rbind (is_hidden h p excluded) (\<lambda>b. ok (\<not> b))) (filter (is_dir h) ps)) (\<lambda>dirs.
            rbind (meets_a_name h excluded (filter (\<lambda>p. \<not> is_dir h p) ps @ dirs)) (\<lambda>_.
            ok (rpath_str target, [])))))))"

text \<open>\<open>args["pattern"]\<close> is read when the path is resolved and the exclude list known.\<close>

definition search_args :: "op_ctx \<Rightarrow> args \<Rightarrow> string \<Rightarrow> (string \<times> string list) act" where
  "search_args ctx args path =
     (case map_of args ''pattern'' of
        Some (JStr pat) \<Rightarrow> search_files ctx path pat
      | Some _ \<Rightarrow> search_no_pattern ctx path
      | None \<Rightarrow>
          act_bind (op_resolve ctx path False) (\<lambda>target.
          act_ask (\<lambda>st. rbind (exclude_list (host_of st) (ctx_ceiling ctx) (ctx_deny ctx)) (\<lambda>_.
            raise_err (KeyError ''pattern'')))))"

definition write_args :: "op_ctx \<Rightarrow> args \<Rightarrow> string \<Rightarrow> (string \<times> nat) act" where
  "write_args ctx args path =
     act_bind (op_resolve ctx path True) (\<lambda>target.
     act_bind (ensure_under_active_scope ctx target) (\<lambda>_.
     act_bind (act_lift (item args ''content'')) (\<lambda>j.
     act_bind (act_disk (\<lambda>d. mkdir_p d (butlast target))) (\<lambda>_.
     act_bind (act_lift (text_of j)) (\<lambda>content.
     act_bind (act_disk (\<lambda>d. write_text d target content)) (\<lambda>_.
     act_ret (rpath_str target, length (utf8 content))))))))"

text \<open>The two items of an edit are read before \<open>count\<close> and \<open>replace\<close> see what they are.\<close>

definition edit_items :: "json \<Rightarrow> (json \<times> json) result" where
  "edit_items j = (case j of
      JObj kvs \<Rightarrow> rbind (item kvs ''oldText'') (\<lambda>old. rbind (item kvs ''newText'') (\<lambda>new. ok (old, new)))
    | _ \<Rightarrow> raise_err (TypeError ''indices''))"

fun apply_edit_items :: "rpath \<Rightarrow> json list \<Rightarrow> string \<Rightarrow> nat \<Rightarrow> (string \<times> nat) result" where
  "apply_edit_items target [] txt applied = ok (txt, applied)"
| "apply_edit_items target (j # js) txt applied =
     rbind (edit_items j) (\<lambda>(jold, jnew).
     rbind (text_of jold) (\<lambda>old.
     let n = count_sub old txt in
     if n = 0 then raise_err (ValueError ''oldText not found'')
     else if n > 1 then raise_err (ValueError ''oldText matches more than once'')
     else rbind (text_of jnew) (\<lambda>new. apply_edit_items target js (replace_first old new txt) (Suc applied))))"

definition edit_args :: "op_ctx \<Rightarrow> args \<Rightarrow> string \<Rightarrow> (string \<times> nat) act" where
  "edit_args ctx args path =
     act_bind (op_resolve ctx path True) (\<lambda>target.
     act_bind (ensure_under_active_scope ctx target) (\<lambda>_.
     act_bind (act_ask (\<lambda>st. read_text (disk (host_of st)) target)) (\<lambda>txt.
     act_bind (act_lift (rbind (json_iter (case map_of args ''edits'' of None \<Rightarrow> JList [] | Some j \<Rightarrow> j))
       (\<lambda>js. apply_edit_items target js txt 0))) (\<lambda>(txt', applied).
     act_bind (act_disk (\<lambda>d. write_text d target txt')) (\<lambda>_.
     act_ret (rpath_str target, applied))))))"

definition move_args :: "op_ctx \<Rightarrow> args \<Rightarrow> string \<Rightarrow> (string \<times> string) act" where
  "move_args ctx args source =
     act_bind (op_resolve ctx source True) (\<lambda>src.
     on_path args ''destination'' (\<lambda>destination.
     act_bind (op_resolve ctx destination True) (\<lambda>dst.
     act_bind (ensure_under_active_scope ctx src) (\<lambda>_.
     act_bind (ensure_under_active_scope ctx dst) (\<lambda>_.
     act_bind (act_disk (\<lambda>d. mkdir_p d (butlast dst))) (\<lambda>_.
     act_bind (act_disk (\<lambda>d. rename_node d src dst)) (\<lambda>_.
     act_ret (rpath_str src, rpath_str dst))))))))"

fun fs_handler :: "op_ctx \<Rightarrow> fs_op \<Rightarrow> args \<Rightarrow> fs_reply act" where
  "fs_handler ctx Read_File a = act_map TextReply (on_path a ''path'' (read_file ctx))"
| "fs_handler ctx Read_Text_File a = act_map TextReply (on_path a ''path'' (read_text_file ctx))"
| "fs_handler ctx Read_Multiple_Files a = act_map TextsReply
     (act_bind (act_lift (json_iter (case map_of a ''paths'' of None \<Rightarrow> JList [] | Some j \<Rightarrow> j))) (read_paths ctx))"
| "fs_handler ctx List_Directory a = act_map ListReply (on_path a ''path'' (list_directory ctx))"
| "fs_handler ctx List_Directory_With_Sizes a = act_map SizesReply (on_path a ''path'' (list_directory_with_sizes ctx))"
| "fs_handler ctx Directory_Tree a = act_map TreeReply (on_path a ''path'' (directory_tree ctx))"
| "fs_handler ctx Search_Files a = act_map MatchesReply (on_path a ''path'' (search_args ctx a))"
| "fs_handler ctx Get_File_Info a = act_map InfoReply (on_path a ''path'' (get_file_info ctx))"
| "fs_handler ctx Write_File a = act_map WroteReply (on_path a ''path'' (write_args ctx a))"
| "fs_handler ctx Edit_File a = act_map WroteReply (on_path a ''path'' (edit_args ctx a))"
| "fs_handler ctx Create_Directory a = act_map MadeReply (on_path a ''path'' (create_directory ctx))"
| "fs_handler ctx Move_File a = act_map MovedReply (on_path a ''source'' (move_args ctx a))"

section \<open>Conforming calls\<close>

text \<open>The fields of a conforming call, and the operation it means.\<close>

definition str_at :: "args \<Rightarrow> string \<Rightarrow> string" where
  "str_at a k = (case map_of a k of Some (JStr s) \<Rightarrow> s | _ \<Rightarrow> [])"

definition list_at :: "args \<Rightarrow> string \<Rightarrow> json list" where
  "list_at a k = (case map_of a k of Some (JList js) \<Rightarrow> js | _ \<Rightarrow> [])"

definition string_of :: "json \<Rightarrow> string" where
  "string_of j = (case j of JStr s \<Rightarrow> s | _ \<Rightarrow> [])"

definition edit_of :: "json \<Rightarrow> string \<times> string" where
  "edit_of j = (case j of JObj kvs \<Rightarrow> (str_at kvs ''oldText'', str_at kvs ''newText'') | _ \<Rightarrow> ([], []))"

fun typed_call :: "op_ctx \<Rightarrow> fs_op \<Rightarrow> args \<Rightarrow> fs_reply act" where
  "typed_call ctx Read_File a = act_map TextReply (read_file ctx (str_at a ''path''))"
| "typed_call ctx Read_Text_File a = act_map TextReply (read_text_file ctx (str_at a ''path''))"
| "typed_call ctx Read_Multiple_Files a = act_map TextsReply (read_multiple_files ctx (map string_of (list_at a ''paths'')) [])"
| "typed_call ctx List_Directory a = act_map ListReply (list_directory ctx (str_at a ''path''))"
| "typed_call ctx List_Directory_With_Sizes a = act_map SizesReply (list_directory_with_sizes ctx (str_at a ''path''))"
| "typed_call ctx Directory_Tree a = act_map TreeReply (directory_tree ctx (str_at a ''path''))"
| "typed_call ctx Search_Files a = act_map MatchesReply (search_files ctx (str_at a ''path'') (str_at a ''pattern''))"
| "typed_call ctx Get_File_Info a = act_map InfoReply (get_file_info ctx (str_at a ''path''))"
| "typed_call ctx Write_File a = act_map WroteReply (write_file ctx (str_at a ''path'') (str_at a ''content''))"
| "typed_call ctx Edit_File a = act_map WroteReply (edit_file ctx (str_at a ''path'') (map edit_of (list_at a ''edits'')))"
| "typed_call ctx Create_Directory a = act_map MadeReply (create_directory ctx (str_at a ''path''))"
| "typed_call ctx Move_File a = act_map MovedReply (move_file ctx (str_at a ''source'') (str_at a ''destination''))"

lemma string_field:
  assumes "conforms (TObject ps req) (JObj a)" "k \<in> set req" "(k, TString en) \<in> set ps"
  shows "map_of a k = Some (JStr (str_at a k))"
  by (rule required_field [OF assms]) (auto simp: str_at_def shape_facts)

lemma array_field:
  assumes "conforms (TObject ps req) (JObj a)" "k \<in> set req" "(k, TArray s n) \<in> set ps"
  shows "map_of a k = Some (JList (list_at a k)) \<and> (\<forall>x \<in> set (list_at a k). conforms s x)"
  by (rule required_field [OF assms]) (auto simp: list_at_def shape_facts)

lemma act_lift_ok [simp]: "act_bind (act_lift (ok x)) f = f x"
  by (rule ext) (simp add: act_lift_def act_bind_def act_ask_def)

lemma on_path_field [simp]: "map_of a k = Some (JStr p) \<Longrightarrow> on_path a k f = f p"
  by (simp add: on_path_def item_def path_text_def from_option_def)

lemma text_of_string [simp]: "text_of (JStr s) = ok s" "path_text (JStr s) = ok s"
  by (simp_all add: text_of_def path_text_def)

lemma item_field [simp]: "map_of a k = Some v \<Longrightarrow> item a k = ok v"
  by (simp add: item_def from_option_def)

lemma read_paths_strings: "\<forall>x \<in> set js. conforms (TString None) x \<Longrightarrow> read_paths ctx js = read_multiple_files ctx (map string_of js) []"
proof -
  assume "\<forall>x \<in> set js. conforms (TString None) x"
  then obtain ss where js: "js = map JStr ss" by (rule strings_of_array)
  have t: "takeWhile (\<lambda>j. is_ok (path_text j)) (map JStr ss) = map JStr ss"
    by (simp add: takeWhile_eq_all_conv path_text_def)
  have p: "act_bind m (\<lambda>out. act_lift (ok out)) = m" for m :: "'a act"
    by (rule ext) (simp add: act_bind_def act_lift_def act_ask_def split: prod.split sum.split)
  show ?thesis
    by (simp add: js read_paths_def t string_of_def comp_def p)
qed

lemma apply_edits_items:
  "\<forall>x \<in> set js. conforms (TObject [(''oldText'', TString None), (''newText'', TString None)] [''oldText'', ''newText'']) x \<Longrightarrow>
   apply_edit_items target js s n = apply_edits target (map edit_of js) s n"
proof (induction js arbitrary: s n)
  case (Cons j js)
  let ?edit = "TObject [(''oldText'', TString None), (''newText'', TString None)] [''oldText'', ''newText'']"
  from Cons.prems obtain kvs where j: "j = JObj kvs" "conforms ?edit (JObj kvs)" by (auto simp: conforms_object)
  from string_field [OF j(2), of "''oldText''" None] string_field [OF j(2), of "''newText''" None]
  have "edit_items j = ok (JStr (fst (edit_of j)), JStr (snd (edit_of j)))"
    by (simp add: edit_items_def edit_of_def j(1))
  then show ?case using Cons by (cases "edit_of j") (simp add: Let_def)
qed simp

lemma conforming_call_is_operation:
  assumes "conforms (op_schema op) (JObj a)"
  shows "fs_handler ctx op a = typed_call ctx op a"
proof (cases op)
  case Read_Multiple_Files
  with array_field [OF assms [unfolded Read_Multiple_Files op_schema.simps], of "''paths''"] show ?thesis
    by (simp add: read_paths_strings)
next
  case Search_Files
  with assms have s: "conforms (TObject [(''path'', TString None), (''pattern'', TString None)] [''path'', ''pattern'']) (JObj a)" by simp
  from string_field [OF s, of "''path''" None] string_field [OF s, of "''pattern''" None] Search_Files
  show ?thesis by (simp add: search_args_def)
next
  case Write_File
  with assms have s: "conforms (TObject [(''path'', TString None), (''content'', TString None)] [''path'', ''content'']) (JObj a)" by simp
  from string_field [OF s, of "''path''" None] string_field [OF s, of "''content''" None] Write_File
  show ?thesis by (simp add: write_args_def write_file_def)
next
  case Edit_File
  note s = assms [unfolded Edit_File op_schema.simps]
  have e: "act_lift (apply_edits target es s 0) = act_ask (\<lambda>st. apply_edits target es s 0)" for target es s
    by (simp add: act_lift_def)
  from string_field [OF s, of "''path''" None] array_field [OF s, of "''edits''"] Edit_File
  show ?thesis by (simp add: edit_args_def edit_file_def apply_edits_items e)
next
  case Move_File
  with assms have s: "conforms (TObject [(''source'', TString None), (''destination'', TString None)] [''source'', ''destination'']) (JObj a)" by simp
  from string_field [OF s, of "''source''" None] string_field [OF s, of "''destination''" None] Move_File
  show ?thesis by (simp add: move_args_def move_file_def)
qed (use assms string_field [of "[(''path'', TString None)]" "[''path'']" a "''path''" None] in simp_all)

end
