(* ===== verification/Restrict_Tools.thy ===== *)
theory Restrict_Tools
  imports Scope_State Grants Disk_View Json_Schema
begin

text \<open>
  \<open>hares/fs/tools.py\<close>: the handlers of \<open>restrict_paths\<close> and \<open>get_active_paths\<close>. The
  arguments are the JSON object of the call. A handler works on the host (it makes the
  directories) and the scope store, and what it did before an exception stays done.
\<close>

definition restrict_tool_descriptors :: "string option \<Rightarrow> descriptor list" where
  "restrict_tool_descriptors sid =
     [(prefixed ''restrict_paths'' sid,
       TObject [(''paths'', TArray (TString None) 0), (''expected_seq'', TInteger (Some 0))] [''paths'']),
      (prefixed ''get_active_paths'' sid, TObject [] [])]"

record rt_state =
  rt_host :: host
  rt_store :: scope_store

datatype restrict_reply =
    ScopeReply (rp_paths: "string list") (rp_seq: int) (rp_hmac: string) (rp_version: int)
  | SeqMismatch (rp_expected: int) (rp_current: int)

text \<open>The \<open>expected_seq\<close> argument: absent or null, an integer (Python's bools are integers),
  or refused.\<close>

definition expected_seq_arg :: "(string \<times> json) list \<Rightarrow> int option result" where
  "expected_seq_arg args = (case map_of args ''expected_seq'' of
      None \<Rightarrow> ok None
    | Some JNull \<Rightarrow> ok None
    | Some (JInt n) \<Rightarrow> if n < 0 then raise_err (ValueError ''expected_seq'') else ok (Some n)
    | Some (JBool b) \<Rightarrow> ok (Some (if b then 1 else 0))
    | Some _ \<Rightarrow> raise_err (ValueError ''expected_seq''))"

text \<open>One path of the call: resolved under the ceiling with the exclude list of the
  environment, and created.\<close>

definition restrict_target :: "host \<Rightarrow> rpath \<Rightarrow> json \<Rightarrow> (rpath \<times> host) result" where
  "restrict_target h cl p = (case p of
      JStr s \<Rightarrow>
        if s = [] then raise_err (ValueError ''paths'')
        else rbind (resolve_under_ceiling h s (rpath_path cl) None) (\<lambda>target.
             rbind (mkdir_p (disk h) target) (\<lambda>d.
             ok (target, h\<lparr>disk := d\<rparr>)))
    | _ \<Rightarrow> raise_err (ValueError ''paths''))"

fun restrict_targets :: "host \<Rightarrow> rpath \<Rightarrow> json list \<Rightarrow> rpath list result \<times> host" where
  "restrict_targets h cl [] = (ok [], h)"
| "restrict_targets h cl (p # ps) =
     (case restrict_target h cl p of
        Inl e \<Rightarrow> (Inl e, h)
      | Inr (t, h1) \<Rightarrow>
          (case restrict_targets h1 cl ps of
             (Inl e, h2) \<Rightarrow> (Inl e, h2)
           | (Inr ts, h2) \<Rightarrow> (ok (t # ts), h2)))"

definition scope_reply :: "(string \<Rightarrow> string) \<Rightarrow> scope_store \<Rightarrow> restrict_reply" where
  "scope_reply mac st =
     (let ps = sorted_strs (paths (scope st)) in
      ScopeReply ps (seqno (scope st))
        (compute_state_hmac mac STATE_VERSION (cfg_scope_id (cfg st))
           (rpath_str (cfg_ceiling (cfg st))) (seqno (scope st)) ps)
        STATE_VERSION)"

definition restrict ::
  "(string \<Rightarrow> string) \<Rightarrow> string \<Rightarrow> rt_state \<Rightarrow> (string \<times> json) list \<Rightarrow> restrict_reply result \<times> rt_state" where
  "restrict mac now st args =
     (case (case map_of args ''paths'' of None \<Rightarrow> JList [] | Some v \<Rightarrow> v) of
        JList raw_paths \<Rightarrow>
          (case expected_seq_arg args of Inl e \<Rightarrow> (Inl e, st)
           | Inr expected \<Rightarrow>
               (case restrict_targets (rt_host st) (cfg_ceiling (cfg (rt_store st))) raw_paths of
                  (Inl e, h) \<Rightarrow> (Inl e, st\<lparr>rt_host := h\<rparr>)
                | (Inr resolved, h) \<Rightarrow>
                    (case store_set h mac now (rt_store st) (map rpath_path resolved) expected of
                       Inl (ScopeSeqMismatch e a) \<Rightarrow> (ok (SeqMismatch e a), st\<lparr>rt_host := h\<rparr>)
                     | Inl e \<Rightarrow> (Inl e, st\<lparr>rt_host := h\<rparr>)
                     | Inr store \<Rightarrow>
                         (ok (scope_reply mac store), \<lparr>rt_host = h, rt_store = store\<rparr>))))
      | _ \<Rightarrow> (raise_err (ValueError ''paths''), st))"

definition get_active ::
  "(string \<Rightarrow> string) \<Rightarrow> rt_state \<Rightarrow> grant_store option
   \<Rightarrow> restrict_reply \<times> (string \<times> gmode \<times> lifetime) list" where
  "get_active mac st gs =
     (scope_reply mac (rt_store st), case gs of None \<Rightarrow> [] | Some g \<Rightarrow> list_active g)"

section \<open>Targets\<close>

lemma mkdir_resolved_host:
  assumes "mkdir_p (disk h) t = ok d" shows "same_view h (h\<lparr>disk := d\<rparr>)"
  using mkdir_same_links [OF assms] by (simp add: same_view_def)

lemma load_denylist_view: "same_view h h' \<Longrightarrow> load_denylist h' v cl = load_denylist h v cl"
proof -
  assume v: "same_view h h'"
  note env = same_view_env [OF v]
  have "expand_path h' = expand_path h"
    by (intro ext) (simp only: expand_path_def expanduser_def env cong: option.case_cong)
  then show ?thesis by (simp add: load_denylist_def getenv_def env same_view_resolve [OF v] Let_def)
qed

text \<open>What \<open>resolve_under_ceiling\<close> lets through, on component paths; the exclude list is the
  one the environment gives.\<close>

definition inside :: "host \<Rightarrow> rpath \<Rightarrow> rpath \<Rightarrow> bool" where
  "inside h cl r \<longleftrightarrow> resolved_on h r \<and> prefix cl r \<and> clear_of_system h r \<and>
     (case get_exclude_list h (rpath_path cl) of Inl _ \<Rightarrow> False
      | Inr ex \<Rightarrow> list_all (\<lambda>e. \<not> prefix e r) ex)"

lemma get_exclude_list_resolved:
  assumes "ppath_ok cl" "get_exclude_list h cl = ok ex"
  shows "list_all (resolved_on h) ex"
proof -
  have c: "ppath_ok (let candidate = path_of s in
      if is_absolute candidate then candidate else path_join cl candidate)" for s
    using assms(1) by (simp add: Let_def)
  from assms(2) show ?thesis
  proof (cases "getenv h ''HARES_SANDBOX_EXCLUDE'' [] = []")
    case False
    with assms(2) have "list_all2 (\<lambda>s r. resolve_on h (let candidate = path_of (expand_path h s) in
        if is_absolute candidate then candidate else path_join cl candidate) = Some r)
      (filter (\<lambda>piece. piece \<noteq> []) (split_on (CHR '':'') (getenv h ''HARES_SANDBOX_EXCLUDE'' []))) ex"
      by (simp add: get_exclude_list_def load_denylist_def collect_ok Let_def)
    then show ?thesis
      by (induction rule: list_all2_induct) (auto intro: resolved_onI [OF c])
  qed (simp add: get_exclude_list_def load_denylist_def)
qed

lemma resolve_under_ceiling_inside:
  assumes cl: "resolved_on h cl" and r: "resolve_under_ceiling h s (rpath_path cl) None = ok t"
  shows "inside h cl t"
proof -
  have pc: "ppath_ok (rpath_path cl)" using cl by (simp add: resolved_on_def)
  from r have a: "resolve_path_arg h s (rpath_path cl) = ok t" and
    f: "finish_under_ceiling h t (rpath_path cl) None = ok t"
    by (auto simp: resolve_under_ceiling_def finish_under_ceiling_ok)
  from resolve_path_arg_resolved [OF pc a] have t: "resolved_on h t" .
  from f obtain ex where ex: "get_exclude_list h (rpath_path cl) = ok ex"
    and n: "\<forall>d \<in> set ex. \<not> is_subpath h (rpath_path t) (rpath_path d)"
    by (auto simp: finish_under_ceiling_ok validate_path_not_excluded_def check_all_ok split: if_splits)
  have "list_all (resolved_on h) ex" using get_exclude_list_resolved [OF pc ex] .
  with n t have "list_all (\<lambda>e. \<not> prefix e t) ex" by (auto simp: list_all_iff is_subpath_resolved)
  with f t cl ex show ?thesis
    by (simp add: inside_def finish_under_ceiling_ok is_subpath_resolved clear_of_system_def)
qed

lemma inside_view: "same_view h h' \<Longrightarrow> inside h' cl t = inside h cl t"
  by (simp add: inside_def same_view_checks get_exclude_list_def load_denylist_view)

definition targets_made :: "host \<Rightarrow> rpath \<Rightarrow> rpath list \<Rightarrow> bool" where
  "targets_made h cl ts \<longleftrightarrow> list_all (\<lambda>t. inside h cl t \<and> node_at (disk h) t = Some DirN) ts"

lemma restrict_target_ok:
  assumes cl: "resolved_on h cl" and r: "restrict_target h cl p = ok (t, h1)"
  shows "same_view h h1" "inside h cl t" "node_at (disk h1) t = Some DirN"
    "node_at (disk h) q \<noteq> None \<Longrightarrow> node_at (disk h1) q = node_at (disk h) q"
  using r resolve_under_ceiling_inside [OF cl] mkdir_resolved_host mkdir_p_ok
  by (auto simp: restrict_target_def split: json.splits if_splits)

lemma restrict_targets_ok:
  assumes "resolved_on h cl"
  shows "case restrict_targets h cl ps of (x, h') \<Rightarrow> same_view h h' \<and>
     (\<forall>q. node_at (disk h) q \<noteq> None \<longrightarrow> node_at (disk h') q = node_at (disk h) q) \<and>
     (case x of Inl _ \<Rightarrow> True | Inr ts \<Rightarrow> length ts = length ps \<and> targets_made h' cl ts)"
  using assms
proof (induction h cl ps rule: restrict_targets.induct)
  case (1 h cl)
  then show ?case by (simp add: targets_made_def same_view_refl)
next
  case (2 h cl p ps)
  show ?case
  proof (cases "restrict_target h cl p")
    case (Inl e)
    then show ?thesis by (simp add: same_view_refl)
  next
    case (Inr y)
    obtain t h1 where y: "y = (t, h1)" by (cases y)
    note ok1 = restrict_target_ok [OF "2.prems" Inr [unfolded y]]
    have "resolved_on h1 cl" using "2.prems" ok1(1) by (simp add: same_view_checks)
    note ih = "2.IH" [OF Inr y [symmetric] this]
    obtain x h2 where r: "restrict_targets h1 cl ps = (x, h2)" by (cases "restrict_targets h1 cl ps")
    from ih r have v: "same_view h1 h2" and
      k: "\<And>q. node_at (disk h1) q \<noteq> None \<Longrightarrow> node_at (disk h2) q = node_at (disk h1) q" by auto
    have "inside h2 cl t" "node_at (disk h2) t = Some DirN"
      using ok1 v k by (simp_all add: inside_view)
    moreover have "node_at (disk h) q \<noteq> None \<Longrightarrow> node_at (disk h2) q = node_at (disk h) q" for q
      using ok1(4) [of q] k [of q] by simp
    ultimately show ?thesis
      using ih r Inr y same_view_trans [OF ok1(1) v]
      by (auto simp: targets_made_def split: sum.splits)
  qed
qed

section \<open>The handlers\<close>

lemma store_set_resolved:
  assumes "targets_made h cl ts"
  shows "store_set h mac now st (map rpath_path ts) e =
    (if e \<noteq> None \<and> e \<noteq> Some (seqno (scope st))
     then Inl (ScopeSeqMismatch (the e) (seqno (scope st)))
     else store_set h mac now st (map rpath_path ts) None)"
    "store_set h mac now st (map rpath_path ts) None = ok st' \<Longrightarrow> paths (scope st') = ts"
    "\<exists>st'. store_set h mac now st (map rpath_path ts) None = ok st'"
proof -
  have c: "collect (\<lambda>p. from_option (RuntimeError (ppath_str p)) (resolve_on h p)) (map rpath_path ts) = ok ts"
    using assms by (auto simp: collect_ok list_all2_conv_all_nth targets_made_def inside_def
        resolved_on_def list_all_length)
  show "store_set h mac now st (map rpath_path ts) e =
    (if e \<noteq> None \<and> e \<noteq> Some (seqno (scope st))
     then Inl (ScopeSeqMismatch (the e) (seqno (scope st)))
     else store_set h mac now st (map rpath_path ts) None)" by (simp add: store_set_def)
  show "store_set h mac now st (map rpath_path ts) None = ok st' \<Longrightarrow> paths (scope st') = ts"
    "\<exists>st'. store_set h mac now st (map rpath_path ts) None = ok st'"
    by (auto simp: store_set_def c Let_def)
qed

lemma restrict_unfold:
  assumes cl: "resolved_on (rt_host st) (cfg_ceiling (cfg (rt_store st)))"
    and p: "(case map_of args ''paths'' of None \<Rightarrow> JList [] | Some v \<Rightarrow> v) = JList raw"
    and e: "expected_seq_arg args = ok ex"
    and t: "restrict_targets (rt_host st) (cfg_ceiling (cfg (rt_store st))) raw = (ok ts, h)"
  shows "restrict mac now st args =
    (if ex \<noteq> None \<and> ex \<noteq> Some (seqno (scope (rt_store st)))
     then (ok (SeqMismatch (the ex) (seqno (scope (rt_store st)))), st\<lparr>rt_host := h\<rparr>)
     else let store = (THE s. store_set h mac now (rt_store st) (map rpath_path ts) None = ok s) in
       (ok (scope_reply mac store), \<lparr>rt_host = h, rt_store = store\<rparr>))"
proof -
  have m: "targets_made h (cfg_ceiling (cfg (rt_store st))) ts"
    using restrict_targets_ok [OF cl, of raw] t by simp
  obtain s where s: "store_set h mac now (rt_store st) (map rpath_path ts) None = ok s"
    using store_set_resolved(3) [OF m] by blast
  show ?thesis
    unfolding restrict_def p using store_set_resolved(1) [OF m, of mac now "rt_store st" ex]
    by (simp add: e t s)
qed


definition rt_demo :: rt_state where
  "rt_demo = \<lparr>rt_host = state_host, rt_store = \<lparr>cfg = state_cfg, scope = empty_scope state_cfg,
     sdisk = \<lparr>main_file = None, wal_file = None\<rparr>\<rparr>\<rparr>"

definition demo_args :: "(string \<times> json) list" where
  "demo_args = [(''paths'', JList [JStr ''a/b'', JStr ''/work/c''])]"

lemma rt_demo_ceiling: "resolved_on (rt_host rt_demo) (cfg_ceiling (cfg (rt_store rt_demo)))"
  by code_simp


text \<open>
  A \<open>restrict_paths\<close> call refused for its \<open>expected_seq\<close> leaves the scope alone but not the
  disk: by then every directory it names has been made.
\<close>

theorem restrict_mismatch_leaves_directories:
  assumes cl: "resolved_on (rt_host st) (cfg_ceiling (cfg (rt_store st)))"
    and r: "restrict mac now st args = (ok (SeqMismatch a b), st')"
  shows "rt_store st' = rt_store st \<and> b = seqno (scope (rt_store st)) \<and> a \<noteq> b \<and>
    (\<exists>ts. length ts = (case map_of args ''paths'' of Some (JList xs) \<Rightarrow> length xs | _ \<Rightarrow> 0) \<and>
      targets_made (rt_host st') (cfg_ceiling (cfg (rt_store st))) ts)"
proof -
  let ?cl = "cfg_ceiling (cfg (rt_store st))"
  from r obtain raw where p: "(case map_of args ''paths'' of None \<Rightarrow> JList [] | Some v \<Rightarrow> v) = JList raw"
    by (auto simp: restrict_def split: json.splits)
  from r p obtain ex where e: "expected_seq_arg args = ok ex"
    by (auto simp: restrict_def split: sum.splits)
  from r p e obtain ts h where t: "restrict_targets (rt_host st) ?cl raw = (ok ts, h)"
    by (auto simp: restrict_def split: sum.splits prod.splits)
  note tg = restrict_targets_ok [OF cl, of raw, unfolded t, simplified]
  have len: "length raw = (case map_of args ''paths'' of Some (JList xs) \<Rightarrow> length xs | _ \<Rightarrow> 0)"
    using p by (auto split: option.splits)
  from r restrict_unfold [OF cl p e t, of mac now] tg len show ?thesis
    by (auto simp: Let_def scope_reply_def split: if_splits)
qed

theorem restrict_mismatch_leaves_directories_witness:
  "let args = demo_args @ [(''expected_seq'', JInt 5)];
       st' = snd (restrict (\<lambda>_. ''m'') ''2026'' rt_demo args) in
   rt_store st' = rt_store rt_demo \<and>
   (\<exists>ts. length ts = (case map_of args ''paths'' of Some (JList xs) \<Rightarrow> length xs | _ \<Rightarrow> 0) \<and>
      targets_made (rt_host st') (cfg_ceiling (cfg (rt_store rt_demo))) ts)"
proof -
  let ?args = "demo_args @ [(''expected_seq'', JInt 5)]"
  have "fst (restrict (\<lambda>_. ''m'') ''2026'' rt_demo ?args) = ok (SeqMismatch 5 0)" by code_simp
  then have "restrict (\<lambda>_. ''m'') ''2026'' rt_demo ?args =
      (ok (SeqMismatch 5 0), snd (restrict (\<lambda>_. ''m'') ''2026'' rt_demo ?args))" by (metis prod.collapse)
  from restrict_mismatch_leaves_directories [OF rt_demo_ceiling this] show ?thesis by (simp add: Let_def)
qed

text \<open>
  \<open>restrict_paths\<close> does not consult the protect list: with \<open>/work/p\<close> protected it answers a
  request for \<open>/work/p/x\<close> with success and makes that directory inside the protected tree.
\<close>

theorem restrict_makes_directory_in_protected_tree:
  "let h = state_host\<lparr>environ := [''HARES_SANDBOX_PROTECT'' \<mapsto> ''/work/p'']\<rparr>;
       (x, st') = restrict (\<lambda>_. ''m'') ''2026'' (rt_demo\<lparr>rt_host := h\<rparr>)
         [(''paths'', JList [JStr ''p/x''])] in
   get_protect_list h (PPath True [''work'']) = ok [[''work'', ''p'']] \<and>
   x = ok (ScopeReply [''/work/p/x''] 1 ''m'' 3) \<and>
   node_at (disk (rt_host st')) [''work'', ''p'', ''x''] = Some DirN"
  by code_simp

end
