(* ===== verification/Grant_Tools.thy ===== *)
theory Grant_Tools
  imports Policy Fs_Contents Json_Schema
begin

text \<open>
  \<open>hares/grant_tools.py\<close>: the handler of \<open>request_path_access\<close>. The client answers the
  dialog; the handler's verdict on the request comes first.
\<close>

datatype grant_reply =
    Granted string gmode lifetime
  | NotGranted string gmode string

record grant_cfg =
  gt_ceiling :: "rpath option"
  gt_deny :: "deny_lists option"
  gt_read_only :: bool

definition request_path_access_tool_descriptor :: "string option \<Rightarrow> descriptor" where
  "request_path_access_tool_descriptor sid = (prefixed ''request_path_access'' sid,
     TObject [(''path'', TString None), (''mode'', TString (Some [''ro'', ''rw''])), (''reason'', TString None)]
       [''path'', ''mode'', ''reason''])"

definition mode_arg :: "json \<Rightarrow> gmode option" where
  "mode_arg j = (if j = JStr ''ro'' then Some RO else if j = JStr ''rw'' then Some RW else None)"

text \<open>\<open>DenyLists\<close> is optional, and the deny lists of the environment stand in for it as in
  \<open>validate_grant_target\<close>. The base of a relative path is the ceiling or the working
  directory.\<close>

definition request_path_access ::
  "host \<Rightarrow> grant_cfg \<Rightarrow> client \<Rightarrow> grant_store \<Rightarrow> (string \<times> json) list
   \<Rightarrow> grant_reply result \<times> grant_store" where
  "request_path_access h c cl gs args =
     (case jget args ''path'' of
        JStr path_str \<Rightarrow>
          if path_str = [] then (raise_err (ValueError ''path''), gs)
          else (case mode_arg (jget args ''mode'') of
             None \<Rightarrow> (raise_err (ValueError ''mode''), gs)
           | Some mode \<Rightarrow>
               (case jget args ''reason'' of
                  JStr reason \<Rightarrow>
                    if strip_str reason = [] then (raise_err (ValueError ''reason''), gs)
                    else if gt_read_only c \<and> mode = RW
                    then (ok (NotGranted path_str mode ''read-only''), gs)
                    else
                      (let ceiling = map_option rpath_path (gt_ceiling c);
                           base = (case ceiling of Some p \<Rightarrow> p | None \<Rightarrow> path_of (cwd h))
                       in case resolve_path_arg h path_str base of
                            Inl e \<Rightarrow> if is_path_safety e
                              then (ok (NotGranted path_str mode ''denied''), gs) else (Inl e, gs)
                          | Inr resolved \<Rightarrow>
                              (case validate_grant_target h resolved mode ceiling (gt_deny c) of
                                 Inl e \<Rightarrow> if is_path_safety e
                                   then (ok (NotGranted path_str mode ''denied''), gs) else (Inl e, gs)
                               | Inr _ \<Rightarrow>
                                   (case elicit_path_access_approval cl of
                                      None \<Rightarrow> (ok (NotGranted (rpath_str resolved) mode ''declined''), gs)
                                    | Some l \<Rightarrow> (ok (Granted (rpath_str resolved) mode l),
                                                grant_add gs resolved mode l))))
                | _ \<Rightarrow> (raise_err (ValueError ''reason''), gs)))
      | _ \<Rightarrow> (raise_err (ValueError ''path''), gs))"

text \<open>
  C32: the grant store only ever grows through a request a human accepted on a target that
  passed the deny tier. A request changes the store exactly when it answers \<open>Granted\<close>; then
  one grant is appended, on the resolved target, with the requested mode; the target is not
  under a \<open>.git\<close> directory or a refused system directory, is not excluded (nor protected for
  rw) when it lies in the ceiling, and a read-only server never grants rw.
\<close>

theorem granted_only_after_checks:
  "case request_path_access h c cl gs args of
     (Inr (Granted t m l), gs') \<Rightarrow>
        \<exists>r. t = rpath_str r \<and> gs' = gs @ [\<lparr>root = r, gmode = m, lifetime = l\<rparr>] \<and>
          elicit_path_access_approval cl = Some l \<and> \<not> (gt_read_only c \<and> m = RW) \<and>
          ''.git'' \<notin> set r \<and> clear_of_system h r \<and>
          validate_grant_target h r m (map_option rpath_path (gt_ceiling c)) (gt_deny c) = ok ()
   | (_, gs') \<Rightarrow> gs' = gs"
proof -
  have v: "validate_grant_target h r m cl d = ok () \<Longrightarrow> ''.git'' \<notin> set r \<and> clear_of_system h r" for r m cl d
    by (auto simp: validate_grant_target_def contains_git clear_of_system_def split: if_splits)
  show ?thesis
    unfolding request_path_access_def Let_def
    by (auto simp: grant_add_def dest: v split: json.splits option.splits sum.splits)
qed

text \<open>
  C33: what a session approved is what the fs server then allows: after a granted request for a
  target outside the ceiling, reading it resolves, and it resolves for writing exactly when
  the grant is rw or an earlier rw grant covers it.
\<close>

theorem grant_takes_effect:
  assumes c: "ctx_ok (host_of st) ctx d" and s: "store_ok (host_of st) (Some gs)"
    and req: "request_path_access (host_of st) \<lparr>gt_ceiling = Some (ctx_ceiling ctx),
        gt_deny = Some d, gt_read_only = ro\<rparr> cl gs args = (ok (Granted t m l), gs')"
    and t: "t = rpath_str r" "resolved_on (host_of st) r" "\<not> prefix (ctx_ceiling ctx) r"
    and tr: "validate_path_no_traversal t = ok ()"
  shows "fst (op_resolve ctx t False (st\<lparr>grants_of := Some gs'\<rparr>)) = ok r \<and>
    (fst (op_resolve ctx t True (st\<lparr>grants_of := Some gs'\<rparr>)) = ok r) = (m = RW \<or> granted (Some gs) True r)"
proof -
  let ?h = "host_of st" and ?st = "st\<lparr>grants_of := Some gs'\<rparr>"
  from granted_only_after_checks [where h = ?h and c = "\<lparr>gt_ceiling = Some (ctx_ceiling ctx),
      gt_deny = Some d, gt_read_only = ro\<rparr>" and cl = cl and gs = gs and args = args] req t(1) obtain r' where r': "rpath_str r = rpath_str r'"
    "gs' = gs @ [\<lparr>root = r', gmode = m, lifetime = l\<rparr>]" "''.git'' \<notin> set r'" "clear_of_system ?h r'"
    by auto
  from req have "resolved_on ?h r'"
  proof -
    have "ppath_ok (rpath_path (ctx_ceiling ctx))" using c by (simp add: ctx_ok_def resolved_on_def)
    with req show ?thesis
      unfolding request_path_access_def Let_def
      by (auto simp: grant_add_def r'(2) split: json.splits option.splits sum.splits if_splits
          dest: resolve_path_arg_resolved)
  qed
  then have rr: "r' = r" using r'(1) t(2) rpath_str_inj [of r r'] by (simp add: resolved_on_def)
  have s': "store_ok ?h (grants_of ?st)" using s t(2) r'(2) rr by (simp add: store_ok_def)
  have abs: "is_absolute (path_of t)" "path_of t = rpath_path r"
    using t path_of_rpath_str by (simp_all add: resolved_on_def)
  have a: "resolve_path_arg ?h t (rpath_path (ctx_ceiling ctx)) = ok r"
    using tr t(2) abs by (simp add: resolve_path_arg_ok path_join_def resolved_on_def)
  have g: "granted (Some gs') w r \<longleftrightarrow> (w \<longrightarrow> m = RW \<or> granted (Some gs) True r)" for w
    by (cases w) (auto simp: r'(2) rr granted_iff)
  have op: "fst (op_resolve ctx t w ?st) = ok r \<longleftrightarrow> granted (Some gs') w r" for w
  proof -
    have "op_resolve ctx t w ?st = (ok r, after_resolve ctx w r ?st) \<longleftrightarrow> granted (Some gs') w r"
      using op_resolve_spec [of ?st ctx d t w r] c s' a r'(3,4) rr t(3)
      by (simp add: may_reach_def)
    moreover have "fst (op_resolve ctx t w ?st) = ok r \<Longrightarrow>
        op_resolve ctx t w ?st = (ok r, after_resolve ctx w r ?st)"
      using op_resolve_spec [of ?st ctx d t w r] c s'
      by (cases "op_resolve ctx t w ?st") auto
    ultimately show ?thesis by auto
  qed
  show ?thesis by (simp add: op g)
qed

theorem grant_takes_effect_witness:
  "fst (op_resolve demo_ctx ''/x/f'' False (demo_st\<lparr>grants_of := Some
      [\<lparr>root = [''x'', ''f''], gmode = RO, lifetime = Session\<rparr>]\<rparr>)) = ok [''x'', ''f''] \<and>
   (fst (op_resolve demo_ctx ''/x/f'' True (demo_st\<lparr>grants_of := Some
      [\<lparr>root = [''x'', ''f''], gmode = RO, lifetime = Session\<rparr>]\<rparr>)) = ok [''x'', ''f'']) =
   (RO = RW \<or> granted (Some []) True [''x'', ''f''])"
proof (rule grant_takes_effect [OF demo_ok(1)])
  show "store_ok (host_of demo_st) (Some [])" by (simp add: store_ok_def)
  show "request_path_access (host_of demo_st) \<lparr>gt_ceiling = Some (ctx_ceiling demo_ctx),
      gt_deny = Some demo_deny, gt_read_only = True\<rparr>
      (Some (Responded (Some ''accept'') (JObj [(''grant'', JStr ''session'')]))) []
      [(''path'', JStr ''out/f''), (''mode'', JStr ''ro''), (''reason'', JStr ''look'')] =
      (ok (Granted ''/x/f'' RO Session), [\<lparr>root = [''x'', ''f''], gmode = RO, lifetime = Session\<rparr>])"
    by code_simp
qed code_simp+

end
