(* ===== verification/Monitor.thy ===== *)
theory Monitor
  imports Runner
begin

text \<open>
  Watching a running command (\<open>Runner._monitor_rss\<close>, the scope resolution and the OOM checks of
  \<open>execute\<close> in \<open>hares/runner.py\<close>): the monitor task as a fold over what its polls see, the
  last check when the command has ended, and the outcome \<^const>\<open>conclude\<close> works on. What the
  kernel shows at each poll is the input.
\<close>

section \<open>Starting under an allowlist\<close>

text \<open>The ends of \<open>os.pipe()\<close>. Reading is for the read end; the handshake reads from the other one, the
  end \<open>w_fd\<close>, and catches nothing but the timeout of its wait.\<close>

datatype pipe_end = ReadEnd | WriteEnd

definition os_read :: "pipe_end \<Rightarrow> 'a result \<Rightarrow> 'a result" where
  "os_read e available = (case e of ReadEnd \<Rightarrow> available | WriteEnd \<Rightarrow> raise_err (OSError ''EBADF''))"

definition namespace_ready :: "unit result" where
  "namespace_ready = os_read WriteEnd (ok ())"

definition started :: "host \<Rightarrow> bool \<Rightarrow> runner \<Rightarrow> unit result" where
  "started h slirp_available r = (case effective_sandbox h r of
      Inl e \<Rightarrow> Inl e
    | Inr cfg \<Rightarrow> if uses_allowlist r cfg \<and> slirp_available then namespace_ready else ok ())"

section \<open>Finding the scope\<close>

text \<open>One attempt: the child, its descendants, the canonical path.\<close>

definition try_resolve_scope_dir :: "host \<Rightarrow> nat \<Rightarrow> string \<Rightarrow> int \<Rightarrow> int list \<Rightarrow> string option" where
  "try_resolve_scope_dir h uid scope_name pid kids =
     (case find (\<lambda>d. d \<noteq> None) (map (\<lambda>p. scope_cgroup_dir h uid scope_name (Some p)) (pid # kids)) of
        Some d \<Rightarrow> d | None \<Rightarrow> scope_cgroup_dir h uid scope_name None)"

text \<open>Six attempts, on the host and the descendants as they are at each.\<close>

fun resolve_scope_dir :: "nat \<Rightarrow> nat \<Rightarrow> string \<Rightarrow> int \<Rightarrow> (host \<times> int list) list \<Rightarrow> string option" where
  "resolve_scope_dir 0 uid scope_name pid seen = None"
| "resolve_scope_dir (Suc n) uid scope_name pid [] = None"
| "resolve_scope_dir (Suc n) uid scope_name pid ((h, kids) # seen) =
     (case try_resolve_scope_dir h uid scope_name pid kids of
        Some d \<Rightarrow> Some d | None \<Rightarrow> resolve_scope_dir n uid scope_name pid seen)"

section \<open>The monitor\<close>

record kill_flag =
  kf_reason :: "kill_reason option"
  kf_baseline :: "int option"
  kf_last_seen :: "int option"
  kf_resolved :: bool
  kf_peak_mb :: "int option"

definition no_flag :: kill_flag where
  "no_flag = \<lparr>kf_reason = None, kf_baseline = None, kf_last_seen = None, kf_resolved = False, kf_peak_mb = None\<rparr>"

text \<open>\<open>x or 0\<close> and \<open>get(..., 0)\<close>.\<close>

definition or_zero :: "int option \<Rightarrow> int" where
  "or_zero c = (case c of Some n \<Rightarrow> n | None \<Rightarrow> 0)"

text \<open>A poll of the cgroup: whether an attempt to find the directory succeeds, the counter read at that
  moment, and the counter read by the poll.\<close>

record cgroup_poll =
  cp_found :: bool
  cp_first :: "int option"
  cp_count :: "int option"

record monitor =
  mo_resolved :: bool
  mo_initial :: int
  mo_over :: bool
  mo_flag :: kill_flag

definition monitor_start :: "bool \<Rightarrow> int option \<Rightarrow> monitor" where
  "monitor_start scope_dir first =
     \<lparr>mo_resolved = scope_dir, mo_initial = (if scope_dir then or_zero first else 0), mo_over = False,
      mo_flag = no_flag\<lparr>kf_baseline := (if scope_dir then Some (or_zero first) else None)\<rparr>\<rparr>"

definition lazy_resolve :: "cgroup_poll \<Rightarrow> monitor \<Rightarrow> monitor" where
  "lazy_resolve p m =
     (if \<not> mo_resolved m \<and> cp_found p
      then m\<lparr>mo_resolved := True, mo_initial := or_zero (cp_first p),
             mo_flag := (mo_flag m)\<lparr>kf_baseline := Some (or_zero (cp_first p))\<rparr>\<rparr>
      else m)"

definition cgroup_step :: "monitor \<Rightarrow> cgroup_poll \<Rightarrow> monitor" where
  "cgroup_step m p =
     (if mo_over m then m
      else let m1 = lazy_resolve p m in
        if \<not> mo_resolved m1 then m1
        else case cp_count p of
          None \<Rightarrow> m1
        | Some c \<Rightarrow>
            let flag = (mo_flag m1)\<lparr>kf_last_seen := Some c\<rparr> in
            if c > mo_initial m1 then m1\<lparr>mo_flag := flag\<lparr>kf_reason := Some Oom\<rparr>, mo_over := True\<rparr>
            else m1\<lparr>mo_flag := flag\<rparr>)"

text \<open>The loop left because the command is done; the directory is published only now.\<close>

definition monitor_end :: "monitor \<Rightarrow> kill_flag" where
  "monitor_end m = (if \<not> mo_over m \<and> mo_resolved m then (mo_flag m)\<lparr>kf_resolved := True\<rparr> else mo_flag m)"

datatype rss_poll = Rss nat | Vanished | PollError

definition rss_step :: "int \<Rightarrow> monitor \<Rightarrow> rss_poll \<Rightarrow> monitor" where
  "rss_step threshold m p =
     (if mo_over m then m
      else case p of
        Vanished \<Rightarrow> m\<lparr>mo_over := True\<rparr>
      | PollError \<Rightarrow> m
      | Rss v \<Rightarrow>
          let rss = int v;
              flag = (if rss > or_zero (kf_peak_mb (mo_flag m)) * MB
                      then (mo_flag m)\<lparr>kf_peak_mb := Some (rss div MB)\<rparr> else mo_flag m)
          in if rss > threshold
             then m\<lparr>mo_flag := flag\<lparr>kf_reason := Some RssExceeded, kf_peak_mb := Some (rss div MB)\<rparr>, mo_over := True\<rparr>
             else m\<lparr>mo_flag := flag\<rparr>)"

section \<open>The call\<close>

text \<open>The check when \<open>communicate\<close> has returned in time, in cgroup mode.\<close>

definition final_check :: "bool \<Rightarrow> int option \<Rightarrow> kill_flag \<Rightarrow> kill_flag" where
  "final_check scope_dir reading flag =
     (if kf_reason flag \<noteq> None then flag
      else let baseline = or_zero (kf_baseline flag);
               above = (\<lambda>c. case c of Some n \<Rightarrow> n > baseline | None \<Rightarrow> False)
        in if (scope_dir \<or> kf_resolved flag) \<and> above reading \<or> above (kf_last_seen flag)
           then flag\<lparr>kf_reason := Some Oom\<rparr> else flag)"

text \<open>What is seen of a call. The monitor's polls before the command has ended and at most one after
  it, for the poll that was asleep; the resident sizes in the other mode, with the threshold, a
  product with a float ratio.\<close>

record watch =
  wt_scope_dir :: bool
  wt_first :: "int option"
  wt_polls :: "cgroup_poll list"
  wt_final :: "int option"
  wt_late :: "cgroup_poll option"
  wt_rss :: "rss_poll list"
  wt_threshold :: int
  wt_timed_out :: bool
  wt_returncode :: "int option"

definition watch_cgroup :: "watch \<Rightarrow> kill_flag" where
  "watch_cgroup w =
     (let m1 = foldl cgroup_step (monitor_start (wt_scope_dir w) (wt_first w)) (wt_polls w);
          m2 = (if wt_timed_out w then m1
                else m1\<lparr>mo_flag := final_check (wt_scope_dir w) (wt_final w) (mo_flag m1)\<rparr>);
          m3 = (case wt_late w of None \<Rightarrow> m2 | Some p \<Rightarrow> cgroup_step m2 p)
      in monitor_end m3)"

definition watch_rss :: "watch \<Rightarrow> kill_flag" where
  "watch_rss w = mo_flag (foldl (rss_step (wt_threshold w)) (monitor_start False None) (wt_rss w))"

definition outcome_of :: "bool \<Rightarrow> watch \<Rightarrow> outcome" where
  "outcome_of wrapped w =
     (let flag = (if wrapped then watch_cgroup w else watch_rss w)
      in \<lparr>timed_out = wt_timed_out w, monitor_reason = kf_reason flag, returncode = wt_returncode w,
          peak_rss_mb = kf_peak_mb flag\<rparr>)"

section \<open>The verdict, without the flags\<close>

text \<open>What counts as evidence of an out-of-memory kill: the counter readings from the moment the
  directory is known, against the first. The check at the end reads the counter only when the
  directory was known at the start.\<close>

definition evidence :: "watch \<Rightarrow> int \<times> int option list" where
  "evidence w =
     (let late = (case wt_late w of None \<Rightarrow> [] | Some p \<Rightarrow> [p]) in
      if wt_scope_dir w
      then (or_zero (wt_first w),
            map cp_count (wt_polls w) @ (if wt_timed_out w then [] else [wt_final w]) @ map cp_count late)
      else case dropWhile (\<lambda>p. \<not> cp_found p) (wt_polls w @ late) of
          [] \<Rightarrow> (0, [])
        | p # ps \<Rightarrow> (or_zero (cp_first p), map cp_count (p # ps)))"

definition rises :: "int \<Rightarrow> int option list \<Rightarrow> bool" where
  "rises base = list_ex (\<lambda>c. case c of Some n \<Rightarrow> n > base | None \<Rightarrow> False)"

definition seen_rss :: "rss_poll list \<Rightarrow> nat list" where
  "seen_rss ps = concat (map (\<lambda>p. case p of Rss v \<Rightarrow> [v] | _ \<Rightarrow> []) (takeWhile (\<lambda>p. p \<noteq> Vanished) ps))"

text \<open>The sizes up to the first above the threshold, at which the tree is killed.\<close>

fun watched_rss :: "int \<Rightarrow> nat list \<Rightarrow> nat list" where
  "watched_rss threshold [] = []"
| "watched_rss threshold (v # vs) = v # (if int v > threshold then [] else watched_rss threshold vs)"

lemma rises_simps [simp]:
  "rises b [] = False" "rises b (c # cs) = ((case c of Some n \<Rightarrow> n > b | None \<Rightarrow> False) \<or> rises b cs)"
  "rises b (cs @ ds) = (rises b cs \<or> rises b ds)"
  by (simp_all add: rises_def)

text \<open>A monitor that has found the directory: whether it has stopped, and whether a reason is recorded.\<close>

definition tracking :: "int \<Rightarrow> bool \<Rightarrow> bool \<Rightarrow> monitor \<Rightarrow> bool" where
  "tracking base hit said m \<longleftrightarrow> mo_resolved m \<and> mo_initial m = base \<and> kf_baseline (mo_flag m) = Some base \<and>
     mo_over m = hit \<and> kf_reason (mo_flag m) = (if said then Some Oom else None) \<and> \<not> kf_resolved (mo_flag m) \<and>
     (if hit then said else case kf_last_seen (mo_flag m) of None \<Rightarrow> True | Some n \<Rightarrow> n \<le> base) \<and>
     kf_peak_mb (mo_flag m) = None"

lemma tracking_start: "tracking (or_zero first) False False (monitor_start True first)"
  by (simp add: tracking_def monitor_start_def no_flag_def)

lemma tracking_step:
  "tracking base hit said m \<Longrightarrow>
    tracking base (hit \<or> rises base [cp_count p]) (said \<or> rises base [cp_count p]) (cgroup_step m p)"
  by (cases hit; cases "cp_count p")
    (auto simp: tracking_def cgroup_step_def lazy_resolve_def Let_def split: option.splits if_splits)

lemma tracking_steps:
  "tracking base hit said m \<Longrightarrow> tracking base (hit \<or> rises base (map cp_count ps))
    (said \<or> rises base (map cp_count ps)) (foldl cgroup_step m ps)"
proof (induction ps arbitrary: m hit said)
  case (Cons p ps)
  from Cons(1) [OF tracking_step [OF Cons(2), of p]] show ?case by (simp add: disj_assoc)
qed simp

lemma tracking_final:
  "tracking base hit said m \<Longrightarrow>
    tracking base hit (said \<or> dir \<and> rises base [reading]) (m\<lparr>mo_flag := final_check dir reading (mo_flag m)\<rparr>)"
  by (cases hit; cases said; cases reading)
    (auto simp: tracking_def final_check_def or_zero_def Let_def split: option.splits if_splits)

text \<open>One that is still looking for it.\<close>

lemma search_step:
  "cgroup_step (monitor_start False first) p =
    (if cp_found p then cgroup_step (monitor_start True (cp_first p)) p else monitor_start False first)"
  by (simp add: cgroup_step_def lazy_resolve_def monitor_start_def no_flag_def Let_def split: option.split)

lemma search_steps:
  "foldl cgroup_step (monitor_start False first) ps =
    (case dropWhile (\<lambda>p. \<not> cp_found p) ps of [] \<Rightarrow> monitor_start False first
     | p # qs \<Rightarrow> foldl cgroup_step (monitor_start True (cp_first p)) (p # qs))"
  by (induction ps) (auto simp: search_step)

lemma search_tracking:
  "case dropWhile (\<lambda>p. \<not> cp_found p) ps of
      [] \<Rightarrow> kf_reason (mo_flag (foldl cgroup_step (monitor_start False first) ps)) = None \<and>
        kf_peak_mb (mo_flag (foldl cgroup_step (monitor_start False first) ps)) = None
    | p # qs \<Rightarrow> tracking (or_zero (cp_first p)) (rises (or_zero (cp_first p)) (map cp_count (p # qs)))
        (rises (or_zero (cp_first p)) (map cp_count (p # qs))) (foldl cgroup_step (monitor_start False first) ps)"
proof (cases "dropWhile (\<lambda>p. \<not> cp_found p) ps")
  case Nil
  have "kf_reason (mo_flag (monitor_start False first)) = None" "kf_peak_mb (mo_flag (monitor_start False first)) = None"
    by (simp_all add: monitor_start_def no_flag_def)
  with Nil search_steps [of first ps] show ?thesis by (simp only: list.case)
next
  case (Cons p qs)
  with search_steps [of first ps] tracking_steps [OF tracking_start, of "cp_first p" "p # qs"] show ?thesis
    by (simp only: list.case) simp
qed

lemma search_final: "final_check False reading (mo_flag (monitor_start False first)) = mo_flag (monitor_start False first)"
  by (simp add: final_check_def monitor_start_def no_flag_def Let_def)

lemma monitor_end_reason [simp]: "kf_reason (monitor_end m) = kf_reason (mo_flag m)" "kf_peak_mb (monitor_end m) = kf_peak_mb (mo_flag m)"
  by (simp_all add: monitor_end_def)

definition late_polls :: "watch \<Rightarrow> cgroup_poll list" where
  "late_polls w = (case wt_late w of None \<Rightarrow> [] | Some p \<Rightarrow> [p])"

lemma watch_cgroup_verdict:
  "kf_reason (watch_cgroup w) = (if case evidence w of (b, cs) \<Rightarrow> rises b cs then Some Oom else None) \<and>
   kf_peak_mb (watch_cgroup w) = None"
proof -
  let ?check = "\<lambda>m. if wt_timed_out w then m else m\<lparr>mo_flag := final_check (wt_scope_dir w) (wt_final w) (mo_flag m)\<rparr>"
  have run: "kf_reason (watch_cgroup w) = kf_reason (mo_flag (foldl cgroup_step
      (?check (foldl cgroup_step (monitor_start (wt_scope_dir w) (wt_first w)) (wt_polls w))) (late_polls w)))"
    "kf_peak_mb (watch_cgroup w) = kf_peak_mb (mo_flag (foldl cgroup_step
      (?check (foldl cgroup_step (monitor_start (wt_scope_dir w) (wt_first w)) (wt_polls w))) (late_polls w)))"
    by (simp_all add: watch_cgroup_def Let_def late_polls_def split: option.split)
  have check: "tracking b hit said m \<Longrightarrow>
      tracking b hit (said \<or> \<not> wt_timed_out w \<and> wt_scope_dir w \<and> rises b [wt_final w]) (?check m)" for b hit said m
    using tracking_final [of b hit said m "wt_scope_dir w" "wt_final w"] by auto
  have verdict: "tracking b False False m \<Longrightarrow> tracking b
      (rises b (map cp_count ps) \<or> rises b (map cp_count (late_polls w)))
      ((rises b (map cp_count ps) \<or> \<not> wt_timed_out w \<and> wt_scope_dir w \<and> rises b [wt_final w]) \<or>
        rises b (map cp_count (late_polls w)))
      (foldl cgroup_step (?check (foldl cgroup_step m ps)) (late_polls w))" for b m ps
    using tracking_steps [OF check [OF tracking_steps [of b False False m ps]], of "late_polls w"] by simp
  show ?thesis
  proof (cases "wt_scope_dir w")
    case True
    from verdict [OF tracking_start [of "wt_first w"], of "wt_polls w"] show ?thesis
      unfolding run True by (auto simp: tracking_def evidence_def True late_polls_def [symmetric] Let_def)
  next
    case False
    note found = search_steps [of "wt_first w" "wt_polls w"]
    show ?thesis
    proof (cases "dropWhile (\<lambda>p. \<not> cp_found p) (wt_polls w)")
      case Nil
      then have "dropWhile (\<lambda>p. \<not> cp_found p) (wt_polls w @ late_polls w) = dropWhile (\<lambda>p. \<not> cp_found p) (late_polls w)"
        by (simp add: dropWhile_append)
      moreover have "?check (foldl cgroup_step (monitor_start (wt_scope_dir w) (wt_first w)) (wt_polls w)) =
          monitor_start False (wt_first w)"
        using search_final [of "wt_final w" "wt_first w"] False found Nil by simp
      ultimately show ?thesis
        using search_tracking [where ps = "late_polls w" and first = "wt_first w"] False
        unfolding run evidence_def
        by (auto simp: tracking_def late_polls_def [symmetric] Let_def simp del: rises_simps(2,3) dropWhile_eq_Nil_conv split: list.splits)
    next
      case (Cons p qs)
      then have "\<not> (\<forall>p \<in> set (wt_polls w). \<not> cp_found p)" by (metis dropWhile_eq_Nil_conv list.distinct(1))
      with Cons have "dropWhile (\<lambda>p. \<not> cp_found p) (wt_polls w @ late_polls w) = p # qs @ late_polls w"
        by (auto simp: dropWhile_append)
      moreover have m: "foldl cgroup_step (monitor_start (wt_scope_dir w) (wt_first w)) (wt_polls w) =
          foldl cgroup_step (monitor_start True (cp_first p)) (p # qs)"
        using found Cons False by (simp only: list.case)
      ultimately show ?thesis
        using verdict [OF tracking_start [of "cp_first p"], of "p # qs"] False
        unfolding run m evidence_def late_polls_def [symmetric]
        by (auto simp: tracking_def Let_def simp del: foldl_Cons)
    qed
  qed
qed

lemma rss_over: "mo_over m \<Longrightarrow> foldl (rss_step threshold) m ps = m"
  by (induction ps) (simp_all add: rss_step_def)

lemma MB_pos: "0 < MB"
  by (simp add: MB_def)

lemma peak_update:
  fixes a v k :: int
  assumes "0 < k"
  shows "max a (v div k) = (if v > a * k then v div k else a)"
  using zdiv_mono1 [of "a * k" v k] zdiv_mono1 [of v "a * k" k] assms by (auto simp: max_def)

lemma rss_steps:
  assumes "\<not> mo_over m" "kf_reason (mo_flag m) = None"
    "0 \<le> or_zero (kf_peak_mb (mo_flag m))" "or_zero (kf_peak_mb (mo_flag m)) \<le> max 0 (threshold div MB)"
  shows "kf_reason (mo_flag (foldl (rss_step threshold) m ps)) =
      (if list_ex (\<lambda>v. int v > threshold) (seen_rss ps) then Some RssExceeded else None) \<and>
    or_zero (kf_peak_mb (mo_flag (foldl (rss_step threshold) m ps))) =
      foldl max (or_zero (kf_peak_mb (mo_flag m))) (map (\<lambda>v. int v div MB) (watched_rss threshold (seen_rss ps)))"
  using assms
proof (induction ps arbitrary: m)
  case Nil
  then show ?case by (simp add: seen_rss_def)
next
  case (Cons p ps)
  show ?case
  proof (cases p)
    case (Rss v)
    let ?peak = "or_zero (kf_peak_mb (mo_flag m))"
    have seen: "seen_rss (p # ps) = v # seen_rss ps" by (simp add: seen_rss_def Rss)
    have new: "max ?peak (int v div MB) = (if int v > ?peak * MB then int v div MB else ?peak)"
      by (rule peak_update) (rule MB_pos)
    show ?thesis
    proof (cases "int v > threshold")
      case True
      have "threshold div MB \<le> int v div MB" using True MB_pos by (simp add: zdiv_mono1)
      moreover have "0 \<le> int v div MB" using MB_pos by (simp add: pos_imp_zdiv_nonneg_iff)
      ultimately have "?peak \<le> int v div MB" using Cons(5) by linarith
      moreover have "mo_over (rss_step threshold m p)" "kf_reason (mo_flag (rss_step threshold m p)) = Some RssExceeded"
        "or_zero (kf_peak_mb (mo_flag (rss_step threshold m p))) = int v div MB"
        using True Cons(2) by (simp_all add: rss_step_def Rss Let_def or_zero_def)
      ultimately show ?thesis using True seen by (simp add: rss_over)
    next
      case False
      let ?m = "rss_step threshold m p"
      have le: "int v div MB \<le> max 0 (threshold div MB)" using False MB_pos by (simp add: zdiv_mono1 le_max_iff_disj)
      have pk: "or_zero (kf_peak_mb (mo_flag ?m)) = max ?peak (int v div MB)"
        using False Cons(2) new by (simp add: rss_step_def Rss Let_def or_zero_def)
      have "\<not> mo_over ?m" "kf_reason (mo_flag ?m) = None"
        using False Cons(2,3) by (simp_all add: rss_step_def Rss Let_def)
      moreover have "0 \<le> or_zero (kf_peak_mb (mo_flag ?m))" "or_zero (kf_peak_mb (mo_flag ?m)) \<le> max 0 (threshold div MB)"
        unfolding pk using Cons(4,5) le by linarith+
      ultimately show ?thesis using Cons(1) [of ?m] False pk by (simp add: seen)
    qed
  next
    case Vanished
    then have "mo_over (rss_step threshold m p)" "mo_flag (rss_step threshold m p) = mo_flag m"
      using Cons(2) by (simp_all add: rss_step_def)
    with Vanished Cons(3) show ?thesis by (simp add: rss_over seen_rss_def)
  next
    case PollError
    then show ?thesis using Cons(1) [OF Cons(2-5)] Cons(2) by (simp add: rss_step_def seen_rss_def)
  qed
qed

text \<open>
  C17: why a call was killed. Whatever the monitor sees and when, the reason reported is decided
  like this: a timeout first; in a cgroup, an out-of-memory kill when a counter reading
  rose above the first; outside one, the size limit when a poll saw more than the threshold
  before the process was gone; else by the signal that ended the child. The peak reported is the
  largest size a poll saw, in megabytes.
\<close>

theorem verdict_of_a_call:
  "killed_reason wrapped (outcome_of wrapped w) =
    (if wt_timed_out w then Some Timeout
     else if wrapped \<and> (case evidence w of (base, counts) \<Rightarrow> rises base counts) then Some Oom
     else if \<not> wrapped \<and> list_ex (\<lambda>v. int v > wt_threshold w) (seen_rss (wt_rss w)) then Some RssExceeded
     else if wt_returncode w = Some (- SIGXCPU) then Some CpuExceeded
     else if wrapped \<and> wt_returncode w \<in> {Some (- SIGKILL), Some (- SIGTERM)} then Some Oom
     else if wt_returncode w = Some (- SIGKILL) then Some RssExceeded
     else None) \<and>
   or_zero (peak_rss_mb (outcome_of wrapped w)) =
    (if wrapped then 0
     else foldl max 0 (map (\<lambda>v. int v div MB) (watched_rss (wt_threshold w) (seen_rss (wt_rss w)))))"
proof (cases wrapped)
  case True
  with watch_cgroup_verdict [of w] show ?thesis
    by (auto simp: outcome_of_def killed_reason_def Let_def or_zero_def SIGXCPU_def SIGKILL_def SIGTERM_def
        split: option.splits if_splits)
next
  case False
  have "kf_reason (watch_rss w) = (if list_ex (\<lambda>v. int v > wt_threshold w) (seen_rss (wt_rss w)) then Some RssExceeded else None) \<and>
    or_zero (kf_peak_mb (watch_rss w)) =
      foldl max 0 (map (\<lambda>v. int v div MB) (watched_rss (wt_threshold w) (seen_rss (wt_rss w))))"
    using rss_steps [of "monitor_start False None" "wt_threshold w" "wt_rss w"]
    by (simp add: watch_rss_def monitor_start_def no_flag_def or_zero_def)
  with False show ?thesis
    by (auto simp: outcome_of_def killed_reason_def Let_def SIGXCPU_def SIGKILL_def SIGTERM_def
        split: option.splits if_splits)
qed

text \<open>
  The last reading is lost when the directory was found late. \<open>execute\<close> falls back to the directory
  the monitor found, but the monitor publishes it only once the command is marked done, which
  happens after that check: a kill between the last poll and the end of the command leaves no
  trace, although the counter that shows it is readable.
\<close>

theorem late_directory_not_read:
  "let w = \<lparr>wt_scope_dir = False, wt_first = None,
        wt_polls = [\<lparr>cp_found = True, cp_first = Some 0, cp_count = Some 0\<rparr>],
        wt_final = Some 1, wt_late = None, wt_rss = [], wt_threshold = 0,
        wt_timed_out = False, wt_returncode = Some 1\<rparr> in
   killed_reason True (outcome_of True w) = None \<and> kf_resolved (watch_cgroup w) \<and>
   killed_reason True (outcome_of True (w\<lparr>wt_scope_dir := True, wt_first := Some 0\<rparr>)) = Some Oom"
  by code_simp

end
