(* ===== verification/Exec_Tools.thy ===== *)
theory Exec_Tools
  imports Monitor Policy Json_Schema
begin

text \<open>
  \<open>hares/exec_tools.py\<close>: the handlers of \<open>execute_command\<close> and \<open>execute_command_high_memory\<close>.
  The gates come first (policy, approval), then the runner's \<open>prepare\<close>, the start of the
  subprocess, what is seen of it (the parameter \<open>ex_os\<close>; its start may raise) and \<open>conclude\<close>.
\<close>

datatype exec_reply =
    Rejected string "string option"
  | Ran exec_result bool   \<comment> \<open>with the retry hint of an out-of-memory kill\<close>

record exec_env =
  ex_host :: host
  ex_slirp :: bool
  ex_fd :: nat
  ex_scope :: string
  ex_os :: "prepared \<Rightarrow> watch result"

text \<open>\<open>EXEC_INPUT_SCHEMA\<close>, the one schema of both tools.\<close>

definition EXEC_INPUT_SCHEMA :: schema where
  "EXEC_INPUT_SCHEMA = TObject
     [(''command'', TString None), (''cwd'', TString None), (''env'', TMap (TString None)), (''timeout'', TNumber),
      (''weight'', TInteger (Some 1)), (''mem_limit_mb'', TInteger (Some 1)), (''cpu_limit_sec'', TInteger (Some 1)),
      (''stdin'', TString None)]
     [''command'']"

text \<open>The descriptors of the two servers differ in their descriptions.\<close>

definition shell_exec_tool_descriptors :: "string option \<Rightarrow> descriptor list" where
  "shell_exec_tool_descriptors sid = [(prefixed ''execute_command'' sid, EXEC_INPUT_SCHEMA),
     (prefixed ''execute_command_high_memory'' sid, EXEC_INPUT_SCHEMA)]"

definition combined_exec_tool_descriptors :: "string option \<Rightarrow> descriptor list" where
  "combined_exec_tool_descriptors sid = [(prefixed ''execute_command'' sid, EXEC_INPUT_SCHEMA),
     (prefixed ''execute_command_high_memory'' sid, EXEC_INPUT_SCHEMA)]"

section \<open>Reading the arguments\<close>

text \<open>\<open>int(x)\<close> and \<open>float(x)\<close> on an argument, and arguments that may be missing or null.\<close>

definition int_of_arg :: "json \<Rightarrow> int result" where
  "int_of_arg j = (case (j, json_int j) of
      (_, Some n) \<Rightarrow> ok n
    | (JStr s, None) \<Rightarrow> raise_err (ValueError s)
    | _ \<Rightarrow> raise_err (TypeError ''int''))"

definition float_of_arg :: "json \<Rightarrow> unit result" where
  "float_of_arg j = (case j of
      JInt n \<Rightarrow> ok ()
    | JBool b \<Rightarrow> ok ()
    | JStr s \<Rightarrow> if py_float_ok s then ok () else raise_err (ValueError s)
    | _ \<Rightarrow> raise_err (TypeError ''float''))"

definition int_arg :: "(string \<times> json) list \<Rightarrow> string \<Rightarrow> int option result" where
  "int_arg args k = (case jget args k of JNull \<Rightarrow> ok None
     | j \<Rightarrow> rbind (int_of_arg j) (\<lambda>n. ok (Some n)))"

definition str_arg :: "(string \<times> json) list \<Rightarrow> string \<Rightarrow> string option result" where
  "str_arg args k = (case jget args k of JNull \<Rightarrow> ok None | JStr s \<Rightarrow> ok (Some s)
     | _ \<Rightarrow> raise_err (TypeError k))"

definition read_command :: "(string \<times> json) list \<Rightarrow> string result" where
  "read_command args = (case map_of args ''command'' of
      Some (JStr c) \<Rightarrow> ok c
    | Some _ \<Rightarrow> raise_err (TypeError ''command'')
    | None \<Rightarrow> raise_err (KeyError ''command''))"

text \<open>The arguments of \<open>runner.execute\<close>. A directory, an environment or an input of another type fails in
  the call before the child is there; the environment and the input themselves only reach the child.\<close>

definition read_request :: "(string \<times> json) list \<Rightarrow> bool \<Rightarrow> request result" where
  "read_request args high =
     rbind (read_command args) (\<lambda>c.
     rbind (case map_of args ''timeout'' of None \<Rightarrow> ok () | Some j \<Rightarrow> float_of_arg j) (\<lambda>_.
     rbind (case map_of args ''weight'' of None \<Rightarrow> ok 1 | Some j \<Rightarrow> int_of_arg j) (\<lambda>w.
     rbind (int_arg args ''mem_limit_mb'') (\<lambda>m.
     rbind (int_arg args ''cpu_limit_sec'') (\<lambda>cpu.
     rbind (case jget args ''env'' of JObj kvs \<Rightarrow> ok () | j \<Rightarrow> if truthy j then raise_err (TypeError ''env'') else ok ()) (\<lambda>_.
     rbind (str_arg args ''stdin'') (\<lambda>_.
     rbind (str_arg args ''cwd'') (\<lambda>d.
     ok \<lparr>rq_command = c, rq_cwd = d, rq_weight = w, rq_mem_mb = m, rq_cpu_sec = cpu, rq_high_memory = high\<rparr>))))))))"

section \<open>Handlers\<close>

text \<open>Every exception leaves the runner as the call found it, but for the one-shot grants of a sandboxed
  call.\<close>

definition run_call :: "exec_env \<Rightarrow> runner \<Rightarrow> request \<Rightarrow> exec_result result \<times> runner" where
  "run_call ev r rq =
     (case prepare (ex_host ev) (ex_slirp ev) (ex_fd ev) (ex_scope ev) r rq of
        Inl e \<Rightarrow> (Inl e, left_by_failure (ex_host ev) r rq)
      | Inr p \<Rightarrow>
          (rbind (started (ex_host ev) (ex_slirp ev) r) (\<lambda>_.
           rbind (ex_os ev p) (\<lambda>w.
           ok (conclude r rq p (outcome_of (pr_scope p \<noteq> None) w)))), pr_runner p))"

definition with_hint :: "exec_result result \<times> runner \<Rightarrow> exec_reply result \<times> runner" where
  "with_hint x = (case x of (Inl e, r) \<Rightarrow> (Inl e, r)
     | (Inr res, r) \<Rightarrow> (ok (Ran res (res_killed res = Some Oom)), r))"

definition without_hint :: "exec_result result \<times> runner \<Rightarrow> exec_reply result \<times> runner" where
  "without_hint x = (case x of (Inl e, r) \<Rightarrow> (Inl e, r) | (Inr res, r) \<Rightarrow> (ok (Ran res False), r))"

text \<open>\<open>_run\<close>, which reads the remaining arguments: after the gates.\<close>

definition run_args ::
  "exec_env \<Rightarrow> runner \<Rightarrow> (string \<times> json) list \<Rightarrow> bool \<Rightarrow> exec_result result \<times> runner" where
  "run_args ev r args high = (case read_request args high of Inl e \<Rightarrow> (Inl e, r) | Inr rq \<Rightarrow> run_call ev r rq)"

definition execute_command ::
  "exec_env \<Rightarrow> policy_engine option \<Rightarrow> client \<Rightarrow> runner \<Rightarrow> (string \<times> json) list
   \<Rightarrow> exec_reply result \<times> runner" where
  "execute_command ev pol cl r args =
     (case read_command args of Inl e \<Rightarrow> (Inl e, r)
      | Inr cmd \<Rightarrow>
          (case pol of
             Some e \<Rightarrow>
               if policy_active e then
                 (let pr = policy_check e cmd in
                  case decision pr of
                    DENY \<Rightarrow> (ok (Rejected ''denylist'' (matched_pattern pr)), r)
                  | ELICIT \<Rightarrow> if elicit_approval cl then with_hint (run_args ev r args False)
                             else (ok (Rejected ''declined'' (matched_pattern pr)), r)
                  | ALLOW \<Rightarrow> with_hint (run_args ev r args False))
               else with_hint (run_args ev r args False)
           | None \<Rightarrow> with_hint (run_args ev r args False)))"

text \<open>The budget of a high-memory call: \<open>raw_mb < 1\<close> compares whatever was passed.\<close>

definition raw_mb :: "(string \<times> json) list \<Rightarrow> int option result" where
  "raw_mb args = (case jget args ''mem_limit_mb'' of
      JNull \<Rightarrow> ok None
    | JInt n \<Rightarrow> ok (Some n)
    | JBool b \<Rightarrow> ok (Some (if b then 1 else 0))
    | _ \<Rightarrow> raise_err (TypeError ''mem_limit_mb''))"

text \<open>The approval dialog states the requested budget: the caller's, or the machine maximum. A refusal
  carries the message of its reason.\<close>

definition requested_mb :: "int \<Rightarrow> int option \<Rightarrow> int" where
  "requested_mb max_mb mb = (case mb of Some m \<Rightarrow> if m = 0 then max_mb else m | None \<Rightarrow> max_mb)"

fun denial_message :: "elicit_reason \<Rightarrow> string" where
  "denial_message UserDeclined = ''High-memory run declined by the user.''"
| "denial_message Unsupported = ''High-memory run blocked: this MCP client does not support the approval dialog '' @
     ''(elicitation). Use an interactive client such as Claude Code to approve high-memory commands.''"
| "denial_message NoSession = ''High-memory run blocked: no MCP session is available to present the approval dialog.''"
| "denial_message ElicitError = ''High-memory run blocked (reason: error).''"
| "denial_message Accepted = ''High-memory run blocked (reason: accepted).''"

definition execute_high_memory ::
  "exec_env \<Rightarrow> policy_engine option \<Rightarrow> client \<Rightarrow> runner \<Rightarrow> (string \<times> json) list
   \<Rightarrow> exec_reply result \<times> runner" where
  "execute_high_memory ev pol cl r args =
     (case read_command args of Inl e \<Rightarrow> (Inl e, r)
      | Inr cmd \<Rightarrow>
          if (case pol of None \<Rightarrow> False | Some e \<Rightarrow> policy_active e \<and> decision (policy_check e cmd) = DENY)
          then (ok (Rejected ''denylist'' (matched_pattern (policy_check (the pol) cmd))), r)
          else (case raw_mb args of Inl e \<Rightarrow> (Inl e, r)
           | Inr mb \<Rightarrow>
               if (case mb of None \<Rightarrow> False | Some m \<Rightarrow> m < 1)
               then (ok (Rejected ''mem_limit_mb must be a positive integer'' None), r)
               else if elicit_memory_approval cl \<noteq> Accepted
               then (ok (Rejected (denial_message (elicit_memory_approval cl)) None), r)
               else without_hint (run_args ev r args True)))"

section \<open>Nothing runs past a gate\<close>

lemma with_hint_ran: "with_hint x = (ok (Rejected a b), r) \<longleftrightarrow> False" "without_hint x = (ok (Rejected a b), r) \<longleftrightarrow> False"
  by (auto simp: with_hint_def without_hint_def split: prod.splits sum.splits)

definition denied :: "policy_engine option \<Rightarrow> string \<Rightarrow> bool" where
  "denied pol c = (case pol of None \<Rightarrow> False | Some e \<Rightarrow> matches_any (deny_pats e) c)"

definition suspicious :: "policy_engine option \<Rightarrow> string \<Rightarrow> bool" where
  "suspicious pol c = (case pol of None \<Rightarrow> False
     | Some e \<Rightarrow> \<not> matches_any (deny_pats e) c \<and> matches_any (suspect_pats e) c)"

lemma inactive_policy: "\<not> policy_active e \<Longrightarrow> \<not> matches_any (deny_pats e) c \<and> \<not> matches_any (suspect_pats e) c"
  by (simp add: policy_active_def matches_any_def)

lemma check_decisions:
  "(decision (policy_check e c) = DENY) = matches_any (deny_pats e) c"
  "(decision (policy_check e c) = ELICIT) = (\<not> matches_any (deny_pats e) c \<and> matches_any (suspect_pats e) c)"
  using find_matches [of c "deny_pats e"] find_matches [of c "suspect_pats e"]
  by (auto simp: policy_check_def split: option.splits)

lemma execute_command_gates:
  "execute_command ev pol cl r args =
     (case read_command args of Inl e \<Rightarrow> (Inl e, r)
      | Inr cmd \<Rightarrow>
          if denied pol cmd then (ok (Rejected ''denylist'' (matched_pattern (policy_check (the pol) cmd))), r)
          else if suspicious pol cmd \<and> \<not> elicit_approval cl then
            (ok (Rejected ''declined'' (matched_pattern (policy_check (the pol) cmd))), r)
          else with_hint (run_args ev r args False))"
proof (cases "read_command args")
  case (Inr cmd)
  show ?thesis
  proof (cases pol)
    case (Some e)
    show ?thesis
    proof (cases "policy_active e")
      case True
      then show ?thesis
        using check_decisions [of e cmd]
        by (cases "decision (policy_check e cmd)")
          (auto simp: execute_command_def Inr Some denied_def suspicious_def Let_def)
    next
      case False
      with inactive_policy [OF False] show ?thesis
        by (simp add: execute_command_def Inr Some denied_def suspicious_def)
    qed
  qed (simp add: execute_command_def Inr denied_def suspicious_def)
qed (simp add: execute_command_def)

text \<open>Each way a high-memory run is not approved has its own message.\<close>

lemma denial_messages_distinct: "denial_message x = denial_message y \<longleftrightarrow> x = y"
  by (cases x; cases y; simp)

text \<open>The conditions under which a call may reach the runner.\<close>

definition may_run :: "policy_engine option \<Rightarrow> client \<Rightarrow> bool \<Rightarrow> (string \<times> json) list \<Rightarrow> bool" where
  "may_run pol cl high args = (case read_command args of
      Inl e \<Rightarrow> False
    | Inr cmd \<Rightarrow> \<not> denied pol cmd \<and>
        (if high then elicit_memory_approval cl = Accepted \<and>
           (case raw_mb args of Inl e \<Rightarrow> False | Inr mb \<Rightarrow> case mb of None \<Rightarrow> True | Some m \<Rightarrow> 1 \<le> m)
         else if suspicious pol cmd then elicit_approval cl else True))"

lemma prepare_runner: "prepare h sl fd sn r rq = ok p \<Longrightarrow> pr_runner p \<in> {r, spend_once r}"
  by (auto simp: prepare_def Let_def split: if_splits option.splits prod.splits)

lemma run_call_runner: "snd (run_call ev r rq) \<in> {r, spend_once r}"
  using prepare_runner by (auto simp: run_call_def left_by_failure_def split: sum.split option.split)

lemma run_args_runner: "snd (run_args ev r args high) \<in> {r, spend_once r}"
  using run_call_runner by (simp add: run_args_def split: sum.split)

lemma exec_keeps_runner:
  "snd (execute_command ev pol cl r a) \<in> {r, spend_once r}" "snd (execute_high_memory ev pol cl r a) \<in> {r, spend_once r}"
proof -
  have h: "snd (with_hint x) = snd x" "snd (without_hint x) = snd x" for x
    by (auto simp: with_hint_def without_hint_def split: prod.splits sum.splits)
  note c = run_args_runner [of ev r a]
  show "snd (execute_command ev pol cl r a) \<in> {r, spend_once r}"
    using c by (simp add: execute_command_gates h split: sum.split)
  show "snd (execute_high_memory ev pol cl r a) \<in> {r, spend_once r}"
    using c by (simp add: execute_high_memory_def h split: sum.split)
qed

definition gated :: "runner \<Rightarrow> bool \<Rightarrow> exec_reply result \<times> runner \<Rightarrow> bool" where
  "gated r may x = (case x of
      (Inr (Rejected w p), r') \<Rightarrow> r' = r
    | (Inr (Ran res hint), r') \<Rightarrow> may \<and> r' \<in> {r, spend_once r}
    | (Inl e, r') \<Rightarrow> if may then r' \<in> {r, spend_once r} else r' = r)"

lemma gated_hint: "snd x \<in> {r, spend_once r} \<Longrightarrow> gated r True (with_hint x)" "snd x \<in> {r, spend_once r} \<Longrightarrow> gated r True (without_hint x)"
  by (auto simp: gated_def with_hint_def without_hint_def split: prod.splits sum.splits)

text \<open>
  C4: no command runs past a gate. When \<open>execute_command\<close> starts a command, no deny pattern
  matches it, and if a suspicious pattern does, the client's user approved this call; when the
  high-memory tool starts one, no deny pattern matches, the user approved this call, and the
  budget asked for is positive. A rejected call, and one that raises before these gates, leaves
  the runner (its grants and cores) as it was; any other spends at most the one-shot grants.
\<close>

theorem nothing_runs_past_a_gate:
  "gated r (may_run pol cl False args) (execute_command ev pol cl r args) \<and>
   gated r (may_run pol cl True args) (execute_high_memory ev pol cl r args)"
proof
  have rej: "gated r may (ok (Rejected w p), r)" "gated r False (Inl e, r)" for may w p e by (simp_all add: gated_def)
  note run = gated_hint [OF run_args_runner]
  show "gated r (may_run pol cl False args) (execute_command ev pol cl r args)"
    unfolding execute_command_gates may_run_def by (simp add: rej run split: sum.split)
  have d: "(case pol of None \<Rightarrow> False | Some e \<Rightarrow> policy_active e \<and> decision (policy_check e c) = DENY) = denied pol c" for c
    using inactive_policy by (cases pol) (auto simp: denied_def check_decisions)
  show "gated r (may_run pol cl True args) (execute_high_memory ev pol cl r args)"
    unfolding execute_high_memory_def may_run_def d
    by (auto simp: rej run not_less split: sum.splits option.splits)
qed

text \<open>
  C18: the network allowlist runs nothing. Under a sandbox with a usable allowlist no call of either
  tool returns a result when slirp4netns is there: the server waits for the sandbox on the end of the
  pipe it can only write to, so the wait raises, whatever the command, the policy
  and the system do.
\<close>

theorem allowlist_runs_nothing:
  assumes "sandbox r = Some sb" "net_policy r = Some p" "policy_enabled p" "ex_slirp ev"
  shows "(case execute_command ev pol cl r args of (Inr (Ran res hint), _) \<Rightarrow> False | _ \<Rightarrow> True) \<and>
    (case execute_high_memory ev pol cl r args of (Inr (Ran res hint), _) \<Rightarrow> False | _ \<Rightarrow> True)"
proof -
  have "\<not> is_ok (started (ex_host ev) True r) \<or> \<not> is_ok (effective_sandbox (ex_host ev) r)"
    using assms(1-3) by (auto simp: started_def effective_sandbox_def uses_allowlist_def namespace_ready_def os_read_def split: sum.splits)
  moreover have "\<not> is_ok (effective_sandbox (ex_host ev) r) \<Longrightarrow> \<not> is_ok (prepare (ex_host ev) True fd sn r rq)" for fd sn rq
    by (auto simp: prepare_def rbind_def split: sum.splits)
  ultimately have run: "\<not> is_ok (fst (run_call ev r rq))" for rq
    using assms(4) by (cases "prepare (ex_host ev) True (ex_fd ev) (ex_scope ev) r rq")
      (simp_all add: run_call_def, metis is_ok_iff is_ok_simps rbind_eq_Inr)
  then have run: "\<not> is_ok (fst (run_args ev r args high))" for high by (simp add: run_args_def split: sum.split)
  have "case with_hint (run_args ev r args False) of (Inr (Ran res hint), _) \<Rightarrow> False | _ \<Rightarrow> True"
    "case without_hint (run_args ev r args True) of (Inr (Ran res hint), _) \<Rightarrow> False | _ \<Rightarrow> True"
    using run [of False] run [of True]
    by (cases "fst (run_args ev r args False)"; cases "fst (run_args ev r args True)";
        simp add: with_hint_def without_hint_def case_prod_beta')+
  then show ?thesis
    unfolding execute_command_gates execute_high_memory_def by (simp split: sum.split)
qed

theorem allowlist_runs_nothing_witness:
  "let ev = \<lparr>ex_host = default_host, ex_slirp = True, ex_fd = 5, ex_scope = ''s'',
        ex_os = (\<lambda>_. ok \<lparr>wt_scope_dir = True, wt_first = None, wt_polls = [], wt_final = None, wt_late = None,
          wt_rss = [], wt_threshold = 0, wt_timed_out = False, wt_returncode = Some 0\<rparr>)\<rparr>;
       r = default_runner\<lparr>net_policy := Some \<lparr>allow = [\<lparr>ae_host = ''g'', ae_ip = ''1.2.3.4'', ae_port = 443\<rparr>], raw = ''g:443''\<rparr>\<rparr> in
   case execute_command ev None None r [(''command'', JStr ''ls'')] of (Inr (Ran res hint), _) \<Rightarrow> False | _ \<Rightarrow> True"
  unfolding Let_def
  by (rule allowlist_runs_nothing [THEN conjunct1])
    (simp add: default_runner_def, simp add: default_runner_def, code_simp, simp)

end
