(* ===== verification/Servers.thy ===== *)
theory Servers
  imports Startup Fs_Tools Restrict_Tools Grant_Tools Exec_Tools
begin

text \<open>
  The three servers (\<open>hares/shell/server.py\<close>, \<open>hares/fs/server.py\<close>, \<open>hares/combined/server.py\<close>,
  \<open>hares/fs/dispatch.py\<close>): which tools an instance registers under its scope id, the dispatch of a
  call to the component that handles it, and the state the components share: the disk, the
  active scope, the grants and the runner.
\<close>

section \<open>Registration\<close>

datatype server_kind = ShellServer | FsServer | CombinedServer

datatype handler = HFs fs_op | HExec bool | HRestrict | HActive | HGrant

record server_cfg =
  sc_kind :: server_kind
  sc_scope_id :: "string option"
  sc_ceiling :: rpath
  sc_read_only :: bool
  sc_deny :: deny_lists
  sc_policy :: "policy_engine option"

definition fs_tools :: "bool \<Rightarrow> fs_op list" where
  "fs_tools read_only = READ_OPS @ (if read_only then [] else WRITE_OPS)"

text \<open>The tools every server has, those of the commands, and the list of each server, in the order it
  registers them.\<close>

definition common_tools :: "(string \<times> handler) list" where
  "common_tools = [(''restrict_paths'', HRestrict), (''get_active_paths'', HActive), (''request_path_access'', HGrant)]"

definition exec_tools :: "(string \<times> handler) list" where
  "exec_tools = [(''execute_command'', HExec False), (''execute_command_high_memory'', HExec True)]"

definition fs_server_tools :: "bool \<Rightarrow> (string \<times> handler) list" where
  "fs_server_tools read_only = map (\<lambda>n. (op_name n, HFs n)) (fs_tools read_only) @ common_tools"

definition shell_server_tools :: "(string \<times> handler) list" where
  "shell_server_tools = exec_tools @ common_tools"

definition combined_server_tools :: "bool \<Rightarrow> (string \<times> handler) list" where
  "combined_server_tools read_only = map (\<lambda>n. (op_name n, HFs n)) (fs_tools read_only) @ exec_tools @ common_tools"

definition base_tools :: "server_cfg \<Rightarrow> (string \<times> handler) list" where
  "base_tools c = (case sc_kind c of
      ShellServer \<Rightarrow> shell_server_tools
    | FsServer \<Rightarrow> fs_server_tools (sc_read_only c)
    | CombinedServer \<Rightarrow> combined_server_tools (sc_read_only c))"

definition handlers :: "server_cfg \<Rightarrow> (string \<times> handler) list" where
  "handlers c = map (\<lambda>(n, k). (prefixed n (sc_scope_id c), k)) (base_tools c)"

text \<open>What \<open>list_tools\<close> answers.\<close>

definition descriptors :: "server_cfg \<Rightarrow> descriptor list" where
  "descriptors c =
     (let sid = sc_scope_id c;
          ops = map (op_descriptor sid) (fs_tools (sc_read_only c));
          common = restrict_tool_descriptors sid @ [request_path_access_tool_descriptor sid]
      in case sc_kind c of
           ShellServer \<Rightarrow> shell_exec_tool_descriptors sid @ common
         | FsServer \<Rightarrow> ops @ common
         | CombinedServer \<Rightarrow> ops @ combined_exec_tool_descriptors sid @ common)"

section \<open>Calls\<close>

record server =
  sv_rt :: rt_state
  sv_grants :: grant_store
  sv_runner :: runner

datatype tool_reply =
    FsReply fs_reply
  | ExecReply exec_reply
  | RestrictReply restrict_reply
  | ActiveReply restrict_reply "(string \<times> gmode \<times> lifetime) list"
  | GrantReply grant_reply

text \<open>What a call meets outside: the MAC, the time, the client, and the system's part of running a
  command. What a command does to the disk is a step of its own.\<close>

record world =
  w_mac :: "string \<Rightarrow> string"
  w_now :: string
  w_client :: client
  w_slirp :: bool
  w_fd :: nat
  w_scope_name :: string
  w_os :: "prepared \<Rightarrow> watch result"

definition exec_env_of :: "world \<Rightarrow> server \<Rightarrow> exec_env" where
  "exec_env_of w sv = \<lparr>ex_host = rt_host (sv_rt sv), ex_slirp = w_slirp w, ex_fd = w_fd w,
     ex_scope = w_scope_name w, ex_os = w_os w\<rparr>"

definition op_context :: "server_cfg \<Rightarrow> server \<Rightarrow> op_ctx" where
  "op_context c sv = \<lparr>ctx_ceiling = sc_ceiling c, ctx_scope = paths (scope (rt_store (sv_rt sv))),
     ctx_deny = Some (sc_deny c)\<rparr>"

definition grant_cfg_of :: "server_cfg \<Rightarrow> grant_cfg" where
  "grant_cfg_of c = \<lparr>gt_ceiling = Some (sc_ceiling c), gt_deny = Some (sc_deny c), gt_read_only = sc_read_only c\<rparr>"

text \<open>\<open>on_change\<close>: the runner of a server that has one takes the new scope over.\<close>

definition push_scope :: "server_cfg \<Rightarrow> rt_state \<Rightarrow> runner \<Rightarrow> runner" where
  "push_scope c rt r = (if sc_kind c = FsServer then r
     else set_active_scope (paths (scope (rt_store rt))) (sc_read_only c) r)"

definition is_scope_reply :: "restrict_reply result \<Rightarrow> bool" where
  "is_scope_reply r = (case r of Inr (ScopeReply ps n sig v) \<Rightarrow> True | _ \<Rightarrow> False)"

text \<open>The grant store is one object, shared with the runner.\<close>

definition run_handler ::
  "server_cfg \<Rightarrow> world \<Rightarrow> handler \<Rightarrow> args \<Rightarrow> server \<Rightarrow> tool_reply result \<times> server" where
  "run_handler c w k a sv = (case k of
      HFs op \<Rightarrow>
        (let (res, s) = fs_handler (op_context c sv) op a
               \<lparr>host_of = rt_host (sv_rt sv), grants_of = Some (sv_grants sv)\<rparr>
         in (map_sum id FsReply res,
             sv\<lparr>sv_rt := (sv_rt sv)\<lparr>rt_host := host_of s\<rparr>, sv_grants := the (grants_of s)\<rparr>))
    | HExec high \<Rightarrow>
        (let r = (sv_runner sv)\<lparr>grant_list := Some (sv_grants sv)\<rparr>;
             (res, r1) = (if high then execute_high_memory else execute_command)
               (exec_env_of w sv) (sc_policy c) (w_client w) r a
         in (map_sum id ExecReply res, sv\<lparr>sv_runner := r1, sv_grants := the (grant_list r1)\<rparr>))
    | HRestrict \<Rightarrow>
        (let (res, rt) = restrict (w_mac w) (w_now w) (sv_rt sv) a
         in (map_sum id RestrictReply res,
             sv\<lparr>sv_rt := rt, sv_runner := if is_scope_reply res then push_scope c rt (sv_runner sv) else sv_runner sv\<rparr>))
    | HActive \<Rightarrow>
        (let (rep, gs) = get_active (w_mac w) (sv_rt sv) (Some (sv_grants sv)) in (ok (ActiveReply rep gs), sv))
    | HGrant \<Rightarrow>
        (let (res, gs) = request_path_access (rt_host (sv_rt sv)) (grant_cfg_of c) (w_client w) (sv_grants sv) a
         in (map_sum id GrantReply res, sv\<lparr>sv_grants := gs\<rparr>)))"

text \<open>\<open>dispatch_tool_call\<close>: an unregistered name raises before anything runs.\<close>

definition call_tool ::
  "server_cfg \<Rightarrow> world \<Rightarrow> string \<Rightarrow> args \<Rightarrow> server \<Rightarrow> tool_reply result \<times> server" where
  "call_tool c w name args sv = (case map_of (handlers c) name of
      None \<Rightarrow> (raise_err (ValueError (''Unknown tool: '' @ name)), sv)
    | Some k \<Rightarrow> run_handler c w k args sv)"

text \<open>\<open>_build_server\<close>: the store loaded from its files, the deny lists resolved once, the loaded scope
  handed to the runner. An fs server has no runner; the one given stays untouched.\<close>

definition build_server ::
  "host \<Rightarrow> world \<Rightarrow> (string \<Rightarrow> bool) \<Rightarrow> server_kind \<Rightarrow> string option \<Rightarrow> rpath \<Rightarrow> bool \<Rightarrow> bool \<Rightarrow> state_disk
   \<Rightarrow> policy_engine option \<Rightarrow> runner \<Rightarrow> (server_cfg \<times> server) result" where
  "build_server h w ts_ok skind sid ceil read_only persist d pol r =
     rbind (store_init h (w_mac w) ts_ok \<lparr>cfg_scope_id = sid, cfg_ceiling = ceil, cfg_persist = persist\<rparr> d) (\<lambda>store.
     rbind (resolve_deny_lists h (rpath_path ceil)) (\<lambda>deny.
     let c = \<lparr>sc_kind = skind, sc_scope_id = sid, sc_ceiling = ceil, sc_read_only = read_only,
              sc_deny = deny, sc_policy = pol\<rparr>;
         rt = \<lparr>rt_host = h, rt_store = store\<rparr>
     in ok (c, \<lparr>sv_rt = rt, sv_grants = [], sv_runner = push_scope c rt r\<rparr>)))"

section \<open>Registered names\<close>

lemma base_tools_eq:
  "base_tools c =
     (if sc_kind c = ShellServer then [] else map (\<lambda>n. (op_name n, HFs n)) (fs_tools (sc_read_only c))) @
     (if sc_kind c = FsServer then [] else [(''execute_command'', HExec False), (''execute_command_high_memory'', HExec True)]) @
     [(''restrict_paths'', HRestrict), (''get_active_paths'', HActive), (''request_path_access'', HGrant)]"
  by (cases "sc_kind c") (simp_all add: base_tools_def shell_server_tools_def fs_server_tools_def combined_server_tools_def
      exec_tools_def common_tools_def)

lemma base_tools_distinct: "distinct (map fst (base_tools c))"
  by (simp add: base_tools_eq fs_tools_def READ_OPS_def WRITE_OPS_def)

lemma handlers_distinct: "distinct (map fst (handlers c))"
  using base_tools_distinct [of c]
  by (simp add: handlers_def distinct_map inj_on_def case_prod_beta' comp_def)

lemma map_of_prefixed: "map_of (map (\<lambda>(n, k). (prefixed n sid, k)) xs) (prefixed n sid) = map_of xs n"
  by (induction xs) auto

lemma map_of_handlers: "map_of (handlers c) (prefixed n (sc_scope_id c)) = map_of (base_tools c) n"
  unfolding handlers_def by (rule map_of_prefixed)

lemma handlers_names: "map_of (handlers c) name = Some k \<Longrightarrow> \<exists>n. name = prefixed n (sc_scope_id c) \<and> (n, k) \<in> set (base_tools c)"
  by (auto simp: handlers_def dest!: map_of_SomeD)

lemma restrict_name: "(n, HRestrict) \<in> set (base_tools c) \<Longrightarrow> n = ''restrict_paths''"
  by (auto simp: base_tools_eq split: if_splits)

lemma fs_ops_of: "(n, HFs op) \<in> set (base_tools c) \<Longrightarrow> op \<in> set (fs_tools (sc_read_only c))"
  by (auto simp: base_tools_eq split: if_splits)

lemma fs_name_restrict: "op_name op \<noteq> ''restrict_paths''"
  by (cases op) simp_all

section \<open>A read-only server\<close>

lemma keeps_host_map [simp]: "keeps_host m \<Longrightarrow> keeps_host (act_map f m)"
  unfolding act_map_def by (rule keeps_host_bind) simp_all

lemma keeps_host_lift [simp]: "keeps_host (act_lift x)"
  by (simp add: act_lift_def)

lemma keeps_host_on_path: "(\<And>p. keeps_host (f p)) \<Longrightarrow> keeps_host (on_path a k f)"
  unfolding on_path_def by (rule keeps_host_bind) simp_all

lemma read_handler_keeps_host:
  assumes "op \<in> set READ_OPS"
  shows "keeps_host (fs_handler ctx op a)"
proof -
  note k = keeps_host_bind keeps_host_read_multiple keeps_host_on_path
  have r: "keeps_host (read_file ctx p)" "keeps_host (read_text_file ctx p)" "keeps_host (list_directory ctx p)"
    "keeps_host (list_directory_with_sizes ctx p)" "keeps_host (directory_tree ctx p)" "keeps_host (search_args ctx a p)"
    "keeps_host (get_file_info ctx p)" "keeps_host (read_paths ctx js)" for p js
    unfolding read_text_file_def read_file_def list_directory_def list_directory_with_sizes_def directory_tree_def
      search_args_def search_files_def search_no_pattern_def get_file_info_def read_paths_def Let_def
    by ((intro k, simp_all split: option.split json.split)+, (intro conjI allI impI k, simp_all)+)
  show ?thesis
    by (insert assms, cases op) (simp_all add: READ_OPS_def WRITE_OPS_def r k)
qed

text \<open>What \<open>restrict_paths\<close> adds to the disk are directories.\<close>

lemma restrict_targets_new:
  assumes "restrict_targets h cl ps = (x, h')" "node_at (disk h') p \<noteq> node_at (disk h) p"
  shows "node_at (disk h) p = None \<and> node_at (disk h') p = Some DirN"
  using assms
proof (induction h cl ps arbitrary: x h' rule: restrict_targets.induct)
  case (2 h cl a ps)
  show ?case
  proof (cases "restrict_target h cl a")
    case (Inr y)
    obtain t h1 where y: "y = (t, h1)" by (cases y)
    obtain x2 h2 where r: "restrict_targets h1 cl ps = (x2, h2)" by (cases "restrict_targets h1 cl ps")
    with 2(2) Inr y have h': "h' = h2" by (auto split: sum.splits)
    obtain d where d: "mkdir_p (disk h) t = ok d" "h1 = h\<lparr>disk := d\<rparr>"
      using Inr y by (auto simp: restrict_target_def split: json.splits if_splits)
    note step = mkdir_step [OF d(1), of p] and IH = 2(1) [OF Inr y [symmetric] r]
    show ?thesis
    proof (cases "node_at (disk h2) p = node_at (disk h1) p")
      case True
      with step 2(3) d(2) show ?thesis by (simp add: h')
    next
      case False
      from IH [OF False] have i: "node_at (disk h1) p = None" "node_at (disk h2) p = Some DirN" by simp_all
      have "node_at d p = node_at (disk h) p"
      proof (rule ccontr)
        assume "node_at d p \<noteq> node_at (disk h) p"
        with step i(1) d(2) show False by simp
      qed
      with i d(2) show ?thesis by (simp add: h')
    qed
  qed (use 2 in simp)
qed simp

lemma restrict_host:
  assumes "restrict mac now rt args = (res, rt')"
  shows "rt_host rt' = rt_host rt \<or> (\<exists>ps x. restrict_targets (rt_host rt) (cfg_ceiling (cfg (rt_store rt))) ps = (x, rt_host rt'))"
  using assms unfolding restrict_def
  by (auto split: json.splits sum.splits prod.splits py_error.splits)

text \<open>
  What a read-only server does to the disk. A call of any tool other than \<open>restrict_paths\<close>,
  registered or not, leaves the host as it is; \<open>restrict_paths\<close> changes nothing that exists,
  and what it adds are directories.
\<close>

theorem read_only_server_disk:
  assumes "sc_read_only c" "call_tool c w name args sv = (res, sv')"
  shows "if name = prefixed ''restrict_paths'' (sc_scope_id c)
    then \<forall>p. node_at (disk (rt_host (sv_rt sv'))) p = node_at (disk (rt_host (sv_rt sv))) p \<or>
      (node_at (disk (rt_host (sv_rt sv))) p = None \<and> node_at (disk (rt_host (sv_rt sv'))) p = Some DirN)
    else rt_host (sv_rt sv') = rt_host (sv_rt sv)"
proof (cases "map_of (handlers c) name")
  case None
  with assms(2) show ?thesis by (simp add: call_tool_def)
next
  case (Some k)
  with assms(2) have run: "run_handler c w k args sv = (res, sv')" by (simp add: call_tool_def)
  from handlers_names [OF Some] obtain n where n: "name = prefixed n (sc_scope_id c)" "(n, k) \<in> set (base_tools c)" by blast
  show ?thesis
  proof (cases "k = HRestrict")
    case True
    then have "name = prefixed ''restrict_paths'' (sc_scope_id c)" using n restrict_name by auto
    moreover have "node_at (disk (rt_host (sv_rt sv'))) p = node_at (disk (rt_host (sv_rt sv))) p \<or>
      (node_at (disk (rt_host (sv_rt sv))) p = None \<and> node_at (disk (rt_host (sv_rt sv'))) p = Some DirN)" for p
    proof -
      obtain r1 rt1 where r: "restrict (w_mac w) (w_now w) (sv_rt sv) args = (r1, rt1)"
        by (cases "restrict (w_mac w) (w_now w) (sv_rt sv) args")
      with run True have "sv_rt sv' = rt1" by (auto simp: run_handler_def)
      with restrict_host [OF r] restrict_targets_new show ?thesis by metis
    qed
    ultimately show ?thesis by simp
  next
    case False
    have "rt_host (sv_rt sv') = rt_host (sv_rt sv)"
    proof (cases k)
      case (HFs op)
      with n(2) assms(1) have "op \<in> set READ_OPS" using fs_ops_of by (fastforce simp: fs_tools_def)
      note keep = keeps_hostD [OF read_handler_keeps_host [OF this]]
      from run HFs keep show ?thesis
        by (auto simp: run_handler_def split: prod.splits dest!: keep)
    qed (use run False in \<open>auto simp: run_handler_def split: prod.splits\<close>)
    moreover have "name \<noteq> prefixed ''restrict_paths'' (sc_scope_id c)"
    proof
      assume "name = prefixed ''restrict_paths'' (sc_scope_id c)"
      with n(1) have "n = ''restrict_paths''" by simp
      with n(2) False show False by (auto simp: base_tools_eq fs_name_restrict fs_name_restrict [symmetric] split: if_splits)
    qed
    ultimately show ?thesis by simp
  qed
qed

section \<open>The runner follows the scope\<close>

lemma execute_keeps_scope:
  "scope_paths (snd (execute_command ev pol cl r a)) = scope_paths r"
  "scope_read_only (snd (execute_command ev pol cl r a)) = scope_read_only r"
  "scope_paths (snd (execute_high_memory ev pol cl r a)) = scope_paths r"
  "scope_read_only (snd (execute_high_memory ev pol cl r a)) = scope_read_only r"
  using exec_keeps_runner [of ev pol cl r a] by (auto simp: spend_once_def)

text \<open>The steps of a running server: a call, the client's listing of the tools (which may refine the
  runner's ceiling), and anything that changes the disk from outside, commands included.\<close>

inductive serves :: "server_cfg \<Rightarrow> server \<Rightarrow> server \<Rightarrow> bool" for c where
  tool_call: "call_tool c w name args sv = (res, sv') \<Longrightarrow> serves c sv sv'"
| list_tools: "maybe_refine (rt_host (sv_rt sv)) use_roots listed (applied, sv_runner sv) = (applied', r) \<Longrightarrow>
    serves c sv (sv\<lparr>sv_runner := r\<rparr>)"
| disk_change: "serves c sv (sv\<lparr>sv_rt := (sv_rt sv)\<lparr>rt_host := (rt_host (sv_rt sv))\<lparr>disk := d\<rparr>\<rparr>\<rparr>)"

definition in_step :: "server_cfg \<Rightarrow> server \<Rightarrow> bool" where
  "in_step c sv \<longleftrightarrow> (let ps = paths (scope (rt_store (sv_rt sv))) in
     scope_paths (sv_runner sv) = (if ps = [] then None else Some ps) \<and>
     scope_read_only (sv_runner sv) = sc_read_only c)"

lemma in_step_push: "sc_kind c \<noteq> FsServer \<Longrightarrow> in_step c (sv\<lparr>sv_rt := rt, sv_runner := push_scope c rt r\<rparr>)"
  by (simp add: in_step_def push_scope_def set_active_scope_def Let_def)

lemma in_step_same:
  "in_step c sv \<Longrightarrow> rt_store (sv_rt sv') = rt_store (sv_rt sv) \<Longrightarrow>
    scope_paths (sv_runner sv') = scope_paths (sv_runner sv) \<Longrightarrow>
    scope_read_only (sv_runner sv') = scope_read_only (sv_runner sv) \<Longrightarrow> in_step c sv'"
  by (simp add: in_step_def)

lemma restrict_store:
  "restrict mac now rt args = (res, rt') \<Longrightarrow> rt_store rt' \<noteq> rt_store rt \<Longrightarrow> is_scope_reply res"
  unfolding restrict_def
  by (auto simp: is_scope_reply_def scope_reply_def Let_def split: json.splits sum.splits prod.splits py_error.splits)

lemma run_handler_keeps:
  assumes "run_handler c w k args sv = (res, sv')" "k \<notin> {HExec False, HExec True, HRestrict}"
  shows "rt_store (sv_rt sv') = rt_store (sv_rt sv) \<and> sv_runner sv' = sv_runner sv"
proof -
  have "rt_store (sv_rt (snd (run_handler c w k args sv))) = rt_store (sv_rt sv) \<and>
      sv_runner (snd (run_handler c w k args sv)) = sv_runner sv"
    using assms(2) by (cases k) (simp_all add: run_handler_def Let_def case_prod_beta')
  with assms(1) show ?thesis by simp
qed

lemma run_handler_in_step [inv_facts]:
  assumes "sc_kind c \<noteq> FsServer" "in_step c sv" "run_handler c w k args sv = (res, sv')"
  shows "in_step c sv'"
proof (cases k)
  case (HExec high)
  with assms(3) have "rt_store (sv_rt sv') = rt_store (sv_rt sv)"
    "scope_paths (sv_runner sv') = scope_paths (sv_runner sv)"
    "scope_read_only (sv_runner sv') = scope_read_only (sv_runner sv)"
    using execute_keeps_scope [of "exec_env_of w sv" "sc_policy c" "w_client w" "(sv_runner sv)\<lparr>grant_list := Some (sv_grants sv)\<rparr>" args]
    by (auto simp: run_handler_def split: prod.splits if_splits)
  with assms(2) show ?thesis by (rule in_step_same)
next
  case HRestrict
  obtain r1 rt1 where r: "restrict (w_mac w) (w_now w) (sv_rt sv) args = (r1, rt1)"
    by (cases "restrict (w_mac w) (w_now w) (sv_rt sv) args")
  with assms(3) HRestrict have sv': "sv' = sv\<lparr>sv_rt := rt1,
      sv_runner := if is_scope_reply r1 then push_scope c rt1 (sv_runner sv) else sv_runner sv\<rparr>"
    by (auto simp: run_handler_def)
  show ?thesis
  proof (cases "is_scope_reply r1")
    case True
    with in_step_push [OF assms(1)] show ?thesis by (simp add: sv')
  next
    case False
    with restrict_store [OF r] have "rt_store rt1 = rt_store (sv_rt sv)" by blast
    with assms(2) False show ?thesis by (simp add: sv' in_step_def)
  qed
qed (use in_step_same [OF assms(2)] run_handler_keeps [OF assms(3)] in simp_all)

lemma serves_in_step:
  assumes "sc_kind c \<noteq> FsServer" "in_step c sv" "serves c sv sv'"
  shows "in_step c sv'"
  using assms(3)
proof (cases rule: serves.cases)
  case (tool_call w name args res)
  then show ?thesis
    using run_handler_in_step [OF assms(1,2)] assms(2) by (auto simp: call_tool_def split: option.splits)
next
  case (list_tools use_roots listed applied applied' r)
  then have "scope_paths r = scope_paths (sv_runner sv)" "scope_read_only r = scope_read_only (sv_runner sv)"
    by (auto simp: maybe_refine_def update_ceiling_def split: if_splits sum.splits option.splits)
  with assms(2) list_tools show ?thesis by (simp add: in_step_def)
next
  case (disk_change d)
  with assms(2) show ?thesis by (simp add: in_step_def)
qed

text \<open>
  One scope for both families. From the moment a shell or combined server is built, through any
  sequence of tool calls, listings and changes of the disk, the runner that builds the
  sandbox holds exactly the active scope of the store - after a restart the one the state file
  gave back - and the read-only flag of the command line.
\<close>

theorem runner_follows_scope:
  assumes "build_server h w ts_ok skind sid ceil ro persist d pol r = ok (c, sv0)" "skind \<noteq> FsServer"
    and "(serves c)\<^sup>*\<^sup>* sv0 sv"
  shows "scope_paths (sv_runner sv) = (if paths (scope (rt_store (sv_rt sv))) = [] then None
      else Some (paths (scope (rt_store (sv_rt sv))))) \<and>
    scope_read_only (sv_runner sv) = ro"
proof -
  from assms(1,2) have c: "sc_kind c \<noteq> FsServer" "sc_read_only c = ro" "in_step c sv0"
    by (auto simp: build_server_def Let_def in_step_def push_scope_def set_active_scope_def)
  from assms(3) have "in_step c sv"
    by (induction rule: rtranclp_induct) (use c serves_in_step in blast)+
  with c show ?thesis by (simp add: in_step_def Let_def)
qed

section \<open>Concrete servers\<close>

definition demo_world :: world where
  "demo_world = \<lparr>w_mac = (\<lambda>_. ''m''), w_now = ''2026'', w_client = None, w_slirp = True, w_fd = 5, w_scope_name = ''s'',
     w_os = (\<lambda>_. raise_err (OSError ''spawn''))\<rparr>"

definition demo_server :: "server_kind \<Rightarrow> bool \<Rightarrow> (server_cfg \<times> server) result" where
  "demo_server k ro = build_server state_host demo_world (\<lambda>_. True) k (Some ''src'') [''work''] ro False
     \<lparr>main_file = None, wal_file = None\<rparr> None default_runner"

lemma demo_server_ok: "\<exists>c sv. demo_server k ro = ok (c, sv) \<and> sc_read_only c = ro"
proof -
  have "resolve_deny_lists state_host (rpath_path [''work'']) = ok \<lparr>exclude = [], protect = []\<rparr>" by code_simp
  then show ?thesis
    by (simp add: demo_server_def build_server_def store_init_def load_or_default_def Let_def)
qed

theorem read_only_server_disk_witness:
  "\<exists>c sv. demo_server CombinedServer True = ok (c, sv) \<and>
     (if ''src_write_file'' = prefixed ''restrict_paths'' (sc_scope_id c) then True
      else rt_host (sv_rt (snd (call_tool c demo_world ''src_write_file'' [(''path'', JStr ''f''), (''content'', JStr ''x'')] sv))) = rt_host (sv_rt sv))"
proof -
  obtain c sv where s: "demo_server CombinedServer True = ok (c, sv)" "sc_read_only c" using demo_server_ok [of CombinedServer True] by auto
  have "call_tool c demo_world ''src_write_file'' [(''path'', JStr ''f''), (''content'', JStr ''x'')] sv =
      (fst (call_tool c demo_world ''src_write_file'' [(''path'', JStr ''f''), (''content'', JStr ''x'')] sv),
       snd (call_tool c demo_world ''src_write_file'' [(''path'', JStr ''f''), (''content'', JStr ''x'')] sv))" by simp
  from read_only_server_disk [OF s(2) this] s(1) show ?thesis
    by (intro exI [of _ c] exI [of _ sv]) (simp del: split_paired_Ex split: if_splits)
qed

theorem runner_follows_scope_witness:
  "\<exists>c sv. demo_server ShellServer True = ok (c, sv) \<and> scope_read_only (sv_runner sv)"
proof -
  obtain c sv where s: "demo_server ShellServer True = ok (c, sv)" using demo_server_ok [of ShellServer True] by blast
  from runner_follows_scope [OF s [unfolded demo_server_def], of sv] s show ?thesis by auto
qed

text \<open>
  Read-only is not observe-only. A read-only fs server, asked to narrow its scope to a path that
  does not exist, creates that directory in the ceiling.
\<close>

theorem read_only_server_creates_directories:
  "case demo_server FsServer True of Inl e \<Rightarrow> False
   | Inr (c, sv) \<Rightarrow>
       (case call_tool c demo_world ''src_restrict_paths'' [(''paths'', JList [JStr ''new/dir''])] sv of
          (res, sv') \<Rightarrow> is_ok res \<and> node_at (disk (rt_host (sv_rt sv))) [''work'', ''new''] = None \<and>
            node_at (disk (rt_host (sv_rt sv'))) [''work'', ''new'', ''dir''] = Some DirN)"
  by code_simp

end
