(* ===== verification/Cluster_Base.thy ===== *)
theory Cluster_Base
  imports Path_Safety Fs_Tree Fnmatch Shlex
begin

text \<open>
  \<open>hares/cluster/base.py\<close>: the part of a cluster executor every scheduler shares. The job table
  with its retention cap, submission, collection of what the jobs wrote, waiting and
  cancelling. A backend is a record of its hooks; the scheduler's commands and the files the
  nodes wrote are what the outside reports, response by response.
\<close>

section \<open>Jobs\<close>

datatype status = PEND | RUN | DONE | EXIT | UNKWN | CANCELED

definition is_terminal :: "status \<Rightarrow> bool" where
  "is_terminal s \<longleftrightarrow> s \<in> {DONE, EXIT}"

record job_spec =
  js_command :: string
  js_resource_spec :: "string option"
  js_name :: "string option"
  js_cwd :: "string option"
  js_env :: "(string \<times> string) list"
  js_array :: "string option"

datatype job_note = KilledByMemory | NoExitFile | NoOutput

record task_result =
  tk_status :: status
  tk_exit :: int
  tk_stdout :: string
  tk_stderr :: string

datatype job_result =
    JobResult status int string string "job_note option"
  | ArrayEmpty status
  | ArrayResult status int "(string \<times> task_result) list" "nat \<times> nat \<times> nat"

record job_record =
  jb_id :: string
  jb_name :: string
  jb_command :: string
  jb_submitted_at :: string
  jb_stdout :: string
  jb_stderr :: string
  jb_exit :: string
  jb_status :: status
  jb_result :: "job_result option"
  jb_array :: "string option"

record cluster =
  jobs :: "(string \<times> job_record) list"
  evicted :: "string set"

definition cluster_init :: cluster where
  "cluster_init = \<lparr>jobs = [], evicted = {}\<rparr>"

text \<open>A scheduler command's answer: return code, stdout, stderr. The files of the shared file
  system, as the server reads them.\<close>

type_synonym response = "int \<times> string \<times> string"
type_synonym node_files = "(string \<times> string) list"

record backend =
  bk_name :: string
  bk_placeholder :: "string option"
  bk_submit_argv :: "job_spec \<Rightarrow> string \<Rightarrow> string \<Rightarrow> string \<Rightarrow> string \<Rightarrow> string list result"
  bk_parse_submit :: "string \<Rightarrow> string option"
  bk_status_argv :: "string \<Rightarrow> string list"
  bk_parse_status :: "job_record option \<Rightarrow> node_files \<Rightarrow> response \<Rightarrow> status"
  bk_cancel_argv :: "string \<Rightarrow> string list"

definition read_file_safe :: "node_files \<Rightarrow> string \<Rightarrow> string" where
  "read_file_safe fs p = (case map_of fs p of None \<Rightarrow> [] | Some t \<Rightarrow> universal_newlines t)"

section \<open>The command a node runs\<close>

definition shell_quote :: "string \<Rightarrow> string" where
  "shell_quote s = [squote] @ concat (map (\<lambda>c. if c = squote then [squote, bslash, squote, squote] else [c]) s) @ [squote]"

definition env_prefix :: "(string \<times> string) list \<Rightarrow> string" where
  "env_prefix kvs = (if kvs = [] then []
     else join_str ''; '' (map (\<lambda>(k, v). ''export '' @ k @ ''='' @ shell_quote v) kvs) @ ''; '')"

definition inner_shell :: "(string \<Rightarrow> string) \<Rightarrow> job_spec \<Rightarrow> string \<Rightarrow> string \<Rightarrow> string \<Rightarrow> string" where
  "inner_shell quote spec out err ext =
     env_prefix (js_env spec) @ js_command spec @ '' >'' @ quote out @ '' 2>'' @ quote err @
     ''; echo $? >'' @ quote ext"

definition build_inner_shell :: "job_spec \<Rightarrow> string \<Rightarrow> string \<Rightarrow> string \<Rightarrow> string" where
  "build_inner_shell = inner_shell shell_quote"

text \<open>A path with the array placeholder: the part around it quoted, the task variable not.\<close>

definition per_task :: "string \<Rightarrow> string \<Rightarrow> string \<Rightarrow> string" where
  "per_task ph var p = (case partition_str ph p of
      None \<Rightarrow> shell_quote p
    | Some (pre, post) \<Rightarrow> shell_quote pre @ [dquote] @ ''${'' @ var @ ''}'' @ [dquote] @
        (if post \<noteq> [] then shell_quote post else []))"

section \<open>Collecting a result\<close>

definition output_paths :: "string \<Rightarrow> string \<Rightarrow> string \<times> string \<times> string" where
  "output_paths output_dir uid =
     (let base = output_dir @ ''/'' @ uid in (base @ ''.out'', base @ ''.err'', base @ ''.exit''))"

text \<open>The exit code a file holds, after \<open>strip\<close>; \<open>None\<close> is the caught \<open>ValueError\<close>.\<close>

definition exit_of :: "node_files \<Rightarrow> string \<Rightarrow> int option" where
  "exit_of fs p = py_int (strip_str (read_file_safe fs p))"

definition scheduler_note :: "status \<Rightarrow> int \<Rightarrow> string \<Rightarrow> string \<Rightarrow> string \<Rightarrow> job_note option" where
  "scheduler_note st code raw out err =
     (if st \<noteq> EXIT then None
      else if code = 137 then Some KilledByMemory
      else if raw = [] then Some NoExitFile
      else if out = [] \<and> err = [] then Some NoOutput
      else None)"

definition collect_single :: "node_files \<Rightarrow> job_record \<Rightarrow> status \<Rightarrow> job_result" where
  "collect_single fs r st =
     (let out = read_file_safe fs (jb_stdout r);
          err = read_file_safe fs (jb_stderr r);
          raw = strip_str (read_file_safe fs (jb_exit r));
          code = (case py_int raw of Some n \<Rightarrow> n | None \<Rightarrow> if st = EXIT then -1 else 0)
      in JobResult st code out err (scheduler_note st code raw out err))"

definition dir_name :: "string \<Rightarrow> string \<times> string" where
  "dir_name p = (let cs = split_on (CHR ''/'') p in (join_str ''/'' (butlast cs), last cs))"

definition glob_files :: "node_files \<Rightarrow> string \<Rightarrow> string list" where
  "glob_files fs pat =
     (let (d, name) = dir_name pat in
      sort (remdups (filter (\<lambda>f. fst (dir_name f) = d \<and> fnmatch (snd (dir_name f)) name) (map fst fs))))"

definition stem :: "string \<Rightarrow> string" where
  "stem n = (let d = dropWhile (\<lambda>c. c \<noteq> CHR ''.'') (rev n) in
     if d = [] \<or> tl d = [] then n else rev (tl d))"

definition task_id_of :: "string option \<Rightarrow> string \<Rightarrow> string \<Rightarrow> string" where
  "task_id_of ph pattern actual =
     (let pat_name = snd (dir_name pattern); n = snd (dir_name actual) in
      case Option.bind ph (\<lambda>t. partition_str t pat_name) of
        None \<Rightarrow> stem n
      | Some (pre, post) \<Rightarrow>
          if prefix pre n \<and> suffix post n
          then drop (length pre) (take (length n - length post) n)
          else stem n)"

definition collect_task :: "node_files \<Rightarrow> string option \<Rightarrow> job_record \<Rightarrow> string \<Rightarrow> string \<times> task_result" where
  "collect_task fs ph r ef =
     (let tid = task_id_of ph (jb_exit r) ef;
          token = (case ph of Some t \<Rightarrow> t | None \<Rightarrow> ''%a'');
          st = (case exit_of fs ef of None \<Rightarrow> UNKWN | Some n \<Rightarrow> if n = 0 then DONE else EXIT);
          code = (case exit_of fs ef of None \<Rightarrow> -1 | Some n \<Rightarrow> n)
      in (tid, \<lparr>tk_status = st, tk_exit = code,
                tk_stdout = read_file_safe fs (replace_all token tid (jb_stdout r)),
                tk_stderr = read_file_safe fs (replace_all token tid (jb_stderr r))\<rparr>))"

definition count_status :: "status \<Rightarrow> (string \<times> task_result) list \<Rightarrow> nat" where
  "count_status st ts = length (filter (\<lambda>(_, t). tk_status t = st) ts)"

text \<open>The tasks are a dictionary: a later file of the same task id replaces the earlier one,
  the counters count files.\<close>

definition collect_array :: "node_files \<Rightarrow> string option \<Rightarrow> job_record \<Rightarrow> status \<Rightarrow> job_result" where
  "collect_array fs ph r st =
     (let token = (case ph of Some t \<Rightarrow> t | None \<Rightarrow> ''%a'');
          files = glob_files fs (replace_all token ''*'' (jb_exit r));
          ts = map (collect_task fs ph r) files;
          ok_all = (count_status EXIT ts = 0 \<and> count_status UNKWN ts = 0)
      in if files = [] then ArrayEmpty st
         else ArrayResult (if ok_all then DONE else EXIT) (if ok_all then 0 else 1)
                (AList.updates (map fst ts) (map snd ts) [])
                (count_status DONE ts, count_status EXIT ts, count_status UNKWN ts))"

definition collect_result :: "node_files \<Rightarrow> string option \<Rightarrow> job_record \<Rightarrow> status \<Rightarrow> job_result" where
  "collect_result fs ph r st =
     (if jb_array r \<noteq> None then collect_array fs ph r st else collect_single fs r st)"

text \<open>For a backend whose scheduler has forgotten the job.\<close>

definition exitcode_file_terminal_status :: "node_files \<Rightarrow> string \<Rightarrow> status" where
  "exitcode_file_terminal_status fs p =
     (case exit_of fs p of None \<Rightarrow> UNKWN | Some n \<Rightarrow> if n = 0 then DONE else EXIT)"

section \<open>Retention\<close>

definition MAX_RETAINED_JOBS :: nat where
  "MAX_RETAINED_JOBS = 1000"

definition evictable :: "job_record \<Rightarrow> bool" where
  "evictable r \<longleftrightarrow> is_terminal (jb_status r) \<or> jb_status r = CANCELED"

definition maybe_evict_terminal :: "nat \<Rightarrow> cluster \<Rightarrow> cluster" where
  "maybe_evict_terminal cap st =
     (if cap = 0 \<or> length (jobs st) \<le> cap then st
      else let gone = take (length (jobs st) - cap) (map fst (filter (\<lambda>(_, r). evictable r) (jobs st)))
           in \<lparr>jobs = filter (\<lambda>(i, _). i \<notin> set gone) (jobs st), evicted = evicted st \<union> set gone\<rparr>)"

section \<open>Submitting\<close>

definition validate_cwd :: "host \<Rightarrow> rpath option \<Rightarrow> string option \<Rightarrow> unit result" where
  "validate_cwd h ceiling d = (case (d, ceiling) of
      (Some c, Some cl) \<Rightarrow>
        rbind (from_option (RuntimeError c) (resolve_on h (path_of c))) (\<lambda>resolved.
        if is_subpath h (rpath_path resolved) (rpath_path cl) then ok () else raise_err (ValueError c))
    | _ \<Rightarrow> ok ())"

datatype refusal = EmptyCommand | CwdOutside | NoArrays | SubmitFailed | NoJobId

datatype submit_entry = Accepted string string string "string option" | Refused refusal "string option"

text \<open>What the answer of the submit command makes of a spec: the entry and the record.\<close>

definition record_submission ::
  "backend \<Rightarrow> job_spec \<Rightarrow> string \<Rightarrow> string \<Rightarrow> string \<times> string \<times> string \<Rightarrow> response \<Rightarrow> cluster
   \<Rightarrow> submit_entry \<times> cluster" where
  "record_submission b spec job_name now paths resp st =
     (let (rc, stdout, stderr) = resp; (out, err, ext) = paths in
      if rc \<noteq> 0 then (Refused SubmitFailed (Some job_name), st)
      else case bk_parse_submit b stdout of
        None \<Rightarrow> (Refused NoJobId (Some job_name), st)
      | Some jid \<Rightarrow>
          if jid = [] then (Refused NoJobId (Some job_name), st)
          else (Accepted jid job_name now (js_array spec),
            st\<lparr>jobs := AList.update jid
              \<lparr>jb_id = jid, jb_name = job_name, jb_command = js_command spec, jb_submitted_at = now,
               jb_stdout = out, jb_stderr = err, jb_exit = ext,
               jb_status = PEND, jb_result = None, jb_array = js_array spec\<rparr> (jobs st)\<rparr>))"

definition job_name_of :: "job_spec \<Rightarrow> string \<Rightarrow> string" where
  "job_name_of spec uid = strip_str (case js_name spec of
      Some n \<Rightarrow> if n = [] then ''hares-'' @ uid else n | None \<Rightarrow> ''hares-'' @ uid)"

text \<open>The output files of a spec; those of an array carry the task placeholder.\<close>

definition job_paths :: "backend \<Rightarrow> string \<Rightarrow> job_spec \<Rightarrow> string \<Rightarrow> string \<times> string \<times> string" where
  "job_paths b output_dir spec uid =
     (let (out, err, ext) = output_paths output_dir uid;
          sfx = (case (js_array spec, bk_placeholder b) of (Some _, Some ph) \<Rightarrow> ''.'' @ ph | _ \<Rightarrow> [])
      in (out @ sfx, err @ sfx, ext @ sfx))"

text \<open>One spec of a \<open>submit\<close>: the fresh uid, the time, and how the scheduler answers the argument
  vector it is run with. A \<open>ValueError\<close> of the argument builder leaves \<open>submit\<close>.\<close>

definition submit_one ::
  "backend \<Rightarrow> host \<Rightarrow> rpath option \<Rightarrow> string \<Rightarrow> job_spec \<Rightarrow> string \<Rightarrow> string \<Rightarrow> (string list \<Rightarrow> response)
   \<Rightarrow> cluster \<Rightarrow> (submit_entry \<times> cluster) result" where
  "submit_one b h ceiling output_dir spec uid now answer st =
     (if js_command spec = [] then ok (Refused EmptyCommand None, st)
      else case validate_cwd h ceiling (js_cwd spec) of
        Inl (ValueError _) \<Rightarrow> ok (Refused CwdOutside None, st)
      | Inl e \<Rightarrow> Inl e
      | Inr _ \<Rightarrow>
          if js_array spec \<noteq> None \<and> bk_placeholder b = None then ok (Refused NoArrays None, st)
          else
            let paths = job_paths b output_dir spec uid; job_name = job_name_of spec uid in
            rbind (case paths of (out, err, ext) \<Rightarrow> bk_submit_argv b spec out err ext job_name) (\<lambda>argv.
            ok (record_submission b spec job_name now paths (answer argv) st)))"

text \<open>\<open>submit\<close> over the list; the state the jobs registered so far are kept in when a later spec
  raises is the second component.\<close>

fun submit ::
  "backend \<Rightarrow> host \<Rightarrow> rpath option \<Rightarrow> string \<Rightarrow> (job_spec \<times> string \<times> string \<times> (string list \<Rightarrow> response)) list
   \<Rightarrow> cluster \<Rightarrow> submit_entry list result \<times> cluster" where
  "submit b h ceiling output_dir [] st = (ok [], st)"
| "submit b h ceiling output_dir ((spec, uid, now, answer) # rest) st =
     (case submit_one b h ceiling output_dir spec uid now answer st of
        Inl e \<Rightarrow> (Inl e, st)
      | Inr (entry, st1) \<Rightarrow>
          (case submit b h ceiling output_dir rest st1 of
             (Inl e, st2) \<Rightarrow> (Inl e, st2)
           | (Inr entries, st2) \<Rightarrow> (ok (entry # entries), st2)))"

section \<open>Waiting and cancelling\<close>

definition set_status :: "string \<Rightarrow> status \<Rightarrow> cluster \<Rightarrow> cluster" where
  "set_status i s st = (case map_of (jobs st) i of None \<Rightarrow> st
     | Some r \<Rightarrow> st\<lparr>jobs := AList.update i (r\<lparr>jb_status := s\<rparr>) (jobs st)\<rparr>)"

definition set_result :: "string \<Rightarrow> job_result \<Rightarrow> cluster \<Rightarrow> cluster" where
  "set_result i res st = (case map_of (jobs st) i of None \<Rightarrow> st
     | Some r \<Rightarrow> st\<lparr>jobs := AList.update i (r\<lparr>jb_result := Some res\<rparr>) (jobs st)\<rparr>)"

datatype wait_entry = Finished job_result | WEvicted | WUnknown | WTimeout

text \<open>One polling round as the outside plays it: what other tasks did to the table since the last
  one, each poll's answer (\<open>None\<close> when the query raised), the files.\<close>

datatype other =
    OtherSubmitted string job_record
  | OtherCanceled string
  | OtherSaw string status
  | OtherCollected string job_result
  | OtherEvicted

record poll_round =
  pr_others :: "other list"
  pr_answer :: "string \<Rightarrow> response option"
  pr_files :: node_files

fun apply_other :: "nat \<Rightarrow> cluster \<Rightarrow> other \<Rightarrow> cluster" where
  "apply_other cap st (OtherSubmitted i r) = st\<lparr>jobs := AList.update i r (jobs st)\<rparr>"
| "apply_other cap st (OtherCanceled i) = set_status i CANCELED st"
| "apply_other cap st (OtherSaw i s) = set_status i s st"
| "apply_other cap st (OtherCollected i res) = set_result i res st"
| "apply_other cap st OtherEvicted = maybe_evict_terminal cap st"

text \<open>The processing of one polled job: the table, whether the job stays pending, its entry.\<close>

definition process_job ::
  "backend \<Rightarrow> node_files \<Rightarrow> string \<Rightarrow> response option \<Rightarrow> cluster \<Rightarrow> cluster \<times> bool \<times> wait_entry option" where
  "process_job b fs i answer st = (case answer of
      None \<Rightarrow> (st, True, None)
    | Some resp \<Rightarrow>
        (let s = bk_parse_status b (map_of (jobs st) i) fs resp;
             st1 = set_status i s st
         in if \<not> is_terminal s then (st1, True, None)
            else (case map_of (jobs st1) i of
                None \<Rightarrow> (st1, False, None)
              | Some r \<Rightarrow> let res = collect_result fs (bk_placeholder b) r s
                         in (set_result i res st1, False, Some (Finished res)))))"

fun poll_pending ::
  "backend \<Rightarrow> poll_round \<Rightarrow> string list \<Rightarrow> cluster \<Rightarrow> cluster \<times> string list \<times> (string \<times> wait_entry) list" where
  "poll_pending b rd [] st = (st, [], [])"
| "poll_pending b rd (i # rest) st =
     (let (st1, stays, e) = process_job b (pr_files rd) i (pr_answer rd i) st;
          (st2, left, es) = poll_pending b rd rest st1
      in (st2, if stays then i # left else left, case e of None \<Rightarrow> es | Some w \<Rightarrow> (i, w) # es))"

text \<open>The loop: a round per poll before the deadline; when the list is exhausted the time is up.\<close>

fun wait_rounds ::
  "nat \<Rightarrow> backend \<Rightarrow> poll_round list \<Rightarrow> string list \<Rightarrow> cluster \<Rightarrow> (string \<times> wait_entry) list \<times> cluster" where
  "wait_rounds cap b rds [] st = ([], st)"
| "wait_rounds cap b [] pending st = (map (\<lambda>i. (i, WTimeout)) pending, st)"
| "wait_rounds cap b (rd # rds) pending st =
     (let st0 = foldl (apply_other cap) st (pr_others rd);
          (st1, left, es) = poll_pending b rd pending st0;
          (more, st2) = wait_rounds cap b rds left st1
      in (es @ more, st2))"

text \<open>The jobs of the call that are answered at once, and those to wait for.\<close>

definition known_entry :: "cluster \<Rightarrow> string \<Rightarrow> wait_entry option" where
  "known_entry st i = (case map_of (jobs st) i of
      None \<Rightarrow> Some (if i \<in> evicted st then WEvicted else WUnknown)
    | Some r \<Rightarrow> map_option Finished (jb_result r))"

definition wait ::
  "nat \<Rightarrow> backend \<Rightarrow> poll_round list \<Rightarrow> string list \<Rightarrow> cluster \<Rightarrow> (string \<times> wait_entry) list \<times> cluster" where
  "wait cap b rds job_ids st =
     (let ids = remdups job_ids;
          at_once = concat (map (\<lambda>i. case known_entry st i of Some e \<Rightarrow> [(i, e)] | None \<Rightarrow> []) ids);
          pending = filter (\<lambda>i. known_entry st i = None) ids;
          (es, st1) = wait_rounds cap b rds pending st
      in (at_once @ es, maybe_evict_terminal cap st1))"

fun cancel_all :: "(string \<times> response) list \<Rightarrow> cluster \<Rightarrow> (string \<times> bool) list \<times> cluster" where
  "cancel_all [] st = ([], st)"
| "cancel_all ((i, rc, out, err) # rest) st =
     (let (es, st1) = cancel_all rest (set_status i CANCELED st) in ((i, rc = 0) # es, st1))"

definition cancel :: "nat \<Rightarrow> (string \<times> response) list \<Rightarrow> cluster \<Rightarrow> (string \<times> bool) list \<times> cluster" where
  "cancel cap answers st = (let (es, st1) = cancel_all answers st in (es, maybe_evict_terminal cap st1))"

datatype blocking_reply = BlockingError | BlockingEntry wait_entry

definition execute_blocking ::
  "nat \<Rightarrow> backend \<Rightarrow> host \<Rightarrow> rpath option \<Rightarrow> string \<Rightarrow> job_spec \<Rightarrow> string \<Rightarrow> string \<Rightarrow> (string list \<Rightarrow> response)
   \<Rightarrow> poll_round list \<Rightarrow> cluster \<Rightarrow> blocking_reply result \<times> cluster" where
  "execute_blocking cap b h ceiling output_dir spec uid now answer rds st =
     (case submit b h ceiling output_dir [(spec, uid, now, answer)] st of
        (Inr [Accepted i nm t a], st1) \<Rightarrow>
          (let (es, st2) = wait cap b rds [i] st1 in
           case map_of es i of Some e \<Rightarrow> (ok (BlockingEntry e), st2) | None \<Rightarrow> (raise_err (KeyError i), st2))
      | (Inr _, st1) \<Rightarrow> (ok BlockingError, st1)
      | (Inl e, st1) \<Rightarrow> (Inl e, st1))"

section \<open>The job table\<close>

definition job_ids :: "cluster \<Rightarrow> string set" where
  "job_ids st = fst ` set (jobs st)"

definition table_ok :: "cluster \<Rightarrow> bool" where
  "table_ok st \<longleftrightarrow> distinct (map fst (jobs st))"

lemma map_of_jobs: "map_of (jobs st) i = None \<longleftrightarrow> i \<notin> job_ids st"
  by (simp add: job_ids_def map_of_eq_None_iff)

lemma set_status_ids [simp]: "job_ids (set_status i s st) = job_ids st"
  using map_of_jobs [of st i]
  by (cases "map_of (jobs st) i") (auto simp: set_status_def job_ids_def dom_update)

lemma set_result_ids [simp]: "job_ids (set_result i r st) = job_ids st"
  using map_of_jobs [of st i]
  by (cases "map_of (jobs st) i") (auto simp: set_result_def job_ids_def dom_update)

lemma set_table_ok [inv_facts]:
  "table_ok st \<Longrightarrow> table_ok (set_status i s st)" "table_ok st \<Longrightarrow> table_ok (set_result i r st)"
  by (auto simp: table_ok_def set_status_def set_result_def distinct_update split: option.splits)

lemma evict_table_ok [inv_facts]: "table_ok st \<Longrightarrow> table_ok (maybe_evict_terminal cap st)"
  by (simp add: table_ok_def maybe_evict_terminal_def Let_def distinct_map_filter)

text \<open>Filtering out the first of some keys.\<close>

lemma filter_take_keys:
  fixes P :: "'k \<times> 'v \<Rightarrow> bool" and n :: nat
  assumes "distinct (map fst xs)" and gone: "gone = take n (map fst (filter P xs))"
  shows "filter P (filter (\<lambda>x. fst x \<notin> set gone) xs) = drop n (filter P xs)"
    "filter (\<lambda>x. \<not> P x) (filter (\<lambda>x. fst x \<notin> set gone) xs) = filter (\<lambda>x. \<not> P x) xs"
proof -
  let ?ys = "filter P xs"
  have d: "distinct (map fst ?ys)" using assms(1) by (rule distinct_map_filter)
  have "filter P (filter (\<lambda>x. fst x \<notin> set gone) xs) = filter (\<lambda>x. fst x \<notin> set gone) ?ys"
    by (simp add: conj_commute)
  also have "\<dots> = filter (\<lambda>x. fst x \<notin> set gone) (take n ?ys @ drop n ?ys)" by simp
  also have "\<dots> = drop n ?ys"
  proof -
    have "x \<in> set (take n ?ys) \<Longrightarrow> fst x \<in> set gone" for x by (auto simp: gone take_map)
    then have 1: "filter (\<lambda>x. fst x \<notin> set gone) (take n ?ys) = []" by (auto simp: filter_empty_conv)
    have "set (take n (map fst ?ys)) \<inter> set (drop n (map fst ?ys)) = {}"
      using d by (simp add: set_take_disj_set_drop_if_distinct)
    then have "x \<in> set (drop n ?ys) \<Longrightarrow> fst x \<notin> set gone" for x
      by (auto simp: gone drop_map disjoint_iff image_iff)
    then have 2: "filter (\<lambda>x. fst x \<notin> set gone) (drop n ?ys) = drop n ?ys" by (simp add: filter_id_conv)
    from 1 2 show ?thesis by (simp only: filter_append append_Nil)
  qed
  finally show "filter P (filter (\<lambda>x. fst x \<notin> set gone) xs) = drop n ?ys" .
  have "fst x \<notin> set gone" if "x \<in> set xs" "\<not> P x" for x
  proof
    assume "fst x \<in> set gone"
    then obtain y where "y \<in> set ?ys" "fst y = fst x" by (auto simp: gone dest!: in_set_takeD)
    with assms(1) that have "y = x" by (metis eq_key_imp_eq_value filter_is_subset prod.collapse subsetD)
    with \<open>y \<in> set ?ys\<close> that show False by simp
  qed
  then show "filter (\<lambda>x. \<not> P x) (filter (\<lambda>x. fst x \<notin> set gone) xs) = filter (\<lambda>x. \<not> P x) xs"
    by (auto intro: filter_cong)
qed

text \<open>
  C12: retention. Eviction removes only finished or cancelled jobs, the oldest first, and just
  as many as the cap asks for or there are; a pending or running job is never dropped, the
  order stays, and every job that was known is still known or remembered as evicted.
\<close>

theorem eviction_spares_live_jobs:
  assumes "table_ok st"
  shows "let st' = maybe_evict_terminal cap st;
             k = (if cap = 0 then 0 else length (jobs st) - cap) in
    filter (\<lambda>(_, r). \<not> evictable r) (jobs st') = filter (\<lambda>(_, r). \<not> evictable r) (jobs st) \<and>
    filter (\<lambda>(_, r). evictable r) (jobs st') = drop k (filter (\<lambda>(_, r). evictable r) (jobs st)) \<and>
    subseq (jobs st') (jobs st) \<and>
    job_ids st' \<union> evicted st' = job_ids st \<union> evicted st"
proof (cases "cap = 0 \<or> length (jobs st) \<le> cap")
  case True
  then have "maybe_evict_terminal cap st = st" by (auto simp: maybe_evict_terminal_def)
  moreover have "(if cap = 0 then 0 else length (jobs st) - cap) = 0" using True by auto
  ultimately show ?thesis by (simp only: Let_def drop_0) simp
next
  case False
  let ?gone = "take (length (jobs st) - cap) (map fst (filter (\<lambda>(_, r). evictable r) (jobs st)))"
  have st': "maybe_evict_terminal cap st =
      \<lparr>jobs = filter (\<lambda>x. fst x \<notin> set ?gone) (jobs st), evicted = evicted st \<union> set ?gone\<rparr>"
    using False by (simp add: maybe_evict_terminal_def Let_def case_prod_beta')
  note keys = filter_take_keys [OF assms [unfolded table_ok_def] refl, of "\<lambda>(_, r). evictable r" "length (jobs st) - cap"]
  have "set ?gone \<subseteq> job_ids st" by (auto simp: job_ids_def dest!: in_set_takeD)
  then have "job_ids (maybe_evict_terminal cap st) \<union> evicted (maybe_evict_terminal cap st) = job_ids st \<union> evicted st"
    unfolding st' by (auto simp: job_ids_def)
  moreover have "subseq (jobs (maybe_evict_terminal cap st)) (jobs st)"
    unfolding st' by (simp add: subseq_filter_left)
  ultimately show ?thesis
    using keys False unfolding Let_def st' by (simp add: case_prod_beta')
qed

theorem eviction_spares_live_jobs_witness:
  "let r = \<lparr>jb_id = ''7'', jb_name = ''n'', jb_command = ''c'', jb_submitted_at = ''t'', jb_stdout = ''o'', jb_stderr = ''e'',
        jb_exit = ''x'', jb_status = DONE, jb_result = None, jb_array = None\<rparr>;
       st = \<lparr>jobs = [(''7'', r), (''8'', r\<lparr>jb_status := PEND\<rparr>)], evicted = {}\<rparr> in
   filter (\<lambda>(_, r). \<not> evictable r) (jobs (maybe_evict_terminal 1 st)) = filter (\<lambda>(_, r). \<not> evictable r) (jobs st)"
proof -
  let ?r = "\<lparr>jb_id = ''7'', jb_name = ''n'', jb_command = ''c'', jb_submitted_at = ''t'', jb_stdout = ''o'', jb_stderr = ''e'',
        jb_exit = ''x'', jb_status = DONE, jb_result = None, jb_array = None\<rparr>"
  have "table_ok \<lparr>jobs = [(''7'', ?r), (''8'', ?r\<lparr>jb_status := PEND\<rparr>)], evicted = {}\<rparr>" by (simp add: table_ok_def)
  from eviction_spares_live_jobs [OF this, of 1] show ?thesis by (simp only: Let_def)
qed

section \<open>What submit records\<close>

definition accepted_ids :: "submit_entry list \<Rightarrow> string list" where
  "accepted_ids es = concat (map (\<lambda>e. case e of Accepted i _ _ _ \<Rightarrow> [i] | _ \<Rightarrow> []) es)"

lemma accepted_ids_simps [simp]:
  "accepted_ids [] = []"
  "accepted_ids (Accepted i n t a # es) = i # accepted_ids es"
  "accepted_ids (Refused w m # es) = accepted_ids es"
  by (simp_all add: accepted_ids_def)

lemma job_ids_update [simp]: "job_ids (st\<lparr>jobs := AList.update i r (jobs st)\<rparr>) = insert i (job_ids st)"
  by (simp add: job_ids_def dom_update)

definition entry_ok :: "host \<Rightarrow> rpath option \<Rightarrow> job_spec \<Rightarrow> submit_entry \<Rightarrow> bool" where
  "entry_ok h ceiling spec e = (case e of
      Accepted i n t a \<Rightarrow> i \<noteq> [] \<and> js_command spec \<noteq> [] \<and> validate_cwd h ceiling (js_cwd spec) = ok ()
    | Refused w n \<Rightarrow> True)"

lemma record_submission_ids:
  "record_submission b spec nm now paths resp st = (e, st1) \<Longrightarrow>
    job_ids st1 = job_ids st \<union> set (accepted_ids [e]) \<and> (case e of Accepted i n t a \<Rightarrow> i \<noteq> [] | Refused w n \<Rightarrow> True)"
  by (auto simp: record_submission_def split: prod.splits if_splits option.splits)

lemma submit_one_entry:
  assumes "submit_one b h ceiling output_dir spec uid now answer st = ok (e, st1)"
  shows "entry_ok h ceiling spec e \<and> job_ids st1 = job_ids st \<union> set (accepted_ids [e])"
proof (cases "js_command spec = []")
  case True
  with assms show ?thesis by (auto simp: submit_one_def entry_ok_def)
next
  case False
  show ?thesis
  proof (cases "validate_cwd h ceiling (js_cwd spec)")
    case (Inl err)
    with assms False show ?thesis by (cases err) (auto simp: submit_one_def entry_ok_def)
  next
    case (Inr u)
    with assms False have "(e = Refused NoArrays None \<and> st1 = st) \<or>
        (\<exists>resp. record_submission b spec (job_name_of spec uid) now (job_paths b output_dir spec uid) resp st = (e, st1))"
      by (auto simp: submit_one_def Let_def simp del: split_paired_Ex split: if_splits)
    then show ?thesis
    proof (elim disjE exE)
      fix resp
      assume "record_submission b spec (job_name_of spec uid) now (job_paths b output_dir spec uid) resp st = (e, st1)"
      from record_submission_ids [OF this] False Inr show ?thesis by (cases e) (auto simp: entry_ok_def)
    qed (simp add: entry_ok_def)
  qed
qed

text \<open>
  \<open>submit\<close> keeps its books. When it returns, it has one entry per spec in their order; an
  accepted entry has a non-empty job id, a command, and a working directory that passed the
  ceiling check; the table gained exactly the accepted ids. When it raises, no job that was
  in the table has left it.
\<close>

theorem submit_records_accepted:
  "case submit b h ceiling output_dir reqs st of
      (Inr es, st') \<Rightarrow> list_all2 (\<lambda>(spec, uid, now, answer) e. entry_ok h ceiling spec e) reqs es \<and>
        job_ids st' = job_ids st \<union> set (accepted_ids es)
    | (Inl e, st') \<Rightarrow> job_ids st \<subseteq> job_ids st'"
proof (induction b h ceiling output_dir reqs st rule: submit.induct)
  case (1 b h ceiling output_dir st)
  then show ?case by simp
next
  case (2 b h ceiling output_dir spec uid now answer rest st)
  show ?case
  proof (cases "submit_one b h ceiling output_dir spec uid now answer st")
    case (Inr x)
    then obtain e st1 where o: "submit_one b h ceiling output_dir spec uid now answer st = ok (e, st1)"
      by (cases x) simp
    have acc: "set (accepted_ids (e # es)) = set (accepted_ids [e]) \<union> set (accepted_ids es)" for es
      by (cases e) simp_all
    obtain res st2 where r: "submit b h ceiling output_dir rest st1 = (res, st2)"
      by (cases "submit b h ceiling output_dir rest st1")
    note IH = 2 [OF o refl, unfolded r prod.case] and one = submit_one_entry [OF o]
    show ?thesis
    proof (cases res)
      case (Inl err)
      have "job_ids st1 \<subseteq> job_ids st2" using IH unfolding Inl sum.case .
      with one have "job_ids st \<subseteq> job_ids st2" by blast
      then show ?thesis unfolding submit.simps o r Inl sum.case prod.case .
    next
      case (Inr es)
      have l: "list_all2 (\<lambda>(spec, uid, now, answer) e. entry_ok h ceiling spec e) rest es"
        and i: "job_ids st2 = job_ids st1 \<union> set (accepted_ids es)"
        using IH unfolding Inr sum.case by blast+
      have "job_ids st2 = job_ids st \<union> set (accepted_ids (e # es))" using i one acc by blast
      with l one show ?thesis unfolding submit.simps o r Inr sum.case prod.case by simp
    qed
  qed simp
qed

section \<open>What wait answers\<close>

definition no_eviction :: "poll_round list \<Rightarrow> bool" where
  "no_eviction = list_all (\<lambda>rd. OtherEvicted \<notin> set (pr_others rd))"

lemma apply_other_ids: "oth \<noteq> OtherEvicted \<Longrightarrow> job_ids st \<subseteq> job_ids (apply_other cap st oth)"
  by (cases oth) (auto simp: job_ids_def [of "st\<lparr>jobs := _\<rparr>"] dom_update job_ids_def [symmetric])

lemma apply_others_ids:
  "OtherEvicted \<notin> set os \<Longrightarrow> job_ids st \<subseteq> job_ids (foldl (apply_other cap) st os)"
proof (induction os arbitrary: st)
  case (Cons x os)
  then have "job_ids st \<subseteq> job_ids (apply_other cap st x)" by (intro apply_other_ids) auto
  with Cons show ?case by fastforce
qed simp

lemma process_job_ids [simp]: "job_ids (fst (process_job b fs i a st)) = job_ids st"
  by (simp add: process_job_def Let_def split: option.splits)

lemma process_job_entry:
  assumes "process_job b fs i a st = (st1, stays, e)"
  shows "(stays \<longrightarrow> e = None) \<and> (\<not> stays \<and> i \<in> job_ids st \<longrightarrow> e \<noteq> None)"
proof -
  have "map_of (jobs (set_status i s st)) i = None \<Longrightarrow> i \<notin> job_ids st" for s
    using map_of_jobs [of "set_status i s st" i] by simp
  with assms show ?thesis by (auto simp: process_job_def Let_def split: option.splits if_splits)
qed

lemma poll_pending_spec:
  assumes "poll_pending b rd ids st = (st1, left, es)" "distinct ids"
  shows "job_ids st1 = job_ids st \<and> distinct left \<and> distinct (map fst es) \<and>
    set left \<inter> fst ` set es = {} \<and> set left \<union> fst ` set es \<subseteq> set ids \<and>
    (set ids \<subseteq> job_ids st \<longrightarrow> set left \<union> fst ` set es = set ids)"
  using assms
proof (induction b rd ids st arbitrary: st1 left es rule: poll_pending.induct)
  case (2 b rd i ids st)
  obtain sta stays e where p: "process_job b (pr_files rd) i (pr_answer rd i) st = (sta, stays, e)"
    by (metis prod_cases3)
  obtain stb lf en where r: "poll_pending b rd ids sta = (stb, lf, en)" by (metis prod_cases3)
  have ids: "job_ids sta = job_ids st" using process_job_ids [of b "pr_files rd" i "pr_answer rd i" st] p by simp
  note IH = 2(1) [OF p [symmetric] refl refl r] process_job_entry [OF p]
  from 2(2) have "st1 = stb" "left = (if stays then i # lf else lf)"
    "es = (case e of None \<Rightarrow> en | Some w \<Rightarrow> (i, w) # en)"
    by (auto simp: p r)
  with IH ids 2(3) show ?case by (cases stays; cases e) auto
qed simp

lemma wait_rounds_spec:
  assumes "wait_rounds cap b rds pending st = (es, st')" "distinct pending"
  shows "distinct (map fst es) \<and> fst ` set es \<subseteq> set pending \<and>
    (no_eviction rds \<and> set pending \<subseteq> job_ids st \<longrightarrow> fst ` set es = set pending)"
  using assms
proof (induction cap b rds pending st arbitrary: es st' rule: wait_rounds.induct)
  case (3 cap b rd rds p ps st)
  let ?st0 = "foldl (apply_other cap) st (pr_others rd)"
  obtain st1 left en where q: "poll_pending b rd (p # ps) ?st0 = (st1, left, en)" by (metis prod_cases3)
  obtain more st2 where w: "wait_rounds cap b rds left st1 = (more, st2)" by (cases "wait_rounds cap b rds left st1")
  note A = poll_pending_spec [OF q 3(3)]
  have es: "es = en @ more"
    using 3(2) unfolding wait_rounds.simps Let_def q w prod.case by (rule Pair_inject) simp
  note B = 3(1) [OF refl q [symmetric] refl refl w]
  have keep: "no_eviction (rd # rds) \<Longrightarrow> job_ids st \<subseteq> job_ids ?st0"
    using apply_others_ids [of "pr_others rd" st cap] by (simp add: no_eviction_def)
  have tail: "no_eviction (rd # rds) \<Longrightarrow> no_eviction rds" by (simp add: no_eviction_def)
  from A have A: "job_ids st1 = job_ids ?st0" "distinct left" "distinct (map fst en)"
      "set left \<inter> fst ` set en = {}" "set left \<union> fst ` set en \<subseteq> set (p # ps)"
      "set (p # ps) \<subseteq> job_ids ?st0 \<Longrightarrow> set left \<union> fst ` set en = set (p # ps)"
    by blast+
  from B [OF A(2)] have B: "distinct (map fst more)" "fst ` set more \<subseteq> set left"
      "no_eviction rds \<Longrightarrow> set left \<subseteq> job_ids st1 \<Longrightarrow> fst ` set more = set left"
    by blast+
  have "distinct (map fst es)"
    unfolding es map_append distinct_append set_map using A(3,4) B(1,2) by blast
  moreover have "fst ` set es \<subseteq> set (p # ps)"
    unfolding es set_append image_Un using A(5) B(2) by blast
  moreover have "fst ` set es = set (p # ps)" if n: "no_eviction (rd # rds)" and i: "set (p # ps) \<subseteq> job_ids st"
  proof -
    have 0: "set (p # ps) \<subseteq> job_ids ?st0" using keep [OF n] i by blast
    then have 1: "set left \<union> fst ` set en = set (p # ps)" by (rule A(6))
    with 0 have "set left \<subseteq> job_ids st1" unfolding A(1) by blast
    with B(3) [OF tail [OF n]] have "fst ` set more = set left" by blast
    with 1 show ?thesis unfolding es set_append image_Un by blast
  qed
  ultimately show ?case by blast
qed (auto simp: comp_def image_image)

lemma at_once_keys:
  "map fst (concat (map (\<lambda>i. case known_entry st i of Some e \<Rightarrow> [(i, e)] | None \<Rightarrow> []) js)) =
    filter (\<lambda>i. known_entry st i \<noteq> None) js"
  by (induction js) (auto split: option.splits)

lemma pending_known: "known_entry st i = None \<Longrightarrow> i \<in> job_ids st"
  using map_of_jobs [of st i] by (auto simp: known_entry_def split: option.splits)

lemma wait_split:
  obtains now es st1 pend where
    "wait cap b rds ids st = (now @ es, maybe_evict_terminal cap st1)"
    "wait_rounds cap b rds pend st = (es, st1)"
    "distinct pend" "set pend \<subseteq> job_ids st" "set pend \<subseteq> set ids"
    "distinct (map fst now)" "fst ` set now = set ids - set pend"
proof -
  let ?pend = "filter (\<lambda>i. known_entry st i = None) (remdups ids)"
  let ?once = "concat (map (\<lambda>i. case known_entry st i of Some e \<Rightarrow> [(i, e)] | None \<Rightarrow> []) (remdups ids))"
  obtain es st1 where w: "wait_rounds cap b rds ?pend st = (es, st1)" by (cases "wait_rounds cap b rds ?pend st")
  have keys: "map fst ?once = filter (\<lambda>i. known_entry st i \<noteq> None) (remdups ids)" by (rule at_once_keys)
  have ks: "set (map fst ?once) = set ids - set ?pend" unfolding keys set_filter set_remdups by (rule set_eqI) (simp, argo)
  have "wait cap b rds ids st = (?once @ es, maybe_evict_terminal cap st1)"
    unfolding wait_def Let_def w prod.case ..
  moreover have "distinct ?pend" by simp
  moreover have "set ?pend \<subseteq> job_ids st" using pending_known by (simp only: set_filter) blast
  moreover have "set ?pend \<subseteq> set ids" by (simp only: set_filter set_remdups) blast
  moreover have "distinct (map fst ?once)" unfolding keys by simp
  ultimately show ?thesis using that w ks unfolding set_map by blast
qed

text \<open>
  C23: \<open>wait\<close> answers each job it is asked for once. Whatever the polls answer and other tasks
  do meanwhile, no job gets two entries and none gets one that was not asked for; unless a
  record is evicted during the wait, every asked job gets its entry - also when the time runs
  out, when a query keeps raising, or when the job is unknown.
\<close>

theorem wait_answers_every_job:
  "let (es, st') = wait cap b rds ids st in
    distinct (map fst es) \<and> fst ` set es \<subseteq> set ids \<and>
    (if no_eviction rds then fst ` set es = set ids else True)"
proof (rule wait_split [of cap b rds ids st])
  fix now es st1 pend
  assume W: "wait cap b rds ids st = (now @ es, maybe_evict_terminal cap st1)"
    "wait_rounds cap b rds pend st = (es, st1)"
    "distinct pend" "set pend \<subseteq> job_ids st" "set pend \<subseteq> set ids"
    "distinct (map fst now)" "fst ` set now = set ids - set pend"
  note R = wait_rounds_spec [OF W(2,3)]
  have "distinct (map fst (now @ es))"
    unfolding map_append distinct_append set_map using W(6,7) R by blast
  moreover have "fst ` set (now @ es) \<subseteq> set ids" unfolding set_append image_Un using W(5,7) R by blast
  moreover have "if no_eviction rds then fst ` set (now @ es) = set ids else True"
    unfolding set_append image_Un using W(4,5,7) R by (simp only: split: if_split) blast
  ultimately show ?thesis unfolding W(1) Let_def prod.case by blast
qed

section \<open>The table stays well-formed\<close>

text \<open>Keys are unique and non-empty, and each record carries the id it is kept under.\<close>

definition record_wf :: "string \<times> job_record \<Rightarrow> bool" where
  "record_wf = (\<lambda>(i, r). jb_id r = i \<and> i \<noteq> [])"

definition table_wf :: "cluster \<Rightarrow> bool" where
  "table_wf st \<longleftrightarrow> table_ok st \<and> list_all record_wf (jobs st)"

fun other_wf :: "other \<Rightarrow> bool" where
  "other_wf (OtherSubmitted i r) = record_wf (i, r)"
| "other_wf _ = True"

lemma other_wf_iff: "other_wf = (\<lambda>x. case x of OtherSubmitted i r \<Rightarrow> record_wf (i, r) | _ \<Rightarrow> True)"
proof
  show "other_wf x = (case x of OtherSubmitted i r \<Rightarrow> record_wf (i, r) | _ \<Rightarrow> True)" for x
    by (cases x) simp_all
qed

lemma set_update_subset: "set (AList.update k v xs) \<subseteq> insert (k, v) (set xs)"
  by (induction xs) auto

lemma table_wf_update [inv_facts]:
  "table_wf st \<Longrightarrow> record_wf (i, r) \<Longrightarrow> table_wf (st\<lparr>jobs := AList.update i r (jobs st)\<rparr>)"
  using set_update_subset [of i r "jobs st"]
  by (auto simp: table_wf_def table_ok_def distinct_update list_all_iff)

lemma table_wf_lookup: "table_wf st \<Longrightarrow> map_of (jobs st) i = Some r \<Longrightarrow> record_wf (i, r)"
  by (auto simp: table_wf_def list_all_iff dest: map_of_SomeD)

lemma table_wf_set [inv_facts]:
  assumes "table_wf st"
  shows "table_wf (set_status i s st)" "table_wf (set_result i res st)"
proof -
  have "record_wf (i, r\<lparr>jb_status := s\<rparr>) = record_wf (i, r)" "record_wf (i, r\<lparr>jb_result := Some res\<rparr>) = record_wf (i, r)"
    for r :: job_record by (simp_all add: record_wf_def)
  with assms table_wf_update [OF assms] table_wf_lookup [OF assms, of i]
  show "table_wf (set_status i s st)" "table_wf (set_result i res st)"
    by (auto simp: set_status_def set_result_def split: option.split)
qed

lemma table_wf_evict [inv_facts]: "table_wf st \<Longrightarrow> table_wf (maybe_evict_terminal cap st)"
proof -
  assume wf: "table_wf st"
  have "set (jobs (maybe_evict_terminal cap st)) \<subseteq> set (jobs st)"
    by (auto simp: maybe_evict_terminal_def Let_def)
  with wf evict_table_ok [of st cap] show ?thesis unfolding table_wf_def list_all_iff by blast
qed

section \<open>Invariants of the table\<close>

text \<open>What every operation keeps, once and for all: a property of the table that the four elementary
  moves keep - a record filed, its status set, its result set, an eviction.\<close>

locale table_invariant =
  fixes I :: "cluster \<Rightarrow> bool" and rec_ok :: "string \<times> job_record \<Rightarrow> bool"
  assumes keep_update: "I st \<Longrightarrow> rec_ok (i, r) \<Longrightarrow> I (st\<lparr>jobs := AList.update i r (jobs st)\<rparr>)"
    and keep_status: "I st \<Longrightarrow> I (set_status i s st)"
    and keep_result: "I st \<Longrightarrow> I (set_result i res st)"
    and keep_evict: "I st \<Longrightarrow> I (maybe_evict_terminal cap st)"
    and filed_ok: "i \<noteq> [] \<Longrightarrow> jb_id r = i \<Longrightarrow> rec_ok (i, r)"
begin

lemmas keeps = keep_update keep_status keep_result keep_evict

definition others_ok :: "poll_round list \<Rightarrow> bool" where
  "others_ok = list_all (\<lambda>rd. list_all (\<lambda>x. case x of OtherSubmitted i r \<Rightarrow> rec_ok (i, r) | _ \<Rightarrow> True) (pr_others rd))"

lemma keep_others:
  "I st \<Longrightarrow> list_all (\<lambda>x. case x of OtherSubmitted i r \<Rightarrow> rec_ok (i, r) | _ \<Rightarrow> True) xs \<Longrightarrow>
    I (foldl (apply_other cap) st xs)"
proof (induction xs arbitrary: st)
  case (Cons x xs)
  from Cons(2,3) have "I (apply_other cap st x)" by (cases x) (simp_all add: keeps)
  with Cons show ?case by simp
qed simp

lemma keep_process: "I st \<Longrightarrow> I (fst (process_job b fs i answer st))"
  by (simp add: process_job_def Let_def keeps split: option.split)

lemma keep_poll: "I st \<Longrightarrow> I (fst (poll_pending b rd ids st))"
proof (induction b rd ids st rule: poll_pending.induct)
  case (2 b rd i ids st)
  obtain sta stays e where p: "process_job b (pr_files rd) i (pr_answer rd i) st = (sta, stays, e)"
    by (metis prod_cases3)
  have "I sta" using keep_process [OF 2(2), of b "pr_files rd" i "pr_answer rd i"] p by simp
  from 2(1) [OF p [symmetric] refl refl this] show ?case by (simp add: p Let_def case_prod_beta')
qed simp

lemma keep_rounds: "I st \<Longrightarrow> others_ok rds \<Longrightarrow> I (snd (wait_rounds cap b rds pending st))"
proof (induction cap b rds pending st rule: wait_rounds.induct)
  case (3 cap b rd rds p ps st)
  let ?st0 = "foldl (apply_other cap) st (pr_others rd)"
  obtain st1 left en where q: "poll_pending b rd (p # ps) ?st0 = (st1, left, en)" by (metis prod_cases3)
  from 3(3) have o: "others_ok rds"
    and "list_all (\<lambda>x. case x of OtherSubmitted i r \<Rightarrow> rec_ok (i, r) | _ \<Rightarrow> True) (pr_others rd)"
    by (simp_all add: others_ok_def)
  with 3(2) have "I ?st0" by (simp add: keep_others)
  with q have "I st1" using keep_poll [of ?st0 b rd "p # ps"] by simp
  from 3(1) [OF refl q [symmetric] refl refl this o] show ?case
    unfolding wait_rounds.simps Let_def q prod.case by (simp add: case_prod_beta')
qed simp_all

lemma keep_wait: "I st \<Longrightarrow> others_ok rds \<Longrightarrow> I (snd (wait cap b rds ids st))"
  by (simp add: wait_def Let_def case_prod_beta' keeps keep_rounds)

lemma keep_submit_one:
  assumes "I st" "submit_one b h ceiling d spec uid now answer st = ok (e, st1)"
  shows "I st1"
proof -
  have r: "I (snd (record_submission b spec nm now paths resp st))" for nm paths resp
    using assms(1) by (auto simp: record_submission_def keeps filed_ok split: prod.split option.split)
  have "st1 = st \<or> (\<exists>nm paths resp. record_submission b spec nm now paths resp st = (e, st1))"
  proof (cases "js_command spec = []")
    case True
    with assms(2) show ?thesis by (simp add: submit_one_def)
  next
    case False
    with assms(2) show ?thesis
      by (cases "validate_cwd h ceiling (js_cwd spec)")
        (auto simp: submit_one_def Let_def simp del: split_paired_Ex split: if_splits py_error.splits)
  qed
  with r assms(1) show ?thesis by (metis snd_conv)
qed

lemma keep_submit: "I st \<Longrightarrow> I (snd (submit b h ceiling d reqs st))"
proof (induction b h ceiling d reqs st rule: submit.induct)
  case (2 b h ceiling d spec uid now answer rest st)
  show ?case
  proof (cases "submit_one b h ceiling d spec uid now answer st")
    case (Inr x)
    then obtain e st1 where one: "submit_one b h ceiling d spec uid now answer st = ok (e, st1)" by (cases x) simp
    from 2(1) [OF one refl keep_submit_one [OF 2(2) one]] show ?thesis
      unfolding submit.simps one by (cases "submit b h ceiling d rest st1") (simp split: sum.split)
  qed (simp add: 2(2))
qed simp

lemma keep_cancel: "I st \<Longrightarrow> I (snd (cancel cap answers st))"
proof -
  have "I st \<Longrightarrow> I (snd (cancel_all answers st))"
    by (induction answers st rule: cancel_all.induct) (simp_all add: keeps case_prod_beta' Let_def)
  then show "I st \<Longrightarrow> I (snd (cancel cap answers st))" by (simp add: cancel_def case_prod_beta' Let_def keeps)
qed

lemma keep_blocking:
  assumes "I st" "others_ok rds"
  shows "I (snd (execute_blocking cap b h ceiling d spec uid now answer rds st))"
proof -
  obtain x st1 where s: "submit b h ceiling d [(spec, uid, now, answer)] st = (x, st1)"
    by (cases "submit b h ceiling d [(spec, uid, now, answer)] st")
  then have "I st1" using keep_submit [OF assms(1)] by (metis snd_conv)
  then have "I st1" "I (snd (wait cap b rds ids st1))" for ids using keep_wait assms(2) by simp_all
  then show ?thesis
    unfolding execute_blocking_def s
    by (auto simp: case_prod_beta' Let_def split: sum.split list.split submit_entry.split option.split)
qed

end

interpretation wf: table_invariant table_wf record_wf
  by unfold_locales (auto simp: inv_facts record_wf_def)

text \<open>Known once, known for ever - in the table or among the evicted.\<close>

definition knows :: "string set \<Rightarrow> cluster \<Rightarrow> bool" where
  "knows S st \<longleftrightarrow> S \<subseteq> job_ids st \<union> evicted st"

lemma knows_evict: "knows S st \<Longrightarrow> knows S (maybe_evict_terminal cap st)"
  unfolding knows_def maybe_evict_terminal_def Let_def job_ids_def by (auto simp: image_iff)

lemma evicted_set [simp]:
  "evicted (set_status i s st) = evicted st" "evicted (set_result i r st) = evicted st"
  by (simp_all add: set_status_def set_result_def split: option.split)

interpretation known: table_invariant "knows S" "\<lambda>_. True" for S
  using knows_evict by unfold_locales (auto simp: knows_def)

text \<open>
  The job table is a table. Whatever the scheduler answers and other tasks do, submitting,
  waiting and cancelling keep one record per job id, filed under its own, non-empty id.
\<close>

theorem cluster_table_well_formed:
  assumes "table_wf st" "list_all (\<lambda>rd. list_all other_wf (pr_others rd)) rds"
  shows "table_wf (snd (submit b h ceiling output_dir reqs st)) \<and> table_wf (snd (wait cap b rds ids st)) \<and>
    table_wf (snd (cancel cap answers st))"
  using assms wf.keep_submit wf.keep_wait [of st rds] wf.keep_cancel
  by (simp add: wf.others_ok_def other_wf_iff)

theorem cluster_table_well_formed_witness:
  "table_wf (snd (cancel 1000 [(''7'', 0, [], [])] cluster_init))"
proof -
  have "table_wf cluster_init" by (simp add: table_wf_def table_ok_def cluster_init_def)
  then show ?thesis using cluster_table_well_formed [of cluster_init "[]" undefined undefined None "[]" "[]" 1000 "[]"] by simp
qed

end
