(* ===== verification/Cluster_Backends.thy ===== *)
theory Cluster_Backends
  imports Cluster_Base
begin

text \<open>
  \<open>hares/cluster/slurm.py\<close> and \<open>hares/cluster/lsf.py\<close>: the two schedulers as values of
  \<^typ>\<open>backend\<close>. What the base asks of a scheduler is the locale \<open>scheduler\<close>; both interpret it.
\<close>

named_theorems backend_defs

section \<open>Helpers of both backends\<close>

definition or_default :: "string option \<Rightarrow> string option \<Rightarrow> string option" where
  "or_default x d = (case x of Some s \<Rightarrow> if s = [] then d else x | None \<Rightarrow> d)"

definition flag_arg :: "string \<Rightarrow> string option \<Rightarrow> string list" where
  "flag_arg f x = (case x of Some s \<Rightarrow> if s = [] then [] else [f, s] | None \<Rightarrow> [])"

definition script_of :: "string \<Rightarrow> string \<Rightarrow> job_spec \<Rightarrow> string \<Rightarrow> string \<Rightarrow> string \<Rightarrow> string" where
  "script_of ph var spec out err ext =
     (if js_array spec = None then build_inner_shell spec out err ext
      else inner_shell (per_task ph var) spec out err ext)"

definition status_lines :: "string \<Rightarrow> string list" where
  "status_lines s = filter (\<lambda>l. l \<noteq> []) (map strip_str (splitlines s))"

text \<open>The aggregation over the lines of an array: the words of each line that has one.\<close>

definition array_status :: "string set \<Rightarrow> string set \<Rightarrow> status \<Rightarrow> string list \<Rightarrow> status" where
  "array_status running pending gone ws =
     (if \<exists>w \<in> set ws. w \<in> running then RUN else if \<exists>w \<in> set ws. w \<in> pending then PEND else gone)"

section \<open>SLURM\<close>

record slurm_config =
  sl_partition :: "string option"
  sl_account :: "string option"
  sl_default_resource_spec :: "string option"
  sl_sbatch_bin :: string
  sl_squeue_bin :: string
  sl_scancel_bin :: string

definition SLURM_PENDING :: "string set" where
  "SLURM_PENDING = {''PENDING'', ''CONFIGURING'', ''REQUEUED'', ''RESV_DEL_HOLD'', ''REQUEUE_FED'',
     ''REQUEUE_HOLD'', ''RESIZING'', ''SIGNALING'', ''SPECIAL_EXIT'', ''STAGE_OUT'', ''STOPPED'', ''SUSPENDED''}"

definition SLURM_RUNNING :: "string set" where
  "SLURM_RUNNING = {''RUNNING'', ''COMPLETING''}"

definition SLURM_DONE :: "string set" where
  "SLURM_DONE = {''COMPLETED''}"

definition SLURM_FAILED :: "string set" where
  "SLURM_FAILED = {''FAILED'', ''CANCELLED'', ''TIMEOUT'', ''NODE_FAIL'', ''PREEMPTED'',
     ''BOOT_FAIL'', ''DEADLINE'', ''OUT_OF_MEMORY'', ''REVOKED''}"

definition slurm_submit_argv ::
  "slurm_config \<Rightarrow> job_spec \<Rightarrow> string \<Rightarrow> string \<Rightarrow> string \<Rightarrow> string \<Rightarrow> string list result" where
  "slurm_submit_argv cfg spec out err ext job_name =
     rbind (case or_default (js_resource_spec spec) (sl_default_resource_spec cfg) of
              None \<Rightarrow> ok [] | Some rs \<Rightarrow> if rs = [] then ok [] else shlex_split rs) (\<lambda>resources.
     ok ([sl_sbatch_bin cfg, ''--parsable''] @
       flag_arg ''--partition'' (sl_partition cfg) @ flag_arg ''--account'' (sl_account cfg) @
       [''--job-name'', job_name] @
       (case js_cwd spec of Some c \<Rightarrow> if c = [] then [] else [''--chdir='' @ c] | None \<Rightarrow> []) @
       [''--output=/dev/null'', ''--error=/dev/null''] @
       (case js_array spec of Some a \<Rightarrow> [''--array='' @ a] | None \<Rightarrow> []) @
       resources @
       [''--wrap'', script_of ''%a'' ''SLURM_ARRAY_TASK_ID'' spec out err ext]))"

definition slurm_parse_submit :: "string \<Rightarrow> string option" where
  "slurm_parse_submit stdout =
     (let first = (if strip_str stdout = [] then [] else hd (splitlines (strip_str stdout)));
          job_id = strip_str (hd (split_on (CHR '';'') first))
      in if first = [] \<or> job_id = [] then None else Some job_id)"

definition slurm_terminal_from_exitcode :: "job_record option \<Rightarrow> node_files \<Rightarrow> status" where
  "slurm_terminal_from_exitcode rec fs = (case rec of
      None \<Rightarrow> UNKWN
    | Some r \<Rightarrow> if jb_array r \<noteq> None then DONE else exitcode_file_terminal_status fs (jb_exit r))"

definition slurm_state :: "string \<Rightarrow> status" where
  "slurm_state native =
     (if native \<in> SLURM_PENDING then PEND
      else if native \<in> SLURM_RUNNING then RUN
      else if native \<in> SLURM_DONE then DONE
      else if native \<in> SLURM_FAILED then EXIT
      else UNKWN)"

definition slurm_parse_status :: "job_record option \<Rightarrow> node_files \<Rightarrow> response \<Rightarrow> status" where
  "slurm_parse_status rec fs resp =
     (let (rc, stdout, stderr) = resp; combined = lower_str (stdout @ stderr) in
      if rc \<noteq> 0 then
        if has_substr ''invalid job id'' combined \<or> has_substr ''not found'' combined
        then slurm_terminal_from_exitcode rec fs else UNKWN
      else let ls = status_lines stdout in
        if ls = [] then slurm_terminal_from_exitcode rec fs
        else case rec of
          Some r \<Rightarrow>
            if jb_array r \<noteq> None
            then array_status SLURM_RUNNING SLURM_PENDING (slurm_terminal_from_exitcode rec fs) (map upper_str ls)
            else slurm_state (upper_str (hd ls))
        | None \<Rightarrow> slurm_state (upper_str (hd ls)))"

definition slurm :: "slurm_config \<Rightarrow> backend" where
  "slurm cfg =
     \<lparr>bk_name = ''slurm'', bk_placeholder = Some ''%a'',
      bk_submit_argv = slurm_submit_argv cfg,
      bk_parse_submit = slurm_parse_submit,
      bk_status_argv = (\<lambda>i. [sl_squeue_bin cfg, ''--noheader'', ''-j'', i, ''-o'', ''%T'']),
      bk_parse_status = slurm_parse_status,
      bk_cancel_argv = (\<lambda>i. [sl_scancel_bin cfg, i])\<rparr>"

section \<open>LSF\<close>

record lsf_config =
  lf_queue :: "string option"
  lf_default_resource_spec :: "string option"
  lf_bsub_bin :: string
  lf_bjobs_bin :: string
  lf_bkill_bin :: string

definition lsf_submit_argv ::
  "lsf_config \<Rightarrow> job_spec \<Rightarrow> string \<Rightarrow> string \<Rightarrow> string \<Rightarrow> string \<Rightarrow> string list result" where
  "lsf_submit_argv cfg spec out err ext job_name =
     ok ([lf_bsub_bin cfg] @ flag_arg ''-q'' (lf_queue cfg) @
       flag_arg ''-R'' (or_default (js_resource_spec spec) (lf_default_resource_spec cfg)) @
       (case js_array spec of Some a \<Rightarrow> [''-J'', job_name @ ''['' @ a @ '']''] | None \<Rightarrow> [''-J'', job_name]) @
       flag_arg ''-cwd'' (js_cwd spec) @
       [''/bin/sh'', ''-c'', script_of ''%I'' ''LSB_JOBINDEX'' spec out err ext])"

text \<open>\<open>Job\s+<(\d+)>\<close> at a position, and its leftmost match.\<close>

definition bsub_id_at :: "string \<Rightarrow> string option" where
  "bsub_id_at s =
     (let r = dropWhile is_space (drop 3 s); ds = takeWhile is_digit (tl r); e = dropWhile is_digit (tl r) in
      if prefix ''Job'' s \<and> takeWhile is_space (drop 3 s) \<noteq> [] \<and> prefix ''<'' r \<and> ds \<noteq> [] \<and> prefix ''>'' e
      then Some ds else None)"

fun bsub_id_search :: "string \<Rightarrow> string option" where
  "bsub_id_search [] = None"
| "bsub_id_search (c # s) = (case bsub_id_at (c # s) of Some d \<Rightarrow> Some d | None \<Rightarrow> bsub_id_search s)"

definition lsf_parse_submit :: "string \<Rightarrow> string option" where
  "lsf_parse_submit stdout = bsub_id_search stdout"

definition LSF_RUNNING :: "string set" where
  "LSF_RUNNING = {''RUN'', ''SSUSP'', ''USUSP'', ''PSUSP'', ''WAIT'', ''ZOMBI''}"

definition lsf_state :: "string \<Rightarrow> status" where
  "lsf_state native =
     (if native = ''PEND'' then PEND
      else if native \<in> LSF_RUNNING then RUN
      else if native = ''DONE'' then DONE
      else if native = ''EXIT'' then EXIT
      else UNKWN)"

text \<open>The third column of a line of \<open>bjobs\<close>.\<close>

definition lsf_column :: "string \<Rightarrow> string option" where
  "lsf_column l = (let parts = split_ws l in if length parts < 3 then None else Some (upper_str (parts ! 2)))"

definition lsf_parse_status :: "job_record option \<Rightarrow> node_files \<Rightarrow> response \<Rightarrow> status" where
  "lsf_parse_status rec fs resp =
     (let (rc, stdout, stderr) = resp; combined = lower_str (stdout @ stderr) in
      if rc \<noteq> 0 then
        if has_substr ''not found'' combined \<or> has_substr ''no unfinished job found'' combined then DONE else UNKWN
      else let ls = status_lines stdout in
        if ls = [] then UNKWN
        else if (case rec of Some r \<Rightarrow> jb_array r \<noteq> None | None \<Rightarrow> False)
        then array_status LSF_RUNNING {''PEND''} DONE (List.map_filter lsf_column ls)
        else (case lsf_column (hd ls) of None \<Rightarrow> UNKWN | Some native \<Rightarrow> lsf_state native))"

definition lsf :: "lsf_config \<Rightarrow> backend" where
  "lsf cfg =
     \<lparr>bk_name = ''lsf'', bk_placeholder = Some ''%I'',
      bk_submit_argv = lsf_submit_argv cfg,
      bk_parse_submit = lsf_parse_submit,
      bk_status_argv = (\<lambda>i. [lf_bjobs_bin cfg, ''-noheader'', i]),
      bk_parse_status = lsf_parse_status,
      bk_cancel_argv = (\<lambda>i. [lf_bkill_bin cfg, i])\<rparr>"

section \<open>Shell words\<close>

lemma sh_go_quote_tail:
  "sh_go (SQuote squote) True tok (concat (map (\<lambda>c. if c = squote then [squote, bslash, squote, squote] else [c]) s) @
     squote # r) = sh_go SWord True (tok @ s) r"
proof (induction s arbitrary: tok)
  case (Cons c s)
  have esc: "sh_go (SQuote squote) True tok (squote # bslash # squote # squote # u) =
      sh_go (SQuote squote) True (tok @ [squote]) u" for u
    by (simp add: sh_white_def)
  show ?case
  proof (cases "c = squote")
    case True
    with Cons esc show ?thesis by simp
  next
    case False
    with Cons show ?thesis by simp
  qed
qed simp

lemma sh_go_shell_quote:
  "sh_go SWord q tok (shell_quote s @ r) = sh_go SWord True (tok @ s) r"
  "sh_go SStart False [] (shell_quote s @ r) = sh_go SWord True s r"
  using sh_go_quote_tail [of tok s r] sh_go_quote_tail [of "[]" s r]
  by (simp_all add: shell_quote_def sh_white_def)

lemma sh_go_dquoted:
  "\<forall>c \<in> set w. c \<noteq> dquote \<and> c \<noteq> bslash \<Longrightarrow>
    sh_go (SQuote dquote) True tok (w @ dquote # r) = sh_go SWord True (tok @ w) r"
  by (induction w arbitrary: tok) auto

definition plain_var :: "string \<Rightarrow> bool" where
  "plain_var v = list_all (\<lambda>c. c \<noteq> dquote \<and> c \<noteq> bslash) v"

text \<open>The word the shell reads from a quoted task path.\<close>

lemma per_task_word:
  assumes "partition_str ph p = Some (pre, post)" "plain_var var"
  shows "shlex_split (per_task ph var p) = ok [pre @ ''${'' @ var @ ''}'' @ post]"
proof -
  let ?v = "''${'' @ var @ ''}''"
  have "\<forall>c \<in> set ?v. c \<noteq> dquote \<and> c \<noteq> bslash" using assms(2) by (auto simp: plain_var_def list_all_iff)
  from sh_go_dquoted [OF this] have d: "sh_go SWord q tok (dquote # ?v @ dquote # r) = sh_go SWord True (tok @ ?v) r" for q tok r
    by (simp add: sh_white_def)
  have "shlex_split (per_task ph var p) =
      sh_go SWord True pre (dquote # ?v @ dquote # (if post \<noteq> [] then shell_quote post else []))"
    using sh_go_shell_quote(2) [of pre] by (simp add: shlex_split_def per_task_def assms(1))
  also have "\<dots> = sh_go SWord True (pre @ ?v) (if post \<noteq> [] then shell_quote post else [])" by (rule d)
  also have "\<dots> = ok [pre @ ?v @ post]"
    using sh_go_shell_quote(1) [of True "pre @ ?v" post "[]"] by auto
  finally show ?thesis by simp
qed

lemma shell_quote_word: "shlex_split (shell_quote p) = ok [p]"
  using sh_go_shell_quote(2) [of p "[]"] by (simp add: shlex_split_def)

text \<open>The path a task's word stands for, its index in place of the placeholder.\<close>

definition node_file :: "string \<Rightarrow> string \<Rightarrow> string \<Rightarrow> string" where
  "node_file ph t p = (case partition_str ph p of None \<Rightarrow> p | Some (pre, post) \<Rightarrow> pre @ t @ post)"

lemma partition_fresh:
  "CHR ''%'' \<notin> set a \<Longrightarrow> partition_str [CHR ''%'', c] (a @ CHR ''%'' # c # post) = Some (a, post)"
  by (induction a) auto

lemma replace_skip_drop: "replace_skip k old new s = replace_skip 0 old new (drop k s)"
proof (induction s arbitrary: k)
  case (Cons c s)
  then show ?case by (cases k) (simp_all del: replace_skip.simps(3))
qed simp

lemma replace_fresh:
  "CHR ''%'' \<notin> set a \<Longrightarrow> replace_all [CHR ''%'', c] t (a @ CHR ''%'' # c # post) = a @ t @ replace_all [CHR ''%'', c] t post"
  "CHR ''%'' \<notin> set a \<Longrightarrow> replace_all [CHR ''%'', c] t a = a"
  by (induction a) (simp_all add: replace_all_def replace_skip_drop [of 1] replace_skip_drop [of "Suc 0"])

lemma dir_name_join: "CHR ''/'' \<notin> set n \<Longrightarrow> dir_name (d @ CHR ''/'' # n) = (d, n)"
proof -
  assume n: "CHR ''/'' \<notin> set n"
  have "split_on (CHR ''/'') (d @ CHR ''/'' # n) = split_on (CHR ''/'') d @ [n]"
    by (induction d) (auto simp: split_on_id [OF n] split: list.splits)
  then show ?thesis by (simp add: dir_name_def Let_def join_split)
qed

section \<open>What the base relies on\<close>

locale scheduler =
  fixes b :: backend and ph :: char and var :: string
  assumes placeholder: "bk_placeholder b = Some [CHR ''%'', ph]" "ph \<noteq> CHR ''/''"
    and var_plain: "plain_var var"
    and runs_script: "bk_submit_argv b spec out err ext nm = ok argv \<Longrightarrow>
      last argv = script_of [CHR ''%'', ph] var spec out err ext"
    and id_nonempty: "bk_parse_submit b s \<noteq> Some []"
    and never_canceled: "bk_parse_status b rec fs resp \<noteq> CANCELED"
    and array_never_exit: "jb_array r \<noteq> None \<Longrightarrow> bk_parse_status b (Some r) fs resp \<noteq> EXIT"
begin

abbreviation token :: string where "token \<equiv> [CHR ''%'', ph]"

lemma array_paths:
  assumes "js_array spec = Some a" "job_paths b d spec uid = (out, err, ext)"
  shows "out = (d @ ''/'' @ uid @ ''.out.'') @ token" "err = (d @ ''/'' @ uid @ ''.err.'') @ token"
    "ext = (d @ ''/'' @ uid @ ''.exit.'') @ token"
  using assms by (auto simp: job_paths_def output_paths_def Let_def placeholder)

lemma node_file_end: "CHR ''%'' \<notin> set pre \<Longrightarrow> node_file token t (pre @ token) = pre @ t"
  using partition_fresh [of pre ph "[]"] by (simp add: node_file_def)

lemma script_word:
  "CHR ''%'' \<notin> set pre \<Longrightarrow>
    shlex_split (per_task token var (pre @ token)) = ok [node_file token (''${'' @ var @ ''}'') (pre @ token)]"
  using partition_fresh [of pre ph "[]"] per_task_word [of token "pre @ token" pre "[]" var] var_plain node_file_end
  by simp

lemma replace_end: "CHR ''%'' \<notin> set pre \<Longrightarrow> replace_all token t (pre @ token) = node_file token t (pre @ token)"
  using replace_fresh(1) [of pre ph t "[]"] node_file_end [of pre t] by (simp add: replace_all_def)

lemma task_id:
  assumes "CHR ''%'' \<notin> set (d @ n)" "CHR ''/'' \<notin> set (n @ t)"
  shows "task_id_of (Some token) ((d @ ''/'' @ n) @ token) (node_file token t ((d @ ''/'' @ n) @ token)) = t"
proof -
  have "node_file token t ((d @ ''/'' @ n) @ token) = d @ CHR ''/'' # (n @ t)"
    using node_file_end [of "d @ ''/'' @ n" t] assms(1) by simp
  moreover have "dir_name (d @ CHR ''/'' # (n @ t)) = (d, n @ t)" by (rule dir_name_join) (rule assms(2))
  moreover have "dir_name ((d @ ''/'' @ n) @ token) = (d, n @ token)"
    using dir_name_join [of "n @ token" d] assms(2) placeholder(2) by auto
  moreover have "partition_str token (n @ token) = Some (n, [])"
    using partition_fresh [of n ph "[]"] assms(1) by simp
  ultimately show ?thesis by (simp add: task_id_of_def)
qed

lemma collect_written:
  assumes p: "js_array spec = Some a" "job_paths b d spec uid = (out, err, ext)"
    and clean: "CHR ''%'' \<notin> set (d @ uid)" "CHR ''/'' \<notin> set (uid @ t)"
    and r: "(jb_stdout r, jb_stderr r, jb_exit r) = (out, err, ext)"
  shows "collect_task fs (Some token) r (node_file token t ext) =
    (t, \<lparr>tk_status = exitcode_file_terminal_status fs (node_file token t ext),
         tk_exit = (case exit_of fs (node_file token t ext) of None \<Rightarrow> -1 | Some n \<Rightarrow> n),
         tk_stdout = read_file_safe fs (node_file token t out),
         tk_stderr = read_file_safe fs (node_file token t err)\<rparr>)"
proof -
  note paths = array_paths [OF p]
  have "task_id_of (Some token) ext (node_file token t ext) = t"
    using task_id [of d "uid @ ''.exit.''" t] clean unfolding paths by auto
  moreover have "replace_all token t out = node_file token t out" "replace_all token t err = node_file token t err"
    unfolding paths by (rule replace_end, use clean in simp)+
  ultimately show ?thesis using r
    by (simp add: collect_task_def Let_def exitcode_file_terminal_status_def)
qed

lemma words_written:
  assumes p: "js_array spec = Some a" "job_paths b d spec uid = (out, err, ext)"
    and clean: "CHR ''%'' \<notin> set (d @ uid)" and q: "q \<in> {out, err, ext}"
  shows "shlex_split (per_task token var q) = ok [node_file token (''${'' @ var @ ''}'') q]"
proof -
  from q obtain x where x: "x \<in> {''.out.'', ''.err.'', ''.exit.''}" and q: "q = (d @ ''/'' @ uid @ x) @ token"
    unfolding array_paths [OF p] by blast
  show ?thesis unfolding q by (rule script_word) (use clean x in auto)
qed

end

section \<open>The schedulers keep it\<close>

lemma bsub_id_search_ne: "bsub_id_search s \<noteq> Some []"
  by (induction s) (auto simp: bsub_id_at_def Let_def split: option.splits if_splits)

lemma array_status_cases: "array_status r p g ws \<in> {RUN, PEND, g}"
  by (simp add: array_status_def)

lemma exit_file_cases: "exitcode_file_terminal_status fs p \<in> {UNKWN, DONE, EXIT}"
  by (simp add: exitcode_file_terminal_status_def split: option.splits)

interpretation sl: scheduler "slurm cfg" "CHR ''a''" "''SLURM_ARRAY_TASK_ID''" for cfg
proof
  fix spec out err ext nm argv
  assume "bk_submit_argv (slurm cfg) spec out err ext nm = ok argv"
  then show "last argv = script_of ''%a'' ''SLURM_ARRAY_TASK_ID'' spec out err ext"
    by (auto simp: slurm_def slurm_submit_argv_def)
next
  fix rec fs resp
  show "bk_parse_status (slurm cfg) rec fs resp \<noteq> CANCELED"
    using exit_file_cases array_status_cases
    by (auto simp: slurm_def slurm_parse_status_def slurm_terminal_from_exitcode_def slurm_state_def Let_def
      array_status_def exitcode_file_terminal_status_def split: prod.splits option.splits)
next
  fix r :: job_record and fs resp
  assume "jb_array r \<noteq> None"
  then show "bk_parse_status (slurm cfg) (Some r) fs resp \<noteq> EXIT"
    by (auto simp: slurm_def slurm_parse_status_def slurm_terminal_from_exitcode_def Let_def array_status_def
      split: prod.splits)
qed (auto simp: slurm_def slurm_parse_submit_def Let_def plain_var_def)

interpretation lf: scheduler "lsf cfg" "CHR ''I''" "''LSB_JOBINDEX''" for cfg
proof
  fix spec out err ext nm argv
  assume "bk_submit_argv (lsf cfg) spec out err ext nm = ok argv"
  then show "last argv = script_of ''%I'' ''LSB_JOBINDEX'' spec out err ext"
    by (auto simp: lsf_def lsf_submit_argv_def)
next
  fix rec fs resp
  show "bk_parse_status (lsf cfg) rec fs resp \<noteq> CANCELED"
    by (auto simp: lsf_def lsf_parse_status_def lsf_state_def Let_def array_status_def split: prod.splits option.splits)
next
  fix r :: job_record and fs resp
  assume "jb_array r \<noteq> None"
  then show "bk_parse_status (lsf cfg) (Some r) fs resp \<noteq> EXIT"
    by (auto simp: lsf_def lsf_parse_status_def Let_def array_status_def split: prod.splits)
qed (auto simp: lsf_def lsf_parse_submit_def bsub_id_search_ne plain_var_def)

section \<open>Arrays\<close>

text \<open>
  C26: array tasks meet their files. For both schedulers, the path words of the script of an
  array job read as the job's paths with the task variable in the placeholder's place; and the
  exit file a task with index \<open>t\<close> so writes is collected as task \<open>t\<close>, with its own outputs.
\<close>

theorem array_files_meet:
  assumes "(b, ph, var) \<in> {(slurm cs, ''%a'', ''SLURM_ARRAY_TASK_ID''), (lsf cl, ''%I'', ''LSB_JOBINDEX'')}"
    and "js_array spec = Some a" "job_paths b d spec uid = (out, err, ext)"
    and "CHR ''%'' \<notin> set (d @ uid)" "CHR ''/'' \<notin> set (uid @ t)"
    and "(jb_stdout r, jb_stderr r, jb_exit r) = (out, err, ext)"
  shows "(\<forall>p \<in> {out, err, ext}. shlex_split (per_task ph var p) = ok [node_file ph (''${'' @ var @ ''}'') p]) \<and>
    collect_task fs (bk_placeholder b) r (node_file ph t ext) =
      (t, \<lparr>tk_status = exitcode_file_terminal_status fs (node_file ph t ext),
           tk_exit = (case exit_of fs (node_file ph t ext) of None \<Rightarrow> -1 | Some n \<Rightarrow> n),
           tk_stdout = read_file_safe fs (node_file ph t out),
           tk_stderr = read_file_safe fs (node_file ph t err)\<rparr>)"
proof -
  from assms(1) consider "b = slurm cs" "ph = ''%a''" "var = ''SLURM_ARRAY_TASK_ID''"
    | "b = lsf cl" "ph = ''%I''" "var = ''LSB_JOBINDEX''" by blast
  then show ?thesis
  proof cases
    case 1
    then show ?thesis using sl.words_written sl.collect_written sl.placeholder(1) assms(2-) by metis
  next
    case 2
    then show ?thesis using lf.words_written lf.collect_written lf.placeholder(1) assms(2-) by metis
  qed
qed

definition example_slurm :: slurm_config where
  "example_slurm = \<lparr>sl_partition = None, sl_account = None, sl_default_resource_spec = None,
     sl_sbatch_bin = ''sbatch'', sl_squeue_bin = ''squeue'', sl_scancel_bin = ''scancel''\<rparr>"

definition example_lsf :: lsf_config where
  "example_lsf = \<lparr>lf_queue = None, lf_default_resource_spec = None,
     lf_bsub_bin = ''bsub'', lf_bjobs_bin = ''bjobs'', lf_bkill_bin = ''bkill''\<rparr>"

definition example_job :: "string option \<Rightarrow> string \<Rightarrow> string \<Rightarrow> string \<Rightarrow> job_record" where
  "example_job a out err ext = \<lparr>jb_id = ''7'', jb_name = ''n'', jb_command = ''c'', jb_submitted_at = ''t'',
     jb_stdout = out, jb_stderr = err, jb_exit = ext, jb_status = PEND, jb_result = None, jb_array = a\<rparr>"

definition example_spec :: "string option \<Rightarrow> job_spec" where
  "example_spec a = \<lparr>js_command = ''make'', js_resource_spec = None, js_name = None, js_cwd = None,
     js_env = [], js_array = a\<rparr>"

theorem array_files_meet_witness:
  "fst (collect_task [] (Some ''%a'') (example_job (Some ''1-3'') ''/o/u.out.%a'' ''/o/u.err.%a'' ''/o/u.exit.%a'')
     (node_file ''%a'' ''2'' ''/o/u.exit.%a'')) = ''2''"
proof -
  have p: "job_paths (slurm example_slurm) ''/o'' (example_spec (Some ''1-3'')) ''u'' =
      (''/o/u.out.%a'', ''/o/u.err.%a'', ''/o/u.exit.%a'')"
    by (simp add: job_paths_def output_paths_def example_spec_def slurm_def Let_def)
  have "(slurm example_slurm, ''%a'', ''SLURM_ARRAY_TASK_ID'') \<in>
      {(slurm example_slurm, ''%a'', ''SLURM_ARRAY_TASK_ID''), (lsf example_lsf, ''%I'', ''LSB_JOBINDEX'')}" by simp
  from array_files_meet [OF this _ p, of "''1-3''" "''2''" "example_job (Some ''1-3'') ''/o/u.out.%a'' ''/o/u.err.%a'' ''/o/u.exit.%a''" "[]"]
  show ?thesis by (simp add: example_spec_def example_job_def slurm_def)
qed

definition exit_files :: "node_files \<Rightarrow> string \<Rightarrow> job_record \<Rightarrow> string list" where
  "exit_files fs ph r = glob_files fs (replace_all ph ''*'' (jb_exit r))"

lemma collect_task_status:
  "tk_status (snd (collect_task fs ph r ef)) = exitcode_file_terminal_status fs ef"
  by (simp add: collect_task_def Let_def exitcode_file_terminal_status_def)

lemma count_status_zero: "count_status s ts = 0 \<longleftrightarrow> (\<forall>(i, t) \<in> set ts. tk_status t \<noteq> s)"
  by (auto simp: count_status_def filter_empty_conv)

lemma count_status_map: "count_status s (map f xs) = length (filter (\<lambda>x. tk_status (snd (f x)) = s) xs)"
  by (simp add: count_status_def filter_map comp_def case_prod_beta')

lemma length_filter_three:
  assumes "\<And>x. x \<in> set xs \<Longrightarrow> g x \<in> {p, q, r}" "distinct [p, q, r]"
  shows "length (filter (\<lambda>x. g x = p) xs) + length (filter (\<lambda>x. g x = q) xs) + length (filter (\<lambda>x. g x = r) xs) = length xs"
  using assms by (induction xs) auto

text \<open>
  An array is judged by the exit files that exist, not by its tasks. It is DONE exactly when
  every exit file found reads 0, and the three counters add up to the files found; the array
  specification is nowhere consulted, so a task the scheduler killed before it wrote its exit
  file is counted neither as failed nor as unknown.
\<close>

theorem array_rollup_counts_files:
  "case collect_array fs (Some ph) r st of
     ArrayResult s code tasks (done_n, failed_n, unknown_n) \<Rightarrow>
       s = (if list_all (\<lambda>f. exit_of fs f = Some 0) (exit_files fs ph r) then DONE else EXIT) \<and>
       code = (if s = DONE then 0 else 1) \<and>
       done_n + failed_n + unknown_n = length (exit_files fs ph r) \<and>
       set (map fst tasks) = set (map (task_id_of (Some ph) (jb_exit r)) (exit_files fs ph r))
   | ArrayEmpty s \<Rightarrow> s = st \<and> exit_files fs ph r = []
   | JobResult s code out err nt \<Rightarrow> False"
proof (cases "exit_files fs ph r = []")
  case True
  then show ?thesis by (simp add: collect_array_def exit_files_def)
next
  case False
  let ?fs = "exit_files fs ph r"
  let ?ts = "map (collect_task fs (Some ph) r) ?fs"
  let ?ok = "count_status EXIT ?ts = 0 \<and> count_status UNKWN ?ts = 0"
  have c: "collect_array fs (Some ph) r st = ArrayResult (if ?ok then DONE else EXIT) (if ?ok then 0 else 1)
      (AList.updates (map fst ?ts) (map snd ?ts) []) (count_status DONE ?ts, count_status EXIT ?ts, count_status UNKWN ?ts)"
    using False by (simp only: collect_array_def exit_files_def Let_def option.case if_False)
  have "exitcode_file_terminal_status fs f \<noteq> EXIT \<and> exitcode_file_terminal_status fs f \<noteq> UNKWN
      \<longleftrightarrow> exit_of fs f = Some 0" for f
    by (auto simp: exitcode_file_terminal_status_def split: option.splits)
  then have o: "?ok \<longleftrightarrow> list_all (\<lambda>f. exit_of fs f = Some 0) ?fs"
    by (simp only: count_status_map collect_task_status length_0_conv filter_empty_conv list_all_iff) blast
  have n: "count_status DONE ?ts + count_status EXIT ?ts + count_status UNKWN ?ts = length ?fs"
    unfolding count_status_map collect_task_status
    by (rule length_filter_three) (use exit_file_cases in auto)
  have "set (map fst (AList.updates (map fst ?ts) (map snd ?ts) [])) = set (map fst ?ts)"
    unfolding set_map dom_map_of_conv_image_fst [symmetric] updates_conv' by (simp add: image_image)
  moreover have "map fst ?ts = map (task_id_of (Some ph) (jb_exit r)) ?fs" by (simp add: collect_task_def Let_def)
  ultimately have k: "set (map fst (AList.updates (map fst ?ts) (map snd ?ts) [])) =
      set (map (task_id_of (Some ph) (jb_exit r)) ?fs)" by (simp only:)
  show ?thesis unfolding c job_result.case prod.case using o n k by (simp only:) simp
qed

section \<open>Single jobs\<close>

lemma map_of_update_job: "map_of (AList.update i r js) = (map_of js)(i \<mapsto> r)"
  by (rule ext) (simp add: update_conv')

lemma wait_one:
  assumes "map_of (jobs st) i = Some r" "jb_result r = None"
  shows "fst (wait cap b rds [i] st) = fst (wait_rounds cap b rds [i] st)"
  using assms by (simp add: wait_def known_entry_def Let_def split: prod.splits)

lemma poll_one:
  "poll_pending b rd [i] st = (case process_job b (pr_files rd) i (pr_answer rd i) st of
     (st1, stays, e) \<Rightarrow> (st1, if stays then [i] else [], case e of None \<Rightarrow> [] | Some w \<Rightarrow> [(i, w)]))"
  by (simp split: prod.splits)

text \<open>A round that leaves the one job waited for pending.\<close>

lemma wait_rounds_stays:
  assumes "pr_others rd = []" "process_job b (pr_files rd) i (pr_answer rd i) st = (st1, True, None)"
  shows "fst (wait_rounds cap b (rd # rds) [i] st) = fst (wait_rounds cap b rds [i] st1)"
  using assms by (simp add: poll_one split: prod.splits del: poll_pending.simps)

lemma wait_rounds_ends:
  assumes "pr_others rd = []" "process_job b (pr_files rd) i (pr_answer rd i) st = (st1, False, Some w)"
  shows "fst (wait_rounds cap b (rd # rds) [i] st) = [(i, w)]"
  using assms by (simp add: poll_one del: poll_pending.simps)

lemma process_terminal:
  assumes "map_of (jobs st) i = Some r" "bk_parse_status b (Some r) fs resp = s" "is_terminal s"
  shows "\<exists>st1. process_job b fs i (Some resp) st =
    (st1, False, Some (Finished (collect_result fs (bk_placeholder b) (r\<lparr>jb_status := s\<rparr>) s)))"
  using assms by (auto simp: process_job_def Let_def set_status_def map_of_update_job)

lemma process_open:
  assumes "map_of (jobs st) i = Some r" "bk_parse_status b (Some r) fs resp = s" "\<not> is_terminal s"
  shows "process_job b fs i (Some resp) st =
    (st\<lparr>jobs := AList.update i (r\<lparr>jb_status := s\<rparr>) (jobs st)\<rparr>, True, None)"
  using assms by (auto simp: process_job_def Let_def set_status_def)

definition left_queue :: "response \<Rightarrow> bool" where
  "left_queue resp \<longleftrightarrow> (case resp of (rc, stdout, stderr) \<Rightarrow> rc = 0 \<and> status_lines stdout = [])"

lemma slurm_left_queue:
  "left_queue resp \<Longrightarrow> jb_array r = None \<Longrightarrow>
    bk_parse_status (slurm cfg) (Some r) fs resp = exitcode_file_terminal_status fs (jb_exit r)"
  by (auto simp: left_queue_def slurm_def slurm_parse_status_def slurm_terminal_from_exitcode_def)

text \<open>
  A SLURM job that left the queue without writing its exit file never finishes for the
  server. However often it is polled, the wait runs into its timeout - whose message says that
  the job is still running on the cluster.
\<close>

theorem killed_slurm_job_never_finishes:
  assumes "map_of (jobs st) i = Some r" "jb_array r = None" "jb_result r = None"
    and "\<forall>rd \<in> set rds. pr_others rd = [] \<and> exit_of (pr_files rd) (jb_exit r) = None \<and>
           (\<exists>resp. pr_answer rd i = Some resp \<and> left_queue resp)"
  shows "fst (wait cap (slurm cfg) rds [i] st) = [(i, WTimeout)]"
proof -
  have "fst (wait_rounds cap (slurm cfg) rds [i] st) = [(i, WTimeout)]"
    using assms
  proof (induction rds arbitrary: st r)
    case Nil
    then show ?case by simp
  next
    case (Cons rd rds)
    then obtain resp where a: "pr_answer rd i = Some resp" "left_queue resp" "pr_others rd = []"
        "exit_of (pr_files rd) (jb_exit r) = None" by auto
    from slurm_left_queue [OF a(2) Cons.prems(2)] a(4)
    have "bk_parse_status (slurm cfg) (Some r) (pr_files rd) resp = UNKWN"
      by (simp add: exitcode_file_terminal_status_def)
    from process_open [OF Cons.prems(1) this] a(1)
    have "process_job (slurm cfg) (pr_files rd) i (pr_answer rd i) st =
        (st\<lparr>jobs := AList.update i (r\<lparr>jb_status := UNKWN\<rparr>) (jobs st)\<rparr>, True, None)"
      by (simp add: is_terminal_def)
    from wait_rounds_stays [OF a(3) this] show ?case
      using Cons.IH [of "st\<lparr>jobs := AList.update i (r\<lparr>jb_status := UNKWN\<rparr>) (jobs st)\<rparr>" "r\<lparr>jb_status := UNKWN\<rparr>"]
        Cons.prems by (simp add: map_of_update_job)
  qed
  with wait_one [OF assms(1,3)] show ?thesis by simp
qed

theorem killed_slurm_job_never_finishes_witness:
  "fst (wait 1000 (slurm example_slurm) [\<lparr>pr_others = [], pr_answer = (\<lambda>_. Some (0, [], [])), pr_files = []\<rparr>] [''7'']
     \<lparr>jobs = [(''7'', example_job None ''o'' ''e'' ''x'')], evicted = {}\<rparr>) = [(''7'', WTimeout)]"
proof -
  have l: "left_queue (0, [], [])" by (simp add: left_queue_def status_lines_def splitlines_def strip_str_def)
  have x: "exit_of [] ''x'' = None" by (simp add: exit_of_def read_file_safe_def strip_str_def py_int_def Let_def)
  show ?thesis
    by (rule killed_slurm_job_never_finishes [where r = "example_job None ''o'' ''e'' ''x''"])
      (use l x in \<open>simp_all add: example_job_def\<close>)
qed

text \<open>
  An LSF job that has left the scheduler's memory counts as a success. When \<open>bjobs\<close> no
  longer finds it, the wait finishes with DONE, and if no exit file can be read - the job was
  killed before it wrote one - with exit code 0.
\<close>

theorem forgotten_lsf_job_succeeds:
  assumes "map_of (jobs st) i = Some r" "jb_array r = None" "jb_result r = None"
    and "pr_others rd = []" "pr_answer rd i = Some (rc, stdout, stderr)" "rc \<noteq> 0"
    and "has_substr ''not found'' (lower_str (stdout @ stderr))"
    and "exit_of (pr_files rd) (jb_exit r) = None"
  shows "fst (wait cap (lsf cfg) (rd # rds) [i] st) =
    [(i, Finished (JobResult DONE 0 (read_file_safe (pr_files rd) (jb_stdout r))
        (read_file_safe (pr_files rd) (jb_stderr r)) None))]"
proof -
  have "bk_parse_status (lsf cfg) (Some r) (pr_files rd) (rc, stdout, stderr) = DONE"
    using assms(6,7) by (simp add: lsf_def lsf_parse_status_def Let_def)
  from process_terminal [OF assms(1) this]
  obtain st1 where "process_job (lsf cfg) (pr_files rd) i (pr_answer rd i) st = (st1, False,
      Some (Finished (collect_result (pr_files rd) (bk_placeholder (lsf cfg)) (r\<lparr>jb_status := DONE\<rparr>) DONE)))"
    using assms(5) by (auto simp: is_terminal_def)
  from wait_rounds_ends [OF assms(4) this] wait_one [OF assms(1,3)] show ?thesis
    using assms(2,8) by (simp add: collect_result_def collect_single_def Let_def exit_of_def scheduler_note_def)
qed

theorem forgotten_lsf_job_succeeds_witness:
  "fst (wait 1000 (lsf example_lsf) [\<lparr>pr_others = [], pr_answer = (\<lambda>_. Some (255, [], ''Job <7> is not found'')), pr_files = []\<rparr>]
     [''7''] \<lparr>jobs = [(''7'', example_job None ''o'' ''e'' ''x'')], evicted = {}\<rparr>) =
   [(''7'', Finished (JobResult DONE 0 [] [] None))]"
proof -
  have x: "exit_of [] ''x'' = None" by (simp add: exit_of_def read_file_safe_def strip_str_def py_int_def Let_def)
  have n: "has_substr ''not found'' (lower_str ([] @ ''Job <7> is not found''))" by code_simp
  show ?thesis
    by (subst forgotten_lsf_job_succeeds [where r = "example_job None ''o'' ''e'' ''x''" and rc = 255 and stdout = "[]"
          and stderr = "''Job <7> is not found''"])
      (use x n in \<open>simp_all add: example_job_def read_file_safe_def\<close>)
qed

section \<open>A blocking SLURM job\<close>

definition still_queued :: "string \<Rightarrow> poll_round \<Rightarrow> bool" where
  "still_queued i rd \<longleftrightarrow> pr_others rd = [] \<and> (case pr_answer rd i of
      None \<Rightarrow> True
    | Some (rc, stdout, stderr) \<Rightarrow> rc = 0 \<and> status_lines stdout \<noteq> [] \<and>
        slurm_state (upper_str (hd (status_lines stdout))) \<in> {PEND, RUN})"

lemma wait_while_queued:
  assumes "list_all (still_queued i) queued" "map_of (jobs st) i = Some r" "jb_array r = None"
  shows "\<exists>st1 s. map_of (jobs st1) i = Some (r\<lparr>jb_status := s\<rparr>) \<and>
    fst (wait_rounds cap (slurm cfg) (queued @ rds) [i] st) = fst (wait_rounds cap (slurm cfg) rds [i] st1)"
  using assms
proof (induction queued arbitrary: st r)
  case Nil
  have "r = r\<lparr>jb_status := jb_status r\<rparr>" by simp
  with Nil show ?case by (metis append_Nil)
next
  case (Cons rd queued)
  then have q: "still_queued i rd" and o: "pr_others rd = []" by (simp_all add: still_queued_def)
  show ?case
  proof (cases "pr_answer rd i")
    case None
    then have "process_job (slurm cfg) (pr_files rd) i (pr_answer rd i) st = (st, True, None)"
      by (simp add: process_job_def)
    from wait_rounds_stays [OF o this] Cons show ?thesis by simp
  next
    case (Some resp)
    then obtain rc out err where resp: "resp = (rc, out, err)" "rc = 0" "status_lines out \<noteq> []"
        "slurm_state (upper_str (hd (status_lines out))) \<in> {PEND, RUN}"
      using q by (auto simp: still_queued_def)
    let ?s = "slurm_state (upper_str (hd (status_lines out)))"
    let ?st = "st\<lparr>jobs := AList.update i (r\<lparr>jb_status := ?s\<rparr>) (jobs st)\<rparr>"
    have "bk_parse_status (slurm cfg) (Some r) (pr_files rd) resp = ?s"
      using resp Cons.prems(3) by (simp add: slurm_def slurm_parse_status_def Let_def)
    from process_open [OF Cons.prems(2) this] resp(4) Some
    have "process_job (slurm cfg) (pr_files rd) i (pr_answer rd i) st = (?st, True, None)"
      by (auto simp: is_terminal_def)
    note step = wait_rounds_stays [OF o this]
    have "map_of (jobs ?st) i = Some (r\<lparr>jb_status := ?s\<rparr>)" by (simp add: map_of_update_job)
    from Cons.IH [OF _ this] Cons.prems(1,3)
    obtain st1 s where "map_of (jobs st1) i = Some (r\<lparr>jb_status := s\<rparr>)"
      "fst (wait_rounds cap (slurm cfg) (queued @ rds) [i] ?st) = fst (wait_rounds cap (slurm cfg) rds [i] st1)"
      by auto
    with step show ?thesis by (intro exI [of _ st1] exI [of _ s]) simp
  qed
qed

lemma exit_text: "exit_of fs p = Some (int n)" if "map_of fs p = Some (nat_str n @ [CHR 0x0A])"
proof -
  have cr: "CHR 0x0D \<notin> set (nat_str n @ [CHR 0x0A])"
  proof
    assume "CHR 0x0D \<in> set (nat_str n @ [CHR 0x0A])"
    then have "CHR 0x0D \<in> set (nat_str n)" by simp
    then have "\<not> is_space (CHR 0x0D)" using nat_str_no_space by blast
    then show False by (simp add: is_space_def)
  qed
  have "strip_str (nat_str n @ [CHR 0x0A]) = nat_str n"
  proof -
    have "dropWhile is_space (nat_str n @ [CHR 0x0A]) = nat_str n @ [CHR 0x0A]"
      using nat_str_no_space [of n] nat_str_ne [of n] by (cases "nat_str n") auto
    moreover have "dropWhile is_space (rev (nat_str n)) = rev (nat_str n)"
      by (rule dropWhile_all_not) (use nat_str_no_space in simp)
    ultimately show ?thesis by (simp add: strip_str_def is_space_def)
  qed
  then show ?thesis
    using that universal_newlines_id [OF cr] by (simp add: exit_of_def read_file_safe_def py_int_nat_str)
qed

lemma slurm_collects:
  assumes "map_of (jobs st) i = Some r" "jb_array r = None"
    and "pr_others rd = []" "pr_answer rd i = Some resp" "left_queue resp"
    and "map_of (pr_files rd) (jb_exit r) = Some (nat_str n @ [CHR 0x0A])"
  shows "fst (wait_rounds cap (slurm cfg) (rd # later) [i] st) =
    [(i, Finished (collect_single (pr_files rd) r (if n = 0 then DONE else EXIT)))]"
proof -
  have p: "bk_parse_status (slurm cfg) (Some r) (pr_files rd) resp = (if n = 0 then DONE else EXIT)"
    using slurm_left_queue [OF assms(5,2)] exit_text [OF assms(6)] by (simp add: exitcode_file_terminal_status_def)
  have t: "is_terminal (if n = 0 then DONE else EXIT)" by (simp add: is_terminal_def)
  obtain st1 where "process_job (slurm cfg) (pr_files rd) i (pr_answer rd i) st = (st1, False,
      Some (Finished (collect_result (pr_files rd) (bk_placeholder (slurm cfg))
        (r\<lparr>jb_status := if n = 0 then DONE else EXIT\<rparr>) (if n = 0 then DONE else EXIT))))"
    unfolding assms(4) using process_terminal [OF assms(1) p t] by (elim exE)
  from wait_rounds_ends [OF assms(3) this] show ?thesis
    using assms(2) by (simp add: collect_result_def collect_single_def)
qed

text \<open>
  C27: a job run through SLURM comes back. When the submission is answered with a job id, the job is
  then seen queued or running (or its query fails) for any number of polls and has left the
  queue at the next one, and the node wrote exit code \<open>n\<close>, the blocking call ends there with that
  exit code, DONE exactly for 0, and the output files' contents.
\<close>

theorem slurm_blocking_run:
  assumes "js_command spec \<noteq> []" "js_array spec = None" "validate_cwd h ceiling (js_cwd spec) = ok ()"
    and "output_paths d uid = (out, err, ext)"
    and "slurm_submit_argv cfg spec out err ext (job_name_of spec uid) = ok argv"
    and "answer argv = (0, stdout, stderr)" "slurm_parse_submit stdout = Some jid"
    and "list_all (still_queued jid) queued"
    and "pr_others rd = []" "pr_answer rd jid = Some resp" "left_queue resp"
    and "map_of (pr_files rd) ext = Some (nat_str n @ [CHR 0x0A])"
  shows "\<exists>nt. fst (execute_blocking cap (slurm cfg) h ceiling d spec uid now answer (queued @ rd # later) st) =
    ok (BlockingEntry (Finished (JobResult (if n = 0 then DONE else EXIT) (int n)
      (read_file_safe (pr_files rd) out) (read_file_safe (pr_files rd) err) nt)))"
proof -
  let ?r = "\<lparr>jb_id = jid, jb_name = job_name_of spec uid, jb_command = js_command spec, jb_submitted_at = now,
      jb_stdout = out, jb_stderr = err, jb_exit = ext, jb_status = PEND, jb_result = None, jb_array = None\<rparr>"
  let ?st = "st\<lparr>jobs := AList.update jid ?r (jobs st)\<rparr>"
  have "jid \<noteq> []" using sl.id_nonempty [of cfg stdout] assms(7) by (auto simp: slurm_def)
  with assms have sub: "submit (slurm cfg) h ceiling d [(spec, uid, now, answer)] st =
      (ok [Accepted jid (job_name_of spec uid) now None], ?st)"
    by (simp add: submit_one_def job_paths_def record_submission_def slurm_def Let_def)
  have m: "map_of (jobs ?st) jid = Some ?r" by (simp add: map_of_update_job)
  from wait_while_queued [OF assms(8) m, of cap cfg "rd # later"]
  obtain st1 s where st1: "map_of (jobs st1) jid = Some (?r\<lparr>jb_status := s\<rparr>)"
    "fst (wait_rounds cap (slurm cfg) (queued @ rd # later) [jid] ?st) =
     fst (wait_rounds cap (slurm cfg) (rd # later) [jid] st1)" by auto
  have x: "map_of (pr_files rd) (jb_exit (?r\<lparr>jb_status := s\<rparr>)) = Some (nat_str n @ [CHR 0x0A])"
    using assms(12) by simp
  from slurm_collects [OF st1(1) _ assms(9-11) x, of cap cfg later] st1(2)
  have "fst (wait_rounds cap (slurm cfg) (queued @ rd # later) [jid] ?st) =
      [(jid, Finished (collect_single (pr_files rd) (?r\<lparr>jb_status := s\<rparr>) (if n = 0 then DONE else EXIT)))]"
    by simp
  moreover obtain es st2 where w: "wait cap (slurm cfg) (queued @ rd # later) [jid] ?st = (es, st2)"
    by (cases "wait cap (slurm cfg) (queued @ rd # later) [jid] ?st")
  moreover have "fst (wait cap (slurm cfg) (queued @ rd # later) [jid] ?st) =
      fst (wait_rounds cap (slurm cfg) (queued @ rd # later) [jid] ?st)"
    by (rule wait_one [OF m]) simp
  ultimately have es: "es = [(jid, Finished (collect_single (pr_files rd) (?r\<lparr>jb_status := s\<rparr>) (if n = 0 then DONE else EXIT)))]"
    by (simp only: fst_conv)
  have "fst (execute_blocking cap (slurm cfg) h ceiling d spec uid now answer (queued @ rd # later) st) =
      ok (BlockingEntry (Finished (collect_single (pr_files rd) (?r\<lparr>jb_status := s\<rparr>) (if n = 0 then DONE else EXIT))))"
    unfolding execute_blocking_def sub by (simp only: sum.case prod.case list.case submit_entry.case w es) simp
  moreover have "py_int (strip_str (read_file_safe (pr_files rd) ext)) = Some (int n)"
    using exit_text [OF assms(12)] by (simp add: exit_of_def)
  ultimately show ?thesis by (simp add: collect_single_def Let_def)
qed

definition example_host :: host where
  "example_host = \<lparr>environ = (\<lambda>_. None), cwd = ''/w'', disk = [], pw_home = (\<lambda>_. None), uid_home = None\<rparr>"

definition example_round :: "node_files \<Rightarrow> poll_round" where
  "example_round fs = \<lparr>pr_others = [], pr_answer = (\<lambda>_. Some (0, [], [])), pr_files = fs\<rparr>"

theorem slurm_blocking_run_witness:
  "\<exists>nt. fst (execute_blocking 1000 (slurm example_slurm) example_host None ''/o'' (example_spec None) ''u'' ''t''
      (\<lambda>_. (0, ''7'', [])) ([] @ [example_round [(''/o/u.out'', ''hi''), (''/o/u.exit'', nat_str 2 @ [CHR 0x0A])]])
      cluster_init) = ok (BlockingEntry (Finished (JobResult EXIT 2 ''hi'' [] nt)))"
proof -
  let ?fs = "[(''/o/u.out'', ''hi''), (''/o/u.exit'', nat_str 2 @ [CHR 0x0A])]"
  let ?argv = "projr (slurm_submit_argv example_slurm (example_spec None) ''/o/u.out'' ''/o/u.err'' ''/o/u.exit''
    (job_name_of (example_spec None) ''u''))"
  have argv: "slurm_submit_argv example_slurm (example_spec None) ''/o/u.out'' ''/o/u.err'' ''/o/u.exit''
      (job_name_of (example_spec None) ''u'') = ok ?argv"
    by (simp add: slurm_submit_argv_def example_spec_def example_slurm_def or_default_def)
  have sub: "slurm_parse_submit ''7'' = Some ''7''"
    by (simp add: slurm_parse_submit_def strip_str_def splitlines_def is_space_def is_line_end_def)
  have l: "left_queue (0, [], [])" by (simp add: left_queue_def status_lines_def splitlines_def strip_str_def)
  have r: "read_file_safe ?fs ''/o/u.out'' = ''hi''" "read_file_safe ?fs ''/o/u.err'' = []"
    by (simp_all add: read_file_safe_def)
  have "\<exists>nt. fst (execute_blocking 1000 (slurm example_slurm) example_host None ''/o'' (example_spec None) ''u'' ''t''
      (\<lambda>_. (0, ''7'', [])) ([] @ [example_round ?fs]) cluster_init) =
    ok (BlockingEntry (Finished (JobResult (if (2 :: nat) = 0 then DONE else EXIT) (int 2)
      (read_file_safe (pr_files (example_round ?fs)) ''/o/u.out'')
      (read_file_safe (pr_files (example_round ?fs)) ''/o/u.err'') nt)))"
    by (rule slurm_blocking_run [OF _ _ _ _ argv _ sub _ _ _ l])
      (simp_all add: example_spec_def validate_cwd_def output_paths_def example_round_def)
  then show ?thesis by (simp add: example_round_def r [simplified])
qed

text \<open>
  A resource specification with an open quote brings the whole SLURM submission down. The
  jobs of the call submitted before it stay submitted and in the table, but the caller gets the
  exception instead of their job ids.
\<close>

theorem bad_resource_spec_loses_ids:
  assumes "submit_one (slurm cfg) h ceiling d good uid now answer st = ok (Accepted jid nm t a, st1)"
    and "js_command bad \<noteq> []" "js_cwd bad = None" "js_resource_spec bad = Some rs" "rs \<noteq> []"
    and "shlex_split rs = Inl e"
  shows "submit (slurm cfg) h ceiling d [(good, uid, now, answer), (bad, uid', now', answer')] st = (Inl e, st1) \<and>
    jid \<in> job_ids st1"
proof -
  have "submit_one (slurm cfg) h ceiling d bad uid' now' answer' st1 = Inl e"
    using assms by (simp add: submit_one_def validate_cwd_def slurm_def slurm_submit_argv_def or_default_def
      rbind_def Let_def split: prod.splits)
  moreover have "jid \<in> job_ids st1" using submit_one_entry [OF assms(1)] by simp
  ultimately show ?thesis using assms(1) by simp
qed


theorem bad_resource_spec_loses_ids_witness:
  "fst (submit (slurm example_slurm) example_host None ''/o''
      [(example_spec None, ''u'', ''t'', \<lambda>_. (0, ''7'', [])),
       (example_spec None\<lparr>js_resource_spec := Some [squote]\<rparr>, ''v'', ''t'', \<lambda>_. (0, ''8'', []))] cluster_init) =
    raise_err (ValueError ''No closing quotation'')"
proof -
  have sub: "slurm_parse_submit ''7'' = Some ''7''"
    by (simp add: slurm_parse_submit_def strip_str_def splitlines_def is_space_def is_line_end_def)
  have "\<exists>st1. submit_one (slurm example_slurm) example_host None ''/o'' (example_spec None) ''u'' ''t''
      (\<lambda>_. (0, ''7'', [])) cluster_init = ok (Accepted ''7'' (job_name_of (example_spec None) ''u'') ''t'' None, st1)"
    by (simp add: submit_one_def example_spec_def validate_cwd_def slurm_def slurm_submit_argv_def or_default_def
      example_slurm_def record_submission_def job_paths_def output_paths_def sub Let_def)
  then obtain st1 where one: "submit_one (slurm example_slurm) example_host None ''/o'' (example_spec None) ''u'' ''t''
      (\<lambda>_. (0, ''7'', [])) cluster_init = ok (Accepted ''7'' (job_name_of (example_spec None) ''u'') ''t'' None, st1)" ..
  have bad: "shlex_split [squote] = raise_err (ValueError ''No closing quotation'')"
    by (simp add: shlex_split_def sh_white_def)
  show ?thesis
    using bad_resource_spec_loses_ids [OF one, of "example_spec None\<lparr>js_resource_spec := Some [squote]\<rparr>" "[squote]"
      "ValueError ''No closing quotation''" "''v''" "''t''" "\<lambda>_. (0, ''8'', [])"] bad
    by (simp add: example_spec_def del: submit.simps)
qed

end
