(* ===== verification/Cluster_Server.thy ===== *)
theory Cluster_Server
  imports Cluster_Backends Startup Restrict_Tools
begin

text \<open>
  \<open>hares/cluster/server.py\<close> and the \<open>load_*_config\<close> functions: the configuration of a scheduler read from
  the environment, the five tools of a cluster server, the reading of their arguments and the
  dispatch to the executor. A session is a sequence of calls on one job table.
\<close>

section \<open>Configuration\<close>

definition stripped_env :: "host \<Rightarrow> string \<Rightarrow> string option" where
  "stripped_env h name = (let s = strip_str (getenv h name []) in if s = [] then None else Some s)"

text \<open>The two durations have to be literals \<open>float\<close> accepts, or the start fails. They only bound how often
  a wait polls, which the rounds of \<^const>\<open>wait\<close> stand for, and are not kept.\<close>

definition check_duration :: "host \<Rightarrow> string \<Rightarrow> string \<Rightarrow> unit result" where
  "check_duration h name dflt =
     (if py_float_ok (getenv h name dflt) then ok () else raise_err (ValueError name))"

definition output_dir_of :: "host \<Rightarrow> string \<Rightarrow> string \<Rightarrow> string result" where
  "output_dir_of h name session_tmp = (case stripped_env h name of
      None \<Rightarrow> ok session_tmp
    | Some given \<Rightarrow> map_sum id rpath_str (from_option (RuntimeError given)
        (resolve_on h (path_of (expandvars (environ h) (expanduser h given))))))"

definition load_slurm_config :: "host \<Rightarrow> string \<Rightarrow> (slurm_config \<times> string) result" where
  "load_slurm_config h session_tmp =
     rbind (check_duration h ''HARES_SLURM_POLL_INTERVAL_SEC'' ''10'') (\<lambda>_.
     rbind (check_duration h ''HARES_SLURM_DEFAULT_TIMEOUT_SEC'' ''86400'') (\<lambda>_.
     rbind (output_dir_of h ''HARES_SLURM_OUTPUT_DIR'' session_tmp) (\<lambda>output_dir.
     ok (\<lparr>sl_partition = stripped_env h ''HARES_SLURM_PARTITION'',
          sl_account = stripped_env h ''HARES_SLURM_ACCOUNT'',
          sl_default_resource_spec = stripped_env h ''HARES_SLURM_DEFAULT_RESOURCE_SPEC'',
          sl_sbatch_bin = getenv h ''HARES_SLURM_SBATCH_BIN'' ''sbatch'',
          sl_squeue_bin = getenv h ''HARES_SLURM_SQUEUE_BIN'' ''squeue'',
          sl_scancel_bin = getenv h ''HARES_SLURM_SCANCEL_BIN'' ''scancel''\<rparr>, output_dir))))"

definition load_lsf_config :: "host \<Rightarrow> string \<Rightarrow> (lsf_config \<times> string) result" where
  "load_lsf_config h session_tmp =
     rbind (check_duration h ''HARES_LSF_POLL_INTERVAL_SEC'' ''10'') (\<lambda>_.
     rbind (check_duration h ''HARES_LSF_DEFAULT_TIMEOUT_SEC'' ''86400'') (\<lambda>_.
     rbind (output_dir_of h ''HARES_LSF_OUTPUT_DIR'' session_tmp) (\<lambda>output_dir.
     ok (\<lparr>lf_queue = stripped_env h ''HARES_LSF_QUEUE'',
          lf_default_resource_spec = stripped_env h ''HARES_LSF_DEFAULT_RESOURCE_SPEC'',
          lf_bsub_bin = getenv h ''HARES_LSF_BSUB_BIN'' ''bsub'',
          lf_bjobs_bin = getenv h ''HARES_LSF_BJOBS_BIN'' ''bjobs'',
          lf_bkill_bin = getenv h ''HARES_LSF_BKILL_BIN'' ''bkill''\<rparr>, output_dir))))"

section \<open>Tools and their arguments\<close>

datatype cluster_tool = T_BLOCKING | T_SUBMIT | T_WAIT | T_CANCEL | T_JOBS

fun tool_suffix :: "cluster_tool \<Rightarrow> string" where
  "tool_suffix T_BLOCKING = ''_execute_blocking''"
| "tool_suffix T_SUBMIT = ''_submit''"
| "tool_suffix T_WAIT = ''_wait''"
| "tool_suffix T_CANCEL = ''_cancel''"
| "tool_suffix T_JOBS = ''_jobs''"

definition ALL_TOOLS :: "cluster_tool list" where
  "ALL_TOOLS = [T_BLOCKING, T_SUBMIT, T_WAIT, T_CANCEL, T_JOBS]"

record cluster_cfg =
  cc_scheduler :: string
  cc_scope_id :: "string option"
  cc_backend :: backend
  cc_ceiling :: "rpath option"
  cc_output_dir :: string

definition tool_of :: "cluster_cfg \<Rightarrow> string \<Rightarrow> cluster_tool option" where
  "tool_of c name = find (\<lambda>t. name = prefixed (cc_scheduler c @ tool_suffix t) (cc_scope_id c)) ALL_TOOLS"

text \<open>The declared schemas, and the tools as they are listed.\<close>

definition job_spec_properties :: "(string \<times> schema) list" where
  "job_spec_properties = [(''command'', TString None), (''resource_spec'', TString None), (''name'', TString None),
     (''cwd'', TString None), (''env'', TMap (TString None)), (''array'', TString None)]"

fun tool_schema :: "cluster_tool \<Rightarrow> schema" where
  "tool_schema T_BLOCKING = TObject (job_spec_properties @ [(''timeout_sec'', TNumber)]) [''command'']"
| "tool_schema T_SUBMIT = TObject [(''jobs'', TArray (TObject job_spec_properties [''command'']) 1)] [''jobs'']"
| "tool_schema T_WAIT = TObject [(''job_ids'', TArray (TString None) 1), (''timeout_sec'', TNumber)] [''job_ids'']"
| "tool_schema T_CANCEL = TObject [(''job_ids'', TArray (TString None) 1)] [''job_ids'']"
| "tool_schema T_JOBS = TObject [] []"

definition cluster_descriptors :: "cluster_cfg \<Rightarrow> descriptor list" where
  "cluster_descriptors c = map (\<lambda>t. (prefixed (cc_scheduler c @ tool_suffix t) (cc_scope_id c), tool_schema t)) ALL_TOOLS"

text \<open>The MCP library refuses arguments that do not have the declared shape.\<close>

definition schema_error :: "'a result" where
  "schema_error = raise_err (ValueError ''schema'')"

definition str_field :: "(string \<times> json) list \<Rightarrow> string \<Rightarrow> string option result" where
  "str_field a k = (case map_of a k of None \<Rightarrow> ok None | Some (JStr s) \<Rightarrow> ok (Some s) | Some _ \<Rightarrow> schema_error)"

definition str_item :: "json \<Rightarrow> string result" where
  "str_item j = (case j of JStr s \<Rightarrow> ok s | _ \<Rightarrow> schema_error)"

definition env_field :: "(string \<times> json) list \<Rightarrow> (string \<times> string) list result" where
  "env_field a = (case map_of a ''env'' of
      None \<Rightarrow> ok []
    | Some (JObj kvs) \<Rightarrow> collect (\<lambda>(k, v). map_sum id (Pair k) (str_item v)) kvs
    | Some _ \<Rightarrow> schema_error)"

definition read_spec :: "(string \<times> json) list \<Rightarrow> job_spec result" where
  "read_spec a =
     rbind (str_field a ''command'') (\<lambda>command.
     rbind (str_field a ''resource_spec'') (\<lambda>resource_spec.
     rbind (str_field a ''name'') (\<lambda>name.
     rbind (str_field a ''cwd'') (\<lambda>wd.
     rbind (env_field a) (\<lambda>env.
     rbind (str_field a ''array'') (\<lambda>array.
     case command of None \<Rightarrow> schema_error
     | Some cmd \<Rightarrow> ok \<lparr>js_command = cmd, js_resource_spec = resource_spec, js_name = name, js_cwd = wd,
         js_env = env, js_array = array\<rparr>))))))"

definition read_specs :: "(string \<times> json) list \<Rightarrow> job_spec list result" where
  "read_specs a = (case map_of a ''jobs'' of
      Some (JList (j # js)) \<Rightarrow> collect (\<lambda>x. case x of JObj kvs \<Rightarrow> read_spec kvs | _ \<Rightarrow> schema_error) (j # js)
    | _ \<Rightarrow> schema_error)"

definition read_job_ids :: "(string \<times> json) list \<Rightarrow> string list result" where
  "read_job_ids a = (case map_of a ''job_ids'' of
      Some (JList (j # js)) \<Rightarrow> collect str_item (j # js) | _ \<Rightarrow> schema_error)"

section \<open>Calls\<close>

text \<open>What a call meets: for the specs in order a fresh uid, the time and the scheduler's answers; the
  polling rounds until the deadline; the answers of the cancel command.\<close>

record cluster_world =
  cw_host :: host
  cw_submits :: "nat \<Rightarrow> string \<times> string \<times> (string list \<Rightarrow> response)"
  cw_rounds :: "poll_round list"
  cw_cancels :: "string \<Rightarrow> response"

text \<open>\<open>JobRecord.to_dict\<close>: no file paths.\<close>

type_synonym job_view = "string \<times> string \<times> string \<times> string \<times> status \<times> string option \<times> job_result option"

definition to_dict :: "job_record \<Rightarrow> job_view" where
  "to_dict r = (jb_id r, jb_name r, jb_command r, jb_submitted_at r, jb_status r, jb_array r, jb_result r)"

definition list_jobs :: "cluster \<Rightarrow> job_view list" where
  "list_jobs st = map (\<lambda>(_, r). to_dict r) (jobs st)"

datatype cluster_reply =
    Blocked blocking_reply
  | Submitted "submit_entry list"
  | Waited "(string \<times> wait_entry) list"
  | Cancelled "(string \<times> bool) list"
  | Listed "job_view list"

definition submit_reqs :: "cluster_world \<Rightarrow> job_spec list \<Rightarrow> (job_spec \<times> string \<times> string \<times> (string list \<Rightarrow> response)) list" where
  "submit_reqs w specs = map (\<lambda>(i, spec). (spec, cw_submits w i)) (enumerate 0 specs)"

definition run_tool ::
  "cluster_cfg \<Rightarrow> cluster_world \<Rightarrow> cluster_tool \<Rightarrow> (string \<times> json) list \<Rightarrow> cluster \<Rightarrow> cluster_reply result \<times> cluster" where
  "run_tool c w t a st = (case t of
      T_BLOCKING \<Rightarrow>
        (case read_spec a of Inl e \<Rightarrow> (Inl e, st)
         | Inr spec \<Rightarrow> (let (uid, now, answer) = cw_submits w 0;
              (r, st1) = execute_blocking MAX_RETAINED_JOBS (cc_backend c) (cw_host w) (cc_ceiling c)
                (cc_output_dir c) spec uid now answer (cw_rounds w) st
              in (map_sum id Blocked r, st1)))
    | T_SUBMIT \<Rightarrow>
        (case read_specs a of Inl e \<Rightarrow> (Inl e, st)
         | Inr specs \<Rightarrow> (let (r, st1) = submit (cc_backend c) (cw_host w) (cc_ceiling c) (cc_output_dir c)
              (submit_reqs w specs) st in (map_sum id Submitted r, st1)))
    | T_WAIT \<Rightarrow>
        (case read_job_ids a of Inl e \<Rightarrow> (Inl e, st)
         | Inr ids \<Rightarrow> (let (es, st1) = wait MAX_RETAINED_JOBS (cc_backend c) (cw_rounds w) ids st
              in (ok (Waited es), st1)))
    | T_CANCEL \<Rightarrow>
        (case read_job_ids a of Inl e \<Rightarrow> (Inl e, st)
         | Inr ids \<Rightarrow> (let (es, st1) = cancel MAX_RETAINED_JOBS (map (\<lambda>i. (i, cw_cancels w i)) ids) st
              in (ok (Cancelled es), st1)))
    | T_JOBS \<Rightarrow> (ok (Listed (list_jobs st)), st))"

definition cluster_call ::
  "cluster_cfg \<Rightarrow> cluster_world \<Rightarrow> string \<Rightarrow> (string \<times> json) list \<Rightarrow> cluster \<Rightarrow> cluster_reply result \<times> cluster" where
  "cluster_call c w name a st = (case tool_of c name of
      None \<Rightarrow> (raise_err (ValueError (''Unknown tool: '' @ name)), st)
    | Some t \<Rightarrow> run_tool c w t a st)"

text \<open>A session: the replies and the table after its calls.\<close>

fun serve_calls ::
  "cluster_cfg \<Rightarrow> (cluster_world \<times> string \<times> (string \<times> json) list) list \<Rightarrow> cluster \<Rightarrow> cluster_reply result list \<times> cluster" where
  "serve_calls c [] st = ([], st)"
| "serve_calls c ((w, name, a) # cs) st =
     (let (r, st1) = cluster_call c w name a st; (rs, st2) = serve_calls c cs st1 in (r # rs, st2))"

section \<open>Sessions\<close>

text \<open>What every operation of the executor keeps, every session keeps.\<close>

context table_invariant
begin

lemma keep_call: "I st \<Longrightarrow> others_ok (cw_rounds w) \<Longrightarrow> I (snd (cluster_call c w name a st))"
  unfolding cluster_call_def run_tool_def
  by (auto simp: case_prod_beta' Let_def keep_blocking keep_submit keep_wait keep_cancel
      split: option.split cluster_tool.split sum.split)

lemma keep_session:
  "I st \<Longrightarrow> \<forall>(w, name, a) \<in> set cs. others_ok (cw_rounds w) \<Longrightarrow> I (snd (serve_calls c cs st))"
proof (induction c cs st rule: serve_calls.induct)
  case (2 c w name a cs st)
  obtain r st1 where call: "cluster_call c w name a st = (r, st1)" by (cases "cluster_call c w name a st")
  with 2(2,3) have "I st1" using keep_call [of st w c name a] by simp
  with 2(1) [OF call [symmetric] refl] 2(3) show ?case by (simp add: call case_prod_beta' Let_def)
qed simp

end

lemma others_any: "known.others_ok rds"
  by (auto simp: known.others_ok_def list_all_iff split: other.split)

lemma submit_ids:
  "submit b h cl d reqs st = (ok es, st') \<Longrightarrow> job_ids st' = job_ids st \<union> set (accepted_ids es)"
proof (induction b h cl d reqs st arbitrary: es st' rule: submit.induct)
  case (2 b h cl d spec uid now answer rest st)
  from 2(2) obtain e st1 es1 where one: "submit_one b h cl d spec uid now answer st = ok (e, st1)"
    and rest: "submit b h cl d rest st1 = (ok es1, st')" and es: "es = e # es1"
    by (auto split: sum.splits prod.splits)
  from 2(1) [OF one refl rest] submit_one_entry [OF one] show ?case
    by (cases e) (auto simp: es)
qed simp

lemma submitted_known:
  assumes "cluster_call c w name a st = (ok (Submitted es), st1)"
  shows "knows (set (accepted_ids es)) st1"
proof -
  have m: "map_sum id Submitted r = ok (Submitted es) \<Longrightarrow> r = ok es" "map_sum id Blocked q \<noteq> ok (Submitted es)" for r q
    by (cases r, simp_all) (cases q, simp_all)
  from assms obtain reqs where
    "submit (cc_backend c) (cw_host w) (cc_ceiling c) (cc_output_dir c) reqs st = (ok es, st1)"
    unfolding cluster_call_def run_tool_def Let_def
    by (auto dest: m(1) simp: m(2) split: option.splits cluster_tool.splits sum.splits prod.splits)
  then show ?thesis
    by (auto simp: knows_def dest: submit_ids)
qed

text \<open>
  C24: a job handed out is never disowned. When a call has answered with the id of an accepted job,
  then after any further session - waits, cancellations, submissions, evictions, other tasks in
  between, whatever the scheduler answers - a wait for the id never says that the job is not
  known to this session, and \<open>jobs\<close> lists it unless its record was evicted.
\<close>

theorem submitted_jobs_stay_known:
  assumes "cluster_call c w name a st = (ok (Submitted es), st1)" "i \<in> set (accepted_ids es)"
  shows "let st2 = snd (serve_calls c cs st1) in
    known_entry st2 i \<noteq> Some WUnknown \<and> (i \<in> evicted st2 \<or> i \<in> fst ` set (jobs st2))"
proof -
  have "knows (set (accepted_ids es)) (snd (serve_calls c cs st1))"
    by (rule known.keep_session) (use submitted_known [OF assms(1)] others_any in auto)
  with assms(2) have k: "i \<in> job_ids (snd (serve_calls c cs st1)) \<union> evicted (snd (serve_calls c cs st1))"
    by (auto simp: knows_def)
  then show ?thesis
    using map_of_jobs [of "snd (serve_calls c cs st1)" i]
    by (auto simp: known_entry_def Let_def job_ids_def split: option.split)
qed

definition demo_cluster :: cluster_cfg where
  "demo_cluster = \<lparr>cc_scheduler = ''slurm'', cc_scope_id = Some ''hpc'', cc_backend = slurm example_slurm,
     cc_ceiling = None, cc_output_dir = ''/o''\<rparr>"

definition demo_cluster_world :: cluster_world where
  "demo_cluster_world = \<lparr>cw_host = example_host, cw_submits = (\<lambda>_. (''u'', ''t'', \<lambda>_. (0, ''7'', []))),
     cw_rounds = [], cw_cancels = (\<lambda>_. (0, [], []))\<rparr>"

definition demo_submit :: "(string \<times> json) list" where
  "demo_submit = [(''jobs'', JList [JObj [(''command'', JStr ''make''), (''env'', JObj [(''A'', JStr ''1'')])]])]"

lemma demo_submitted:
  "case cluster_call demo_cluster demo_cluster_world ''hpc_slurm_submit'' demo_submit cluster_init of
     (Inr (Submitted es), st1) \<Rightarrow> accepted_ids es = [''7''] | _ \<Rightarrow> False"
  by code_simp

theorem submitted_jobs_stay_known_witness:
  "let st1 = snd (cluster_call demo_cluster demo_cluster_world ''hpc_slurm_submit'' demo_submit cluster_init);
       st2 = snd (serve_calls demo_cluster
         [(demo_cluster_world, ''hpc_slurm_cancel'', [(''job_ids'', JList [JStr ''7''])]),
          (demo_cluster_world, ''hpc_slurm_jobs'', [])] st1) in
    known_entry st2 ''7'' \<noteq> Some WUnknown \<and> (''7'' \<in> evicted st2 \<or> ''7'' \<in> fst ` set (jobs st2))"
proof -
  from demo_submitted obtain es st1 where c:
    "cluster_call demo_cluster demo_cluster_world ''hpc_slurm_submit'' demo_submit cluster_init = (ok (Submitted es), st1)"
    "''7'' \<in> set (accepted_ids es)"
    by (auto split: prod.splits sum.splits cluster_reply.splits)
  from submitted_jobs_stay_known [OF c] show ?thesis unfolding Let_def c(1) snd_conv .
qed

text \<open>
  An empty duration variable, which the other servers read as unset, stops a cluster server.
\<close>

theorem empty_duration_stops_cluster:
  assumes "environ h ''HARES_SLURM_POLL_INTERVAL_SEC'' = Some []"
  shows "load_slurm_config h tmp = raise_err (ValueError ''HARES_SLURM_POLL_INTERVAL_SEC'') \<and>
    floatenv h ''HARES_SLURM_POLL_INTERVAL_SEC'' ''10'' = ok ''10''"
proof -
  have "\<not> py_float_ok []" by code_simp
  with assms show ?thesis by (simp add: load_slurm_config_def check_duration_def getenv_def floatenv_def rbind_def)
qed

theorem empty_duration_stops_cluster_witness:
  "load_slurm_config (example_host\<lparr>environ := [''HARES_SLURM_POLL_INTERVAL_SEC'' \<mapsto> []]\<rparr>) ''/tmp'' =
    raise_err (ValueError ''HARES_SLURM_POLL_INTERVAL_SEC'')"
  using empty_duration_stops_cluster [of "example_host\<lparr>environ := [''HARES_SLURM_POLL_INTERVAL_SEC'' \<mapsto> []]\<rparr>" "''/tmp''"]
  by simp

end
