(* ===== verification/Program.thy ===== *)
theory Program
  imports Servers Cluster_Server
begin

text \<open>
  The whole program: the command line of \<open>hares-mcp\<close>, the server it starts (the \<open>_serve_async\<close> of
  the four server files), and a session of what such a server meets. The theorems hold from the argument
  vector to any moment of the run.
\<close>

section \<open>Serving\<close>

text \<open>What the process finds around it: programs on its path, name resolution, the kernel's limits,
  cgroups, the cores, the world of its calls, the state files, and a fresh directory for job outputs.\<close>

record surroundings =
  su_which :: "string \<Rightarrow> string option"
  su_getaddrinfo :: "string \<Rightarrow> int \<Rightarrow> string option"
  su_as_hard :: int
  su_cpu_hard :: int
  su_cgroup :: bool
  su_cores :: "nat list"
  su_world :: world
  su_ts_ok :: "string \<Rightarrow> bool"
  su_state :: "rpath \<Rightarrow> state_disk"
  su_session_tmp :: string

datatype running =
    Tools server_cfg server bool "coordinator option"   \<comment> \<open>the flag: the ceiling follows the client's roots\<close>
  | Jobs cluster_cfg cluster

definition state_of :: "surroundings \<Rightarrow> rpath option \<Rightarrow> state_disk" where
  "state_of u f = (case f of Some p \<Rightarrow> su_state u p | None \<Rightarrow> \<lparr>main_file = None, wal_file = None\<rparr>)"

definition serve_commands ::
  "server_kind \<Rightarrow> surroundings \<Rightarrow> host \<Rightarrow> string option \<Rightarrow> rpath \<Rightarrow> bool \<Rightarrow> rpath option \<Rightarrow> bool \<Rightarrow> policy_engine option
   \<Rightarrow> running result" where
  "serve_commands kd u h sid ceil ro f use_roots pol =
     rbind (load_config h (su_which u) (su_getaddrinfo u) (Some (cwd h))) (\<lambda>cf.
     rbind (build_runner h cf ceil (su_as_hard u) (su_cpu_hard u) (su_cgroup u) (su_cores u)) (\<lambda>(co, r).
     rbind (build_server h (su_world u) (su_ts_ok u) kd sid ceil ro (f \<noteq> None) (state_of u f) pol r) (\<lambda>(c, sv).
     ok (Tools c sv use_roots (Some co)))))"

definition serve_shell ::
  "surroundings \<Rightarrow> host \<Rightarrow> string option \<Rightarrow> rpath \<Rightarrow> bool \<Rightarrow> rpath option \<Rightarrow> bool \<Rightarrow> policy_engine option \<Rightarrow> running result" where
  "serve_shell = serve_commands ShellServer"

definition serve_combined ::
  "surroundings \<Rightarrow> host \<Rightarrow> string option \<Rightarrow> rpath \<Rightarrow> bool \<Rightarrow> rpath option \<Rightarrow> bool \<Rightarrow> policy_engine option \<Rightarrow> running result" where
  "serve_combined = serve_commands CombinedServer"

text \<open>An fs server has no runner; the record holds one that nothing uses. Its ceiling does not follow roots.\<close>

definition idle_runner :: runner where
  "idle_runner = \<lparr>max_concurrent = 1, mem_bytes = MB, cpu_sec = 1, mem_max_bytes = MB, cgroup_ok = False,
     rewrite_on = False, sandbox = None, ceiling_path = None, net_policy = None, grant_list = None,
     core_pool = [], core_in_use = {}, scope_paths = None, scope_read_only = False\<rparr>"

definition serve_fs ::
  "surroundings \<Rightarrow> host \<Rightarrow> string option \<Rightarrow> rpath \<Rightarrow> bool \<Rightarrow> rpath option \<Rightarrow> running result" where
  "serve_fs u h sid ceil ro f =
     rbind (build_server h (su_world u) (su_ts_ok u) FsServer sid ceil ro (f \<noteq> None) (state_of u f) None idle_runner)
       (\<lambda>(c, sv). ok (Tools c sv False None))"

definition serve_slurm :: "surroundings \<Rightarrow> host \<Rightarrow> string option \<Rightarrow> rpath option \<Rightarrow> running result" where
  "serve_slurm u h sid ceil = rbind (load_slurm_config h (su_session_tmp u)) (\<lambda>(cfg, out).
     ok (Jobs \<lparr>cc_scheduler = ''slurm'', cc_scope_id = sid, cc_backend = slurm cfg, cc_ceiling = ceil, cc_output_dir = out\<rparr>
       cluster_init))"

definition serve_lsf :: "surroundings \<Rightarrow> host \<Rightarrow> string option \<Rightarrow> rpath option \<Rightarrow> running result" where
  "serve_lsf u h sid ceil = rbind (load_lsf_config h (su_session_tmp u)) (\<lambda>(cfg, out).
     ok (Jobs \<lparr>cc_scheduler = ''lsf'', cc_scope_id = sid, cc_backend = lsf cfg, cc_ceiling = ceil, cc_output_dir = out\<rparr>
       cluster_init))"

definition serve :: "surroundings \<Rightarrow> host \<Rightarrow> launch \<Rightarrow> running result" where
  "serve u h l = (case l of
      ServeCluster sched sid ceil \<Rightarrow> if sched = ''lsf'' then serve_lsf u h sid ceil else serve_slurm u h sid ceil
    | ServeShell sid ceil ro f use_roots pol \<Rightarrow> serve_shell u h sid ceil ro f use_roots pol
    | ServeFs sid ceil ro f use_roots \<Rightarrow> serve_fs u h sid ceil ro f
    | ServeCombined sid ceil ro f use_roots pol \<Rightarrow> serve_combined u h sid ceil ro f use_roots pol)"

section \<open>A session\<close>

datatype event = Call world string args | Listing "string list option" | Outside fsys

text \<open>One event on a server with its flag \<open>applied\<close> of the roots refiner. A listing asks for the roots
  on shell and combined servers; \<open>Outside\<close> is what commands and other processes do to the disk.\<close>

definition run_event :: "server_cfg \<Rightarrow> bool \<Rightarrow> event \<Rightarrow> bool \<times> server \<Rightarrow> bool \<times> server" where
  "run_event c use_roots e = (\<lambda>(applied, sv). case e of
      Call w name args \<Rightarrow> (applied, snd (call_tool c w name args sv))
    | Listing listed \<Rightarrow>
        (let (applied', r) = maybe_refine (rt_host (sv_rt sv)) use_roots listed (applied, sv_runner sv)
         in (applied', sv\<lparr>sv_runner := r\<rparr>))
    | Outside d \<Rightarrow> (applied, sv\<lparr>sv_rt := (sv_rt sv)\<lparr>rt_host := (rt_host (sv_rt sv))\<lparr>disk := d\<rparr>\<rparr>\<rparr>))"

definition session :: "server_cfg \<Rightarrow> bool \<Rightarrow> event list \<Rightarrow> server \<Rightarrow> server" where
  "session c use_roots es sv = snd (fold (run_event c use_roots) es (False, sv))"

lemma run_event_serves: "serves c (snd st) (snd (run_event c use_roots e st))"
proof (cases e)
  case (Call w name args)
  then show ?thesis
    by (auto simp: run_event_def split: prod.splits intro!: serves.tool_call surjective_pairing)
next
  case (Listing listed)
  obtain applied r where m: "maybe_refine (rt_host (sv_rt (snd st))) use_roots listed (fst st, sv_runner (snd st)) = (applied, r)"
    by (cases "maybe_refine (rt_host (sv_rt (snd st))) use_roots listed (fst st, sv_runner (snd st))")
  with Listing serves.list_tools [OF m, of c] show ?thesis by (simp add: run_event_def case_prod_beta')
next
  case (Outside d)
  then show ?thesis by (auto simp: run_event_def case_prod_beta' intro: serves.disk_change)
qed

lemma session_induct:
  assumes "P sv" "\<And>st e. P (snd st) \<Longrightarrow> e \<in> set es \<Longrightarrow> P (snd (run_event c use_roots e st))"
  shows "P (session c use_roots es sv)"
proof -
  have "P (snd (fold (run_event c use_roots) xs st))" if "P (snd st)" "set xs \<subseteq> set es" for xs st
    using that
  proof (induction xs arbitrary: st)
    case (Cons e xs)
    from Cons.prems assms(2) [of st e] have "P (snd (run_event c use_roots e st))" by simp
    from Cons.IH [OF this] Cons.prems show ?case by simp
  qed simp
  from this [of "(False, sv)" es] assms(1) show ?thesis by (simp add: session_def)
qed

lemma session_serves: "(serves c)\<^sup>*\<^sup>* sv (session c use_roots es sv)"
  by (rule session_induct) (auto intro: rtranclp.rtrancl_into_rtrancl run_event_serves)

section \<open>What a session keeps\<close>

text \<open>The parts of a server no call changes: the configuration of its store, the sandbox and the network
  policy of its runner, and without roots the runner's ceiling.\<close>

definition fixed_parts :: "server \<Rightarrow> store_cfg \<times> sandbox_config option \<times> network_policy option \<times> int \<times> int \<times> int" where
  "fixed_parts sv = (cfg (rt_store (sv_rt sv)), sandbox (sv_runner sv), net_policy (sv_runner sv),
     mem_bytes (sv_runner sv), cpu_sec (sv_runner sv), mem_max_bytes (sv_runner sv))"

lemma restrict_cfg: "restrict mac now rt args = (res, rt') \<Longrightarrow> cfg (rt_store rt') = cfg (rt_store rt)"
  unfolding restrict_def
  by (auto split: json.splits sum.splits prod.splits py_error.splits dest: store_set_ok(2))

lemma handler_keeps_parts:
  "fixed_parts (snd (run_handler c w k args sv)) = fixed_parts sv \<and>
   ceiling_path (sv_runner (snd (run_handler c w k args sv))) = ceiling_path (sv_runner sv)"
proof (cases k)
  case (HExec high)
  show ?thesis
    using exec_keeps_runner [of "exec_env_of w sv" "sc_policy c" "w_client w" "(sv_runner sv)\<lparr>grant_list := Some (sv_grants sv)\<rparr>" args]
    by (cases high) (auto simp: run_handler_def HExec fixed_parts_def spend_once_def case_prod_beta')
next
  case HRestrict
  show ?thesis
    using restrict_cfg [of "w_mac w" "w_now w" "sv_rt sv" args]
    by (cases "restrict (w_mac w) (w_now w) (sv_rt sv) args")
      (simp add: run_handler_def HRestrict fixed_parts_def push_scope_def set_active_scope_def)
qed (simp add: run_handler_def fixed_parts_def case_prod_beta' Let_def)+

lemma event_keeps_parts:
  "fixed_parts (snd (run_event c use_roots e st)) = fixed_parts (snd st) \<and>
   (use_roots \<or> ceiling_path (sv_runner (snd (run_event c use_roots e st))) = ceiling_path (sv_runner (snd st)))"
proof (cases e)
  case (Call w name args)
  then show ?thesis
    using handler_keeps_parts [of c w _ args "snd st"]
    by (simp add: run_event_def case_prod_beta' call_tool_def split: option.split)
next
  case (Listing listed)
  then show ?thesis
    by (auto simp: run_event_def case_prod_beta' fixed_parts_def maybe_refine_def update_ceiling_def Let_def
      split: sum.splits option.splits)
next
  case (Outside d)
  then show ?thesis by (simp add: run_event_def case_prod_beta' fixed_parts_def)
qed

lemma session_keeps_parts:
  "fixed_parts (session c use_roots es sv) = fixed_parts sv \<and>
   (use_roots \<or> ceiling_path (sv_runner (session c use_roots es sv)) = ceiling_path (sv_runner sv))"
proof (rule session_induct)
  fix st :: "bool \<times> server" and e
  assume a: "fixed_parts (snd st) = fixed_parts sv \<and> (use_roots \<or> ceiling_path (sv_runner (snd st)) = ceiling_path (sv_runner sv))"
  from event_keeps_parts [of c use_roots e st] a
  show "fixed_parts (snd (run_event c use_roots e st)) = fixed_parts sv \<and>
    (use_roots \<or> ceiling_path (sv_runner (snd (run_event c use_roots e st))) = ceiling_path (sv_runner sv))"
    by metis
qed simp

section \<open>From the command line to any moment of a run\<close>

definition launch_read_only :: "launch \<Rightarrow> bool" where
  "launch_read_only l = (case l of ServeCluster e s c \<Rightarrow> False | ServeShell s c ro f u p \<Rightarrow> ro
     | ServeFs s c ro f u \<Rightarrow> ro | ServeCombined s c ro f u p \<Rightarrow> ro)"

definition deny_below :: "host \<Rightarrow> rpath \<Rightarrow> deny_lists \<Rightarrow> bool" where
  "deny_below h c d \<longleftrightarrow> list_all (\<lambda>p. resolved_on h p \<and> strict_prefix c p) (exclude d @ protect d)"

text \<open>The environment that turns the sandbox off.\<close>

definition sandbox_turned_off :: "host \<Rightarrow> bool" where
  "sandbox_turned_off h \<longleftrightarrow> lower_str (strip_str (getenv h ''HARES_SANDBOX_DISABLED'' [])) \<in> {''1'', ''true'', ''yes'', ''on''} \<or>
     lower_str (strip_str (getenv h ''HARES_SANDBOX_MODE'' [])) \<in> {''none'', ''off'', ''false'', ''0''}"

lemma build_server_parts:
  assumes "build_server h w ts_ok kd sid ceil ro persist d pol r = ok (c, sv)"
  shows "sc_kind c = kd" "sc_ceiling c = ceil" "sc_read_only c = ro" "resolve_deny_lists h (rpath_path ceil) = ok (sc_deny c)"
    "cfg_ceiling (cfg (rt_store (sv_rt sv))) = ceil" "cfg_persist (cfg (rt_store (sv_rt sv))) = persist"
    "sandbox (sv_runner sv) = sandbox r" "ceiling_path (sv_runner sv) = ceiling_path r"
  using assms by (auto simp: build_server_def Let_def store_init_def push_scope_def set_active_scope_def split: prod.splits)

lemma deny_lists_below:
  assumes "deny_inside h c ''HARES_SANDBOX_EXCLUDE''" "deny_inside h c ''HARES_SANDBOX_PROTECT''"
    and "resolve_deny_lists h (rpath_path c) = ok d"
  shows "deny_below h c d"
proof -
  from assms(3) obtain ex pr where l: "load_denylist h ''HARES_SANDBOX_EXCLUDE'' (rpath_path c) = ok ex"
      "load_denylist h ''HARES_SANDBOX_PROTECT'' (rpath_path c) = ok pr" and d: "d = \<lparr>exclude = ex, protect = pr\<rparr>"
    unfolding resolve_deny_lists_def get_exclude_list_def get_protect_list_def by auto
  from assms(1,2) l show ?thesis by (simp add: deny_inside_def deny_below_def d)
qed

lemma build_runner_sandbox:
  assumes "load_config h which gai d = ok cf" "build_runner h cf ceil a b cg cores = ok (co, r)"
  shows "ceiling_path r = Some ceil" "sandbox r = None \<longleftrightarrow> sandbox_turned_off h"
proof -
  from assms(1) obtain d' where sb: "load_sandbox_config h which d' = ok (cf_sandbox cf)"
    by (auto simp: load_config_def Let_def)
  from load_sandbox_fails_closed [of h which d'] sb
  have e: "enabled (cf_sandbox cf) \<longleftrightarrow> \<not> sandbox_turned_off h" by (auto simp: sandbox_turned_off_def split: if_splits)
  from assms(2) have r: "sandbox r = (if enabled (cf_sandbox cf) then Some (cf_sandbox cf) else None)" "ceiling_path r = Some ceil"
    by (auto simp: build_runner_def Runner_def Let_def split: if_splits)
  from r(2) show "ceiling_path r = Some ceil" .
  from r(1) e show "sandbox r = None \<longleftrightarrow> sandbox_turned_off h" by simp
qed

definition keeps_promises :: "host \<Rightarrow> launch \<Rightarrow> server_cfg \<Rightarrow> bool \<Rightarrow> server \<Rightarrow> bool" where
  "keeps_promises h l c use_roots sv \<longleftrightarrow>
     sound_ceiling h (sc_ceiling c) \<and> deny_below h (sc_ceiling c) (sc_deny c) \<and>
     binds_clear h ''HARES_SANDBOX_RW'' \<and> binds_clear h ''HARES_SANDBOX_RO'' \<and>
     (cfg_persist (cfg (rt_store (sv_rt sv))) \<longrightarrow> strip_str (getenv h ''HARES_STATE_HMAC_SECRET'' []) \<noteq> []) \<and>
     cfg_ceiling (cfg (rt_store (sv_rt sv))) = sc_ceiling c \<and>
     (sc_kind c = FsServer \<or>
       (scope_paths (sv_runner sv) = (if paths (scope (rt_store (sv_rt sv))) = [] then None
          else Some (paths (scope (rt_store (sv_rt sv))))) \<and>
        scope_read_only (sv_runner sv) = launch_read_only l \<and>
        (sandbox (sv_runner sv) = None \<longleftrightarrow> sandbox_turned_off h) \<and>
        (use_roots \<or> ceiling_path (sv_runner sv) = Some (sc_ceiling c))))"

lemma served_fs:
  assumes "serve_fs u h sid ceil ro f = ok (Tools c sv use_roots co)"
  obtains d where
    "build_server h (su_world u) (su_ts_ok u) FsServer sid ceil ro (f \<noteq> None) d None idle_runner = ok (c, sv)"
  using assms by (fastforce simp: serve_fs_def split: prod.splits)

lemma served_commands:
  assumes "serve_commands kd u h sid ceil ro f ur pol = ok (Tools c sv use_roots co)"
  obtains r d where
    "build_server h (su_world u) (su_ts_ok u) kd sid ceil ro (f \<noteq> None) d pol r = ok (c, sv)"
    "ceiling_path r = Some ceil" "sandbox r = None \<longleftrightarrow> sandbox_turned_off h"
proof -
  from assms obtain cf co' r where l: "load_config h (su_which u) (su_getaddrinfo u) (Some (cwd h)) = ok cf"
      "build_runner h cf ceil (su_as_hard u) (su_cpu_hard u) (su_cgroup u) (su_cores u) = ok (co', r)"
      "build_server h (su_world u) (su_ts_ok u) kd sid ceil ro (f \<noteq> None) (state_of u f) pol r = ok (c, sv)"
    by (fastforce simp: serve_commands_def split: prod.splits)
  from that [OF l(3) build_runner_sandbox [OF l(1,2)]] show thesis .
qed

lemma served_tools:
  assumes "serve u h l = ok (Tools c sv use_roots co)"
  obtains ceil f kd sid d pol r where "launched l = Some (ceil, f)"
    "build_server h (su_world u) (su_ts_ok u) kd sid ceil (launch_read_only l) (f \<noteq> None) d pol r = ok (c, sv)"
    "kd = FsServer \<or> (ceiling_path r = Some ceil \<and> (sandbox r = None \<longleftrightarrow> sandbox_turned_off h))"
proof (cases l)
  case (ServeCluster sched sid ceil)
  with assms show thesis by (auto simp: serve_def serve_lsf_def serve_slurm_def split: if_splits prod.splits)
next
  case (ServeShell sid ceil ro f ur pol)
  with assms have "serve_commands ShellServer u h sid ceil ro f ur pol = ok (Tools c sv use_roots co)"
    by (simp add: serve_def serve_shell_def)
  then obtain r d where
    "build_server h (su_world u) (su_ts_ok u) ShellServer sid ceil ro (f \<noteq> None) d pol r = ok (c, sv)"
    "ceiling_path r = Some ceil" "sandbox r = None \<longleftrightarrow> sandbox_turned_off h"
    by (rule served_commands)
  with that [of ceil f ShellServer sid d pol r] ServeShell show thesis
    by (simp add: launched_def launch_read_only_def)
next
  case (ServeFs sid ceil ro f ur)
  with assms have "serve_fs u h sid ceil ro f = ok (Tools c sv use_roots co)" by (simp add: serve_def)
  then obtain d where
    "build_server h (su_world u) (su_ts_ok u) FsServer sid ceil ro (f \<noteq> None) d None idle_runner = ok (c, sv)"
    by (rule served_fs)
  with that [of ceil f FsServer sid d None idle_runner] ServeFs show thesis
    by (simp add: launched_def launch_read_only_def)
next
  case (ServeCombined sid ceil ro f ur pol)
  with assms have "serve_commands CombinedServer u h sid ceil ro f ur pol = ok (Tools c sv use_roots co)"
    by (simp add: serve_def serve_combined_def)
  then obtain r d where
    "build_server h (su_world u) (su_ts_ok u) CombinedServer sid ceil ro (f \<noteq> None) d pol r = ok (c, sv)"
    "ceiling_path r = Some ceil" "sandbox r = None \<longleftrightarrow> sandbox_turned_off h"
    by (rule served_commands)
  with that [of ceil f CombinedServer sid d pol r] ServeCombined show thesis
    by (simp add: launched_def launch_read_only_def)
qed


section \<open>A read-only program\<close>

definition only_adds_directories :: "fsys \<Rightarrow> fsys \<Rightarrow> bool" where
  "only_adds_directories d d' \<longleftrightarrow> (\<forall>p. node_at d' p = node_at d p \<or> (node_at d p = None \<and> node_at d' p = Some DirN))"

lemma only_adds_trans: "only_adds_directories d d1 \<Longrightarrow> only_adds_directories d1 d2 \<Longrightarrow> only_adds_directories d d2"
  unfolding only_adds_directories_def by metis

definition disk_of :: "server \<Rightarrow> fsys" where
  "disk_of sv = disk (rt_host (sv_rt sv))"

lemma read_only_event:
  assumes "sc_read_only c" "\<forall>d. e \<noteq> Outside d"
  shows "only_adds_directories (disk_of (snd st)) (disk_of (snd (run_event c use_roots e st)))"
    and "(\<forall>w args. e \<noteq> Call w (prefixed ''restrict_paths'' (sc_scope_id c)) args) \<Longrightarrow>
      rt_host (sv_rt (snd (run_event c use_roots e st))) = rt_host (sv_rt (snd st))"
proof -
  have "only_adds_directories (disk_of (snd st)) (disk_of (snd (run_event c use_roots e st))) \<and>
    ((\<forall>w args. e \<noteq> Call w (prefixed ''restrict_paths'' (sc_scope_id c)) args) \<longrightarrow>
      rt_host (sv_rt (snd (run_event c use_roots e st))) = rt_host (sv_rt (snd st)))"
  proof (cases e)
    case (Call w name args)
    obtain res sv' where r: "call_tool c w name args (snd st) = (res, sv')" by (cases "call_tool c w name args (snd st)")
    from read_only_server_disk [OF assms(1) r] Call r show ?thesis
      by (auto simp: run_event_def case_prod_beta' only_adds_directories_def disk_of_def split: if_splits)
  next
    case (Listing listed)
    then show ?thesis
      by (simp add: run_event_def case_prod_beta' only_adds_directories_def disk_of_def Let_def)
  qed (use assms(2) in blast)
  then show "only_adds_directories (disk_of (snd st)) (disk_of (snd (run_event c use_roots e st)))"
    "(\<forall>w args. e \<noteq> Call w (prefixed ''restrict_paths'' (sc_scope_id c)) args) \<Longrightarrow>
      rt_host (sv_rt (snd (run_event c use_roots e st))) = rt_host (sv_rt (snd st))" by blast+
qed


section \<open>A concrete run\<close>

definition demo_surroundings :: surroundings where
  "demo_surroundings = \<lparr>su_which = Some, su_getaddrinfo = (\<lambda>_ _. None), su_as_hard = -1, su_cpu_hard = -1,
     su_cgroup = True, su_cores = [0, 1], su_world = demo_world, su_ts_ok = (\<lambda>_. True),
     su_state = (\<lambda>_. \<lparr>main_file = None, wal_file = None\<rparr>), su_session_tmp = ''/tmp/out''\<rparr>"

definition demo_argv :: "string list" where
  "demo_argv = [''--enable=fs+shell'', ''--scope-id'', ''src'', ''--read-only'']"

definition demo_events :: "event list" where
  "demo_events = [Listing None, Call demo_world ''src_write_file'' [(''path'', JStr ''f''), (''content'', JStr ''x'')],
     Call demo_world ''src_restrict_paths'' [(''paths'', JList [JStr ''a''])]]"

lemma demo_run:
  "\<exists>l h1 c sv co. hares_mcp default_host demo_argv = ok (Serving l h1) \<and>
     serve demo_surroundings h1 l = ok (Tools c sv True co) \<and> launch_read_only l"
proof -
  have "case hares_mcp default_host demo_argv of
      Inr (Serving l h1) \<Rightarrow> launch_read_only l \<and>
        (case serve demo_surroundings h1 l of Inr (Tools c sv ur co) \<Rightarrow> ur | _ \<Rightarrow> False) | _ \<Rightarrow> False"
    by code_simp
  then obtain l h1 where h: "hares_mcp default_host demo_argv = ok (Serving l h1)" "launch_read_only l"
      and s: "case serve demo_surroundings h1 l of Inr (Tools c sv ur co) \<Rightarrow> ur | _ \<Rightarrow> False"
    by (cases "hares_mcp default_host demo_argv") (auto split: program.splits)
  from s obtain c sv co where "serve demo_surroundings h1 l = ok (Tools c sv True co)"
    by (cases "serve demo_surroundings h1 l") (auto split: running.splits)
  with h show ?thesis by blast
qed



end
