(* ===== verification/Tool_Schemas.thy ===== *)
theory Tool_Schemas
  imports Program
begin

text \<open>
  The declared tools against their handlers. A server lists exactly the tools it dispatches, and a call whose
  arguments the library's validator lets through never meets a missing or an ill-typed argument: the
  schemas are the types of the handlers.
\<close>

section \<open>Errors of shape\<close>

text \<open>The exceptions of an argument that is missing or of the wrong type.\<close>

fun shape_error :: "py_error \<Rightarrow> bool" where
  "shape_error (KeyError k) = True"
| "shape_error (TypeError s) = True"
| "shape_error (AttributeError s) = True"
| "shape_error _ = False"

definition well_shaped :: "'a result \<Rightarrow> bool" where
  "well_shaped x \<longleftrightarrow> (case x of Inl e \<Rightarrow> \<not> shape_error e | Inr y \<Rightarrow> True)"

definition act_shaped :: "'a act \<Rightarrow> bool" where
  "act_shaped m \<longleftrightarrow> (\<forall>s. well_shaped (fst (m s)))"

named_theorems shaped

lemma well_shaped_simps [simp]: "well_shaped (ok x)" "well_shaped (Inl e) \<longleftrightarrow> \<not> shape_error e"
  by (simp_all add: well_shaped_def)

lemma well_shapedI: "(\<And>e. x = Inl e \<Longrightarrow> \<not> shape_error e) \<Longrightarrow> well_shaped x"
  by (cases x) simp_all

lemma shaped_rbind [shaped]: "well_shaped r \<Longrightarrow> (\<And>x. r = ok x \<Longrightarrow> well_shaped (f x)) \<Longrightarrow> well_shaped (rbind r f)"
  by (cases r) (simp_all add: rbind_def)

lemma shaped_map [simp]: "well_shaped (map_sum id f r) \<longleftrightarrow> well_shaped r"
  by (cases r) simp_all

lemma shaped_from_option [shaped]: "\<not> shape_error e \<Longrightarrow> well_shaped (from_option e x)"
  by (simp add: from_option_def split: option.split)

lemma shaped_collect [shaped]: "(\<And>x. x \<in> set xs \<Longrightarrow> well_shaped (f x)) \<Longrightarrow> well_shaped (collect f xs)"
  by (induction xs) (auto intro!: shaped)

lemma shaped_check_all [shaped]: "(\<And>x. well_shaped (f x)) \<Longrightarrow> well_shaped (check_all f xs)"
  by (induction xs) (auto intro!: shaped)

lemma shaped_filter_res [shaped]: "(\<And>x. well_shaped (f x)) \<Longrightarrow> well_shaped (filter_res f xs)"
  by (induction xs) (auto intro!: shaped)

lemma act_shapedI: "(\<And>s e s'. m s = (Inl e, s') \<Longrightarrow> \<not> shape_error e) \<Longrightarrow> act_shaped m"
  unfolding act_shaped_def by (metis prod.collapse well_shapedI)

lemma act_shapedD: "act_shaped m \<Longrightarrow> m s = (Inl e, s') \<Longrightarrow> \<not> shape_error e"
  unfolding act_shaped_def by (metis fst_conv well_shaped_simps(2))

lemma act_shaped_bind [shaped]: "act_shaped m \<Longrightarrow> (\<And>x. act_shaped (f x)) \<Longrightarrow> act_shaped (act_bind m f)"
  by (rule act_shapedI) (auto simp: act_bind_def dest: act_shapedD split: prod.splits sum.splits)

lemma act_shaped_ret [shaped]: "act_shaped (act_ret x)"
  by (simp add: act_shaped_def act_ret_def)

lemma act_shaped_ask [shaped]: "(\<And>s. well_shaped (f s)) \<Longrightarrow> act_shaped (act_ask f)"
  by (simp add: act_shaped_def act_ask_def)

lemma act_shaped_disk [shaped]: "(\<And>d. well_shaped (f d)) \<Longrightarrow> act_shaped (act_disk f)"
  by (rule act_shapedI) (auto simp: act_disk_def split: sum.splits, metis well_shaped_simps(2))

lemma act_shaped_map [shaped]: "act_shaped m \<Longrightarrow> act_shaped (act_map f m)"
  unfolding act_map_def by (intro shaped)

section \<open>The checks and system calls\<close>

lemma shaped_checks [shaped]:
  "well_shaped (validate_path_no_traversal s)" "well_shaped (validate_path_no_system_dir h p bl)"
  "well_shaped (get_exclude_list h c)" "well_shaped (get_protect_list h c)"
  unfolding validate_path_no_traversal_def validate_path_no_system_dir_def get_exclude_list_def get_protect_list_def load_denylist_def
  by (auto simp: Let_def intro!: shaped)

lemma shaped_deny [shaped]: "well_shaped (validate_path_not_excluded h r c l)" "well_shaped (validate_path_not_protected h r c l)"
  unfolding validate_path_not_excluded_def validate_path_not_protected_def by (auto intro!: shaped split: option.split)

lemma shaped_resolution [shaped]:
  "well_shaped (validate_grant_target h r m co d)" "well_shaped (resolve_path_arg h s b)" "well_shaped (finish_under_ceiling h r c l)"
  "well_shaped (resolve_under_ceiling h s c l)"
  unfolding validate_grant_target_def resolve_under_ceiling_def resolve_path_arg_def finish_under_ceiling_def
  by (auto simp: Let_def intro!: shaped split: option.split)

lemma shaped_system_calls [shaped]:
  "well_shaped (read_text d t)" "well_shaped (write_text d t s)" "well_shaped (mkdir_p d t)" "well_shaped (rename_node d t t2)"
  "well_shaped (iterdir h t)"
  by (simp_all add: read_text_def write_text_def mkdir_p_def rename_node_def iterdir_def split: option.split node.split)

section \<open>File operations\<close>

lemma shaped_op_resolve [shaped]: "act_shaped (op_resolve ctx p w)"
proof -
  have "well_shaped (fst (op_resolve ctx p w s))" for s
    using shaped_resolution by (auto simp: op_resolve_def Let_def split: sum.split option.split)
      (metis well_shaped_simps(2))+
  then show ?thesis by (simp add: act_shaped_def)
qed

lemma shaped_ensure [shaped]: "act_shaped (ensure_under_active_scope ctx t)"
  unfolding ensure_under_active_scope_def in_active_scope_def Let_def
  by (auto intro!: shaped split: option.split)

lemma shaped_listing [shaped]:
  "well_shaped (exclude_list h c d)" "well_shaped (is_hidden h p ex)" "well_shaped (visible_children h p ex)"
  unfolding exclude_list_def visible_children_def is_hidden_def by (auto intro!: shaped split: option.split)

lemma shaped_walk_tree [shaped]: "well_shaped (walk_tree h ex n p)"
proof (induction h ex n p rule: walk_tree.induct)
  case (2 h ex n p)
  have "well_shaped (rbind (visible_children h p ex) (collect (walk_tree h ex n)))" if "is_dir h p"
    using 2 that by (auto intro!: shaped)
  then show ?case by (auto split: sum.split)
qed simp

lemma shaped_search_walk [shaped]: "well_shaped (search_walk h ex pat n p)"
proof (induction n arbitrary: p)
  case (Suc n)
  show ?case by (auto simp: Let_def intro!: shaped Suc split: sum.split)
qed simp

lemma shaped_edits [shaped]: "well_shaped (apply_edits t es s n)"
  by (induction t es s n rule: apply_edits.induct) (simp_all add: Let_def)

lemma shaped_read_multiple [shaped]: "act_shaped (read_multiple_files ctx ps out)"
proof -
  have "well_shaped (fst (read_multiple_files ctx ps out s))" for s
  proof (induction ctx ps out s rule: read_multiple_files.induct)
    case (2 ctx p ps out s)
    let ?m = "act_bind (op_resolve ctx p False) (\<lambda>target. act_ask (\<lambda>st. read_text (disk (host_of st)) target))"
    have "act_shaped ?m" by (intro shaped)
    then have "well_shaped (fst (?m s))" by (simp add: act_shaped_def)
    with 2 show ?case by (auto split: prod.split sum.split)
  qed simp
  then show ?thesis by (simp add: act_shaped_def)
qed

text \<open>No operation on typed arguments raises an error of shape.\<close>

lemma shaped_typed_call: "act_shaped (typed_call ctx op a)"
  by (cases op)
    (auto simp: read_text_file_def read_file_def list_directory_def list_directory_with_sizes_def directory_tree_def
      search_files_def get_file_info_def write_file_def edit_file_def create_directory_def move_file_def Let_def case_prod_beta'
      intro!: shaped split: option.split)

section \<open>Narrowing and grants\<close>

text \<open>These two handlers check the types of their arguments themselves.\<close>

lemma shaped_restrict_target [shaped]: "well_shaped (restrict_target h cl p)"
  by (cases p) (auto simp: restrict_target_def intro!: shaped)

lemma shaped_restrict_targets: "restrict_targets h cl ps = (Inl e, h') \<Longrightarrow> \<not> shape_error e"
proof (induction h cl ps arbitrary: h' rule: restrict_targets.induct)
  case (2 h cl p ps)
  show ?case
  proof (cases "restrict_target h cl p")
    case (Inl e')
    with shaped_restrict_target [of h cl p] 2(2) show ?thesis by simp
  next
    case (Inr y)
    then show ?thesis using 2(1) [OF Inr] 2(2) by (cases y) (auto split: sum.splits prod.splits)
  qed
qed simp

lemma shaped_store_set [shaped]: "well_shaped (store_set h mac now st ps ex)"
  unfolding store_set_def by (auto simp: Let_def intro!: shaped)

lemma shaped_restrict: "well_shaped (fst (restrict mac now st a))"
proof -
  have e: "\<not> shape_error e" if "expected_seq_arg a = Inl e" for e
    using that by (auto simp: expected_seq_arg_def split: option.splits json.splits if_splits)
  have v: "\<not> shape_error e" if "store_set h mac now st ps ex = Inl e" for h st ps ex e
    using shaped_store_set [of h mac now st ps ex] that by simp
  show ?thesis
    by (rule well_shapedI) (auto simp: restrict_def split: json.splits sum.splits prod.splits option.splits py_error.splits dest: e v shaped_restrict_targets)
qed

lemma shaped_request_path_access: "well_shaped (fst (request_path_access h g cl gs a))"
proof -
  have r: "\<not> shape_error e" if "resolve_path_arg h s b = Inl e" for s b e
    using shaped_resolution(2) [of h s b] that by simp
  have v: "\<not> shape_error e" if "validate_grant_target h t m c d = Inl e" for t m c d e
    using shaped_resolution(1) [of h t m c d] that by simp
  show ?thesis
    by (rule well_shapedI) (auto simp: request_path_access_def Let_def split: json.splits sum.splits option.splits if_splits dest: r v)
qed

section \<open>Commands\<close>

lemma shaped_run_pass: "(\<And>t nx. well_shaped (f t nx)) \<Longrightarrow> well_shaped (run_pass f ts)"
  by (induction f ts rule: run_pass.induct) (auto intro!: shaped split: option.split step.split list.split)

lemma shaped_steps [shaped]: "well_shaped (xdist_step b t nx)" "well_shaped (jobs_step p b t nx)"
  by (auto simp: xdist_step_def jobs_step_def with_int_def Let_def split: option.split xdist_token.split jobs_token.split)

lemma shaped_inspected [shaped]: "well_shaped (inspected r rq)"
  unfolding inspected_def inspect_command_def pass_if_def rewrite_pytest_xdist_def rewrite_jobs_flag_def
  by (auto simp: Let_def case_prod_beta' intro!: shaped shaped_run_pass split: sum.split)

lemma shaped_effective_sandbox [shaped]: "well_shaped (effective_sandbox h r)"
  unfolding effective_sandbox_def resolve_blacklist_def resolve_entries_def
  by (auto simp: Let_def intro!: shaped split: option.split)

lemma shaped_argv [shaped]:
  "well_shaped (build_bwrap_argv h sb cmd d sync scr)" "well_shaped (build_scope_argv av m nm sw)"
  "well_shaped (sandboxed_argv h r sb cmd d sl fd agg sn)"
  by (auto simp: sandboxed_argv_def insert_at_first_def build_bwrap_argv_def build_scope_argv_def intro!: shaped split: option.split)

lemma shaped_prepare [shaped]: "well_shaped (prepare h sl fd sn r rq)"
  unfolding prepare_def by (auto simp: Let_def case_prod_beta' intro!: shaped split: option.split)

lemma shaped_started [shaped]: "well_shaped (started h sl r)"
  using shaped_effective_sandbox [of h r]
  by (auto simp: started_def namespace_ready_def os_read_def split: sum.split)

lemma shaped_run_call:
  assumes "\<And>p. well_shaped (ex_os ev p)"
  shows "well_shaped (fst (run_call ev r rq))"
  using shaped_prepare [of "ex_host ev" "ex_slirp ev" "ex_fd ev" "ex_scope ev" r rq]
  by (auto simp: run_call_def intro!: shaped assms split: sum.split)

text \<open>What a conforming call asks for.\<close>

definition int_at :: "args \<Rightarrow> string \<Rightarrow> int option" where
  "int_at a k = (case map_of a k of Some (JInt n) \<Rightarrow> Some n | _ \<Rightarrow> None)"

definition request_of :: "args \<Rightarrow> bool \<Rightarrow> request" where
  "request_of a high = \<lparr>rq_command = str_at a ''command'', rq_cwd = map_option string_of (map_of a ''cwd''),
     rq_weight = (case int_at a ''weight'' of None \<Rightarrow> 1 | Some n \<Rightarrow> n), rq_mem_mb = int_at a ''mem_limit_mb'',
     rq_cpu_sec = int_at a ''cpu_limit_sec'', rq_high_memory = high\<rparr>"

lemma conforming_request:
  assumes "conforms EXEC_INPUT_SCHEMA (JObj a)"
  shows "read_command a = ok (str_at a ''command'')" "read_request a high = ok (request_of a high)"
    "raw_mb a = ok (int_at a ''mem_limit_mb'')"
proof -
  note s = assms [unfolded EXEC_INPUT_SCHEMA_def]
  note opt = optional_field [OF s]
  have cmd: "map_of a ''command'' = Some (JStr (str_at a ''command''))" by (rule string_field [OF s]) simp_all
  have i: "int_arg a k = ok (int_at a k) \<and> (map_of a k = None \<or> (\<exists>n. map_of a k = Some (JInt n)))"
    if "(k, TInteger (Some 1)) \<in> set [(''command'', TString None), (''cwd'', TString None), (''env'', TMap (TString None)), (''timeout'', TNumber),
      (''weight'', TInteger (Some 1)), (''mem_limit_mb'', TInteger (Some 1)), (''cpu_limit_sec'', TInteger (Some 1)),
      (''stdin'', TString None)]" for k
    using opt [OF that] by (auto simp: shape_facts int_arg_def int_at_def int_of_arg_def)
  have st: "str_arg a k = ok (map_option string_of (map_of a k))"
    if "(k, TString None) \<in> set [(''command'', TString None), (''cwd'', TString None), (''env'', TMap (TString None)), (''timeout'', TNumber),
      (''weight'', TInteger (Some 1)), (''mem_limit_mb'', TInteger (Some 1)), (''cpu_limit_sec'', TInteger (Some 1)),
      (''stdin'', TString None)]" for k
    using opt [OF that] by (auto simp: shape_facts str_arg_def string_of_def)
  have t: "(case map_of a ''timeout'' of None \<Rightarrow> ok () | Some j \<Rightarrow> float_of_arg j) = ok ()"
    using opt [of "''timeout''" TNumber] by (auto simp: shape_facts float_of_arg_def)
  have w: "(case map_of a ''weight'' of None \<Rightarrow> ok 1 | Some j \<Rightarrow> int_of_arg j) = ok (case int_at a ''weight'' of None \<Rightarrow> 1 | Some n \<Rightarrow> n)"
    using i [of "''weight''"] by (auto simp: int_at_def int_of_arg_def)
  have e: "(case jget a ''env'' of JObj kvs \<Rightarrow> ok () | j \<Rightarrow> if truthy j then raise_err (TypeError ''env'') else ok ()) = ok ()"
    using opt [of "''env''" "TMap (TString None)"] by (auto simp: shape_facts)
  show c: "read_command a = ok (str_at a ''command'')" by (simp add: read_command_def cmd)
  show "read_request a high = ok (request_of a high)"
    using i [of "''mem_limit_mb''"] i [of "''cpu_limit_sec''"]
    by (simp add: read_request_def c t w e st request_of_def del: jget.simps)
  show "raw_mb a = ok (int_at a ''mem_limit_mb'')"
    using i [of "''mem_limit_mb''"] by (auto simp: raw_mb_def int_at_def)
qed

lemma shaped_exec:
  assumes "conforms EXEC_INPUT_SCHEMA (JObj a)" "\<And>p. well_shaped (ex_os ev p)"
  shows "well_shaped (fst (execute_command ev pol cl r a))" "well_shaped (fst (execute_high_memory ev pol cl r a))"
proof -
  have h: "well_shaped (fst (with_hint x)) = well_shaped (fst x)" "well_shaped (fst (without_hint x)) = well_shaped (fst x)" for x
    by (auto simp: with_hint_def without_hint_def split: prod.split sum.split)
  note run = shaped_run_call [OF assms(2)]
  show "well_shaped (fst (execute_command ev pol cl r a))"
    by (simp add: execute_command_gates conforming_request [OF assms(1)] h run_args_def run)
  show "well_shaped (fst (execute_high_memory ev pol cl r a))"
    by (simp add: execute_high_memory_def conforming_request [OF assms(1)] h run_args_def run)
qed

section \<open>Listed and dispatched\<close>

fun handler_schema :: "handler \<Rightarrow> schema" where
  "handler_schema (HFs op) = op_schema op"
| "handler_schema (HExec high) = EXEC_INPUT_SCHEMA"
| "handler_schema HRestrict = TObject [(''paths'', TArray (TString None) 0), (''expected_seq'', TInteger (Some 0))] [''paths'']"
| "handler_schema HActive = TObject [] []"
| "handler_schema HGrant = TObject [(''path'', TString None), (''mode'', TString (Some [''ro'', ''rw''])), (''reason'', TString None)]
     [''path'', ''mode'', ''reason'']"

lemma descriptors_of_handlers: "descriptors c = map (\<lambda>(n, k). (n, handler_schema k)) (handlers c)"
  by (cases "sc_kind c")
    (simp_all add: descriptors_def handlers_def base_tools_eq op_descriptor_def [abs_def] Let_def restrict_tool_descriptors_def
      shell_exec_tool_descriptors_def combined_exec_tool_descriptors_def request_path_access_tool_descriptor_def comp_def)

lemma listed_handler:
  assumes "(name, s) \<in> set (descriptors c)"
  obtains k where "map_of (handlers c) name = Some k" "s = handler_schema k"
proof -
  from assms obtain k where k: "(name, k) \<in> set (handlers c)" "s = handler_schema k"
    by (auto simp: descriptors_of_handlers)
  with handlers_distinct [of c] have "map_of (handlers c) name = Some k" by simp
  with k that show thesis by blast
qed

lemma tool_listed:
  assumes "(name, s) \<in> set (cluster_descriptors c)"
  obtains t where "tool_of c name = Some t" "s = tool_schema t"
proof -
  from assms obtain t where t: "name = prefixed (cc_scheduler c @ tool_suffix t) (cc_scope_id c)" "s = tool_schema t" "t \<in> set ALL_TOOLS"
    by (auto simp: cluster_descriptors_def)
  have "tool_of c name = Some t" by (cases t) (simp_all add: t(1) tool_of_def ALL_TOOLS_def)
  with t(2) that show thesis by blast
qed


section \<open>Accepted calls\<close>

text \<open>
  C9: Accepted calls do not go wrong. When the library's validator enforces the declared schema of a listed
  tool and lets the arguments through, and starting a process raises no error of shape, the call is
  dispatched and never ends in a \<open>KeyError\<close>, \<open>TypeError\<close> or \<open>AttributeError\<close>, whatever the disk, the grants, the
  scope and the client's answers are.
\<close>

theorem accepted_calls_do_not_go_wrong:
  assumes "enforces accepts" "(name, s) \<in> set (descriptors c)" "accepts (schema_json s) (JObj a)"
    and "\<And>p. well_shaped (w_os w p)"
  shows "well_shaped (fst (call_tool c w name a sv)) \<and> name \<in> fst ` set (handlers c)"
proof -
  from listed_handler [OF assms(2)] obtain k where k: "map_of (handlers c) name = Some k" "s = handler_schema k" .
  from assms(1,3) k(2) have conf: "conforms (handler_schema k) (JObj a)" by (auto dest: enforcesD)
  have os: "well_shaped (ex_os (exec_env_of w sv) p)" for p using assms(4) by (simp add: exec_env_of_def)
  have "well_shaped (fst (run_handler c w k a sv))"
  proof (cases k)
    case (HFs op)
    with conf shaped_typed_call [of "op_context c sv" op a] show ?thesis
      by (simp add: run_handler_def conforming_call_is_operation case_prod_beta' act_shaped_def Let_def)
  next
    case (HExec high)
    with conf shaped_exec [of a "exec_env_of w sv", OF _ os] show ?thesis
      by (simp add: run_handler_def case_prod_beta' Let_def)
  qed (simp_all add: run_handler_def case_prod_beta' Let_def shaped_restrict shaped_request_path_access)
  with k(1) show ?thesis by (force simp: call_tool_def dest: map_of_SomeD)
qed

text \<open>
  C10: A file tool is the operation it names. On the arguments the validator lets through, reading the JSON
  object item by item, between the checks and the system calls, comes to the typed operation on
  its fields: the same reply, the same errors, the same disk and grants.
\<close>

theorem accepted_file_call_is_operation:
  assumes "enforces accepts" "(name, s) \<in> set (descriptors c)" "accepts (schema_json s) (JObj a)"
    and "map_of (handlers c) name = Some (HFs op)"
  shows "call_tool c w name a sv =
    (let (res, t) = typed_call (op_context c sv) op a \<lparr>host_of = rt_host (sv_rt sv), grants_of = Some (sv_grants sv)\<rparr>
     in (map_sum id FsReply res, sv\<lparr>sv_rt := (sv_rt sv)\<lparr>rt_host := host_of t\<rparr>, sv_grants := the (grants_of t)\<rparr>))"
proof -
  from listed_handler [OF assms(2)] assms(4) have "s = op_schema op" by (metis handler_schema.simps(1) option.inject)
  with assms(1,3) have "conforms (op_schema op) (JObj a)" by (auto dest: enforcesD)
  with assms(4) show ?thesis by (simp add: call_tool_def run_handler_def conforming_call_is_operation)
qed

section \<open>Cluster calls\<close>

text \<open>The specification and the ids a conforming call states.\<close>

definition spec_of :: "args \<Rightarrow> job_spec" where
  "spec_of a = \<lparr>js_command = str_at a ''command'', js_resource_spec = map_option string_of (map_of a ''resource_spec''),
     js_name = map_option string_of (map_of a ''name''), js_cwd = map_option string_of (map_of a ''cwd''),
     js_env = (case map_of a ''env'' of Some (JObj kvs) \<Rightarrow> map (\<lambda>(k, v). (k, string_of v)) kvs | _ \<Rightarrow> []),
     js_array = map_option string_of (map_of a ''array'')\<rparr>"

definition fields_of :: "json \<Rightarrow> args" where
  "fields_of j = (case j of JObj kvs \<Rightarrow> kvs | _ \<Rightarrow> [])"

lemma env_field_ok:
  "\<forall>(k, v) \<in> set kvs. conforms (TString None) v \<Longrightarrow>
    collect (\<lambda>(k, v). map_sum id (Pair k) (str_item v)) kvs = ok (map (\<lambda>(k, v). (k, string_of v)) kvs)"
  by (induction kvs) (auto simp: shape_facts str_item_def string_of_def)

lemma conforming_spec:
  assumes "conforms (TObject (job_spec_properties @ ps) [''command'']) (JObj a)"
  shows "read_spec a = ok (spec_of a)"
proof -
  note opt = optional_field [OF assms]
  have cmd: "map_of a ''command'' = Some (JStr (str_at a ''command''))"
    by (rule string_field [OF assms, where en = None]) (simp_all add: job_spec_properties_def)
  have s: "str_field a k = ok (map_option string_of (map_of a k))" if "(k, TString None) \<in> set job_spec_properties" for k
    using opt [of k "TString None"] that by (auto simp: shape_facts str_field_def string_of_def)
  have e: "env_field a = ok (js_env (spec_of a))"
    using opt [of "''env''" "TMap (TString None)"] env_field_ok
    by (auto simp: job_spec_properties_def shape_facts env_field_def spec_of_def)
  show ?thesis
    using s [of "''command''"] s [of "''resource_spec''"] s [of "''name''"] s [of "''cwd''"] s [of "''array''"]
    by (simp add: read_spec_def e job_spec_properties_def cmd string_of_def) (simp add: spec_of_def)
qed

lemma conforming_ids:
  assumes "conforms (TObject ((''job_ids'', TArray (TString None) 1) # ps) [''job_ids'']) (JObj a)"
  shows "read_job_ids a = ok (map string_of (list_at a ''job_ids'')) \<and> list_at a ''job_ids'' \<noteq> []"
proof -
  obtain v where v: "map_of a ''job_ids'' = Some v" "conforms (TArray (TString None) 1) v"
    by (rule required_field [OF assms, of "''job_ids''" "TArray (TString None) 1"]) (simp, simp, blast)
  then obtain xs where xs: "map_of a ''job_ids'' = Some (JList xs)" "1 \<le> length xs" "\<forall>x \<in> set xs. conforms (TString None) x"
    unfolding conforms_array by blast
  from xs(3) obtain ss where ss: "xs = map JStr ss" by (rule strings_of_array)
  have "collect str_item (map JStr ts) = ok ts" for ts by (induction ts) (simp_all add: str_item_def)
  from this [of ss] xs(1,2) ss show ?thesis
    by (cases xs) (auto simp: read_job_ids_def list_at_def string_of_def comp_def)
qed

lemma conforming_specs:
  assumes "conforms (tool_schema T_SUBMIT) (JObj a)"
  shows "read_specs a = ok (map (\<lambda>j. spec_of (fields_of j)) (list_at a ''jobs'')) \<and> list_at a ''jobs'' \<noteq> []"
proof -
  obtain v where v: "map_of a ''jobs'' = Some v" "conforms (TArray (TObject job_spec_properties [''command'']) 1) v"
    by (rule required_field [OF assms [unfolded tool_schema.simps], of "''jobs''" "TArray (TObject job_spec_properties [''command'']) 1"])
      (simp, simp, blast)
  then obtain xs where xs: "map_of a ''jobs'' = Some (JList xs)" "1 \<le> length xs"
      "\<forall>x \<in> set xs. conforms (TObject job_spec_properties [''command'']) x"
    unfolding conforms_array by blast
  have "collect (\<lambda>x. case x of JObj kvs \<Rightarrow> read_spec kvs | _ \<Rightarrow> schema_error) js = ok (map (\<lambda>j. spec_of (fields_of j)) js)"
    if "\<forall>x \<in> set js. conforms (TObject job_spec_properties [''command'']) x" for js
    using that
  proof (induction js)
    case (Cons j js)
    then obtain kvs where j: "j = JObj kvs" "conforms (TObject job_spec_properties [''command'']) (JObj kvs)"
      by (auto simp: conforms_object)
    from conforming_spec [of "[]" kvs] j(2) Cons show ?case by (simp add: j(1) fields_of_def)
  qed simp
  from this [OF xs(3)] xs(1,2) show ?thesis
    by (cases xs) (auto simp: read_specs_def list_at_def)
qed


section \<open>Concrete calls\<close>

text \<open>A validator of declared schemas that checks these keywords and nothing else.\<close>

definition keyword_validator :: "schema list \<Rightarrow> json \<Rightarrow> json \<Rightarrow> bool" where
  "keyword_validator ss doc j = list_ex (\<lambda>s. schema_json s = doc \<and> conforms s j) ss"

lemma keyword_enforces: "enforces (keyword_validator ss)"
  unfolding enforces_def keyword_validator_def by (auto simp: list_ex_iff dest: schema_json_inj)

lemma demo_combined:
  obtains c sv where "demo_server CombinedServer False = ok (c, sv)" "sc_kind c = CombinedServer" "sc_scope_id c = Some ''src''"
    "\<not> sc_read_only c"
proof -
  obtain c sv where s: "demo_server CombinedServer False = ok (c, sv)" using demo_server_ok [of CombinedServer False] by blast
  then have "sc_kind c = CombinedServer" "sc_scope_id c = Some ''src''" "\<not> sc_read_only c"
    by (auto simp: demo_server_def build_server_def Let_def)
  with s that show thesis by blast
qed

definition demo_write :: args where
  "demo_write = [(''path'', JStr ''f''), (''content'', JStr ''x'')]"

lemma demo_write_listed:
  assumes "sc_kind c = CombinedServer" "sc_scope_id c = Some ''src''" "\<not> sc_read_only c"
  shows "(''src_write_file'', op_schema Write_File) \<in> set (descriptors c)"
    "keyword_validator [op_schema Write_File] (schema_json (op_schema Write_File)) (JObj demo_write)"
    "map_of (handlers c) ''src_write_file'' = Some (HFs Write_File)"
proof -
  have n: "''src_write_file'' = prefixed ''write_file'' (sc_scope_id c)" by (simp add: assms(2) prefixed_def)
  show "(''src_write_file'', op_schema Write_File) \<in> set (descriptors c)"
    by (simp add: assms descriptors_def Let_def op_descriptor_def fs_tools_def WRITE_OPS_def prefixed_def)
  show "keyword_validator [op_schema Write_File] (schema_json (op_schema Write_File)) (JObj demo_write)"
    by (simp add: keyword_validator_def conforms_object shape_facts demo_write_def)
  show "map_of (handlers c) ''src_write_file'' = Some (HFs Write_File)"
    unfolding n map_of_handlers by (simp add: assms base_tools_eq fs_tools_def READ_OPS_def WRITE_OPS_def)
qed

theorem accepted_calls_do_not_go_wrong_witness:
  "\<exists>c sv. demo_server CombinedServer False = ok (c, sv) \<and>
     well_shaped (fst (call_tool c demo_world ''src_write_file'' demo_write sv))"
proof -
  obtain c sv where s: "demo_server CombinedServer False = ok (c, sv)"
    and c: "sc_kind c = CombinedServer" "sc_scope_id c = Some ''src''" "\<not> sc_read_only c" by (rule demo_combined)
  have "well_shaped (w_os demo_world p)" for p by (simp add: demo_world_def)
  with accepted_calls_do_not_go_wrong [OF keyword_enforces demo_write_listed(1,2) [OF c]] s show ?thesis by blast
qed

theorem accepted_file_call_is_operation_witness:
  "\<exists>c sv. demo_server CombinedServer False = ok (c, sv) \<and>
     fst (call_tool c demo_world ''src_write_file'' demo_write sv) =
       map_sum id FsReply (fst (typed_call (op_context c sv) Write_File demo_write
         \<lparr>host_of = rt_host (sv_rt sv), grants_of = Some (sv_grants sv)\<rparr>))"
proof -
  obtain c sv where s: "demo_server CombinedServer False = ok (c, sv)"
    and c: "sc_kind c = CombinedServer" "sc_scope_id c = Some ''src''" "\<not> sc_read_only c" by (rule demo_combined)
  from accepted_file_call_is_operation [OF keyword_enforces demo_write_listed [OF c], of demo_world sv] s
  show ?thesis by (auto simp: case_prod_beta' Let_def)
qed


end
