(* ===== verification/Call_Cycle.thy ===== *)
theory Call_Cycle
  imports Coordination Exec_Tools
begin

text \<open>
  The life of the calls of one server process around \<open>Runner.execute\<close>: slots, cores, the command, and
  the \<open>finally\<close> block that gives all of it back, however the call ends. Calls interleave at every
  \<open>await\<close>; the slot files are shared with other processes, whose locks stay as they are here.
\<close>

section \<open>The steps of a call\<close>

datatype phase =
    Queued
  | Slotted "nat list"
  | Pinned "nat list" "nat list"
  | Running "nat list" "nat list" "exec_result result"
  | Ended "exec_result result option"   \<comment> \<open>without a result when it was cancelled\<close>

record lanes =
  ln_table :: "slot list"
  ln_runner :: runner
  ln_phase :: "nat \<Rightarrow> phase"

definition set_phase :: "nat \<Rightarrow> phase \<Rightarrow> lanes \<Rightarrow> lanes" where
  "set_phase i ph s = s\<lparr>ln_phase := (ln_phase s)(i := ph)\<rparr>"

text \<open>The \<open>finally\<close> block, on the slots and cores the call has by then.\<close>

definition give_back_all :: "owner \<Rightarrow> nat list \<Rightarrow> nat list \<Rightarrow> lanes \<Rightarrow> lanes" where
  "give_back_all who tok cores s =
     s\<lparr>ln_table := release_slots who tok (ln_table s), ln_runner := release_cores cores (ln_runner s)\<rparr>"

text \<open>Call \<open>i\<close> of process \<open>p\<close> runs the request \<open>reqs i\<close>. A round of acquiring takes the slots, leaves the
  call waiting, or raises; then cores are claimed, the command is run, and the call ends. A
  cancellation ends it at any point where it waits.\<close>

inductive call_step :: "coordinator \<Rightarrow> nat \<Rightarrow> (nat \<Rightarrow> request) \<Rightarrow> exec_env \<Rightarrow> nat \<Rightarrow> lanes \<Rightarrow> lanes \<Rightarrow> bool" for co p reqs ev i where
  acquired: "ln_phase s i = Queued \<Longrightarrow>
     flock_round (p, i) (slots_of_call co (ln_runner s) (reqs i)) (ln_table s) = (ok (Some tok), t) \<Longrightarrow>
     call_step co p reqs ev i s (set_phase i (Slotted tok) (s\<lparr>ln_table := t\<rparr>))"
| retried: "ln_phase s i = Queued \<Longrightarrow>
     flock_round (p, i) (slots_of_call co (ln_runner s) (reqs i)) (ln_table s) = (ok None, t) \<Longrightarrow>
     call_step co p reqs ev i s (s\<lparr>ln_table := t\<rparr>)"
| refused: "ln_phase s i = Queued \<Longrightarrow>
     flock_round (p, i) (slots_of_call co (ln_runner s) (reqs i)) (ln_table s) = (Inl e, t) \<Longrightarrow>
     call_step co p reqs ev i s (set_phase i (Ended (Some (Inl e))) (s\<lparr>ln_table := t\<rparr>))"
| pinned: "ln_phase s i = Slotted tok \<Longrightarrow> claim_cores (call_weight (ln_runner s) (reqs i)) (ln_runner s) = (cs, r) \<Longrightarrow>
     call_step co p reqs ev i s (set_phase i (Pinned tok cs) (s\<lparr>ln_runner := r\<rparr>))"
| spawned: "ln_phase s i = Pinned tok cs \<Longrightarrow> run_call ev (ln_runner s) (reqs i) = (res, r) \<Longrightarrow>
     call_step co p reqs ev i s (set_phase i (Running tok cs res) (s\<lparr>ln_runner := r\<rparr>))"
| finished: "ln_phase s i = Running tok cs res \<Longrightarrow>
     call_step co p reqs ev i s (set_phase i (Ended (Some res)) (give_back_all (p, i) tok cs s))"
| cancelled_queued: "ln_phase s i = Queued \<Longrightarrow> call_step co p reqs ev i s (set_phase i (Ended None) s)"
| cancelled_slotted: "ln_phase s i = Slotted tok \<Longrightarrow>
     call_step co p reqs ev i s (set_phase i (Ended None) (give_back_all (p, i) tok [] s))"
| cancelled_pinned: "ln_phase s i = Pinned tok cs \<Longrightarrow>
     call_step co p reqs ev i s (set_phase i (Ended None) (give_back_all (p, i) tok cs s))"
| cancelled_running: "ln_phase s i = Running tok cs res \<Longrightarrow>
     call_step co p reqs ev i s (set_phase i (Ended None) (give_back_all (p, i) tok cs s))"

section \<open>What the calls hold\<close>

fun slots_held :: "phase \<Rightarrow> nat list" where
  "slots_held (Slotted tok) = tok"
| "slots_held (Pinned tok cs) = tok"
| "slots_held (Running tok cs res) = tok"
| "slots_held _ = []"

fun cores_held :: "phase \<Rightarrow> nat list" where
  "cores_held (Pinned tok cs) = cs"
| "cores_held (Running tok cs res) = cs"
| "cores_held _ = []"

text \<open>Every slot is as at the start or held by the call that has it in hand; every core in use is in some
  call's hands.\<close>

definition table_of_calls :: "nat \<Rightarrow> slot list \<Rightarrow> (nat \<Rightarrow> phase) \<Rightarrow> slot list \<Rightarrow> bool" where
  "table_of_calls p tb0 ph tb \<longleftrightarrow> length tb = length tb0 \<and>
     (\<forall>k < length tb0. tb ! k = tb0 ! k \<or> (tb0 ! k = Free \<and> (\<exists>i. tb ! k = Held (p, i) \<and> k \<in> set (slots_held (ph i)))))"

definition cores_of_calls :: "(nat \<Rightarrow> phase) \<Rightarrow> runner \<Rightarrow> bool" where
  "cores_of_calls ph r \<longleftrightarrow> core_in_use r \<subseteq> (\<Union>i. set (cores_held (ph i)))"

definition lanes_inv :: "nat \<Rightarrow> slot list \<Rightarrow> lanes \<Rightarrow> bool" where
  "lanes_inv p tb0 s \<longleftrightarrow> table_of_calls p tb0 (ln_phase s) (ln_table s) \<and> cores_of_calls (ln_phase s) (ln_runner s)"

definition unheld :: "nat \<Rightarrow> slot list \<Rightarrow> bool" where
  "unheld p tb \<longleftrightarrow> (\<forall>k < length tb. \<forall>i. tb ! k \<noteq> Held (p, i))"

lemma sound_of_calls: "sound_files tb0 \<Longrightarrow> table_of_calls p tb0 ph tb \<Longrightarrow> sound_files tb"
  by (fastforce simp: sound_files_def table_of_calls_def list_all_length)

lemma table_same_slots:
  "table_of_calls p tb0 ph tb \<Longrightarrow> slots_held x = slots_held (ph i) \<Longrightarrow> table_of_calls p tb0 (ph(i := x)) tb"
  unfolding table_of_calls_def by (metis fun_upd_apply)

lemma table_acquired:
  assumes "table_of_calls p tb0 ph tb" "pass_spec (p, i) w 0 tb [] Enough tok t" "slots_held (ph i) = []"
  shows "table_of_calls p tb0 (ph(i := Slotted tok)) t"
  unfolding table_of_calls_def
proof (intro conjI allI impI)
  show "length t = length tb0" using assms(1,2) by (simp add: table_of_calls_def pass_spec_def)
  fix k assume k: "k < length tb0"
  with assms(1) have len: "k < length tb" by (simp add: table_of_calls_def)
  show "t ! k = tb0 ! k \<or> tb0 ! k = Free \<and> (\<exists>j. t ! k = Held (p, j) \<and> k \<in> set (slots_held ((ph(i := Slotted tok)) j)))"
  proof (cases "k \<in> set tok")
    case True
    with assms(2) len have "tb ! k = Free" "t ! k = Held (p, i)" by (auto simp: pass_spec_def)
    with assms(1) k True show ?thesis by (auto simp: table_of_calls_def)
  next
    case False
    with assms(2) len have "t ! k = tb ! k" by (auto simp: pass_spec_def)
    with assms(1,3) k show ?thesis by (fastforce simp: table_of_calls_def)
  qed
qed

lemma table_released:
  assumes "table_of_calls p tb0 ph tb" "unheld p tb0" "slots_held (ph i) = tok" "slots_held x = []"
  shows "table_of_calls p tb0 (ph(i := x)) (release_slots (p, i) tok tb)"
  unfolding table_of_calls_def
proof (intro conjI allI impI)
  show "length (release_slots (p, i) tok tb) = length tb0" using assms(1) by (simp add: table_of_calls_def)
  fix k assume k: "k < length tb0"
  with assms(1) have len: "k < length tb" by (simp add: table_of_calls_def)
  from assms(1) k consider (same) "tb ! k = tb0 ! k"
    | (held) j where "tb0 ! k = Free" "tb ! k = Held (p, j)" "k \<in> set (slots_held (ph j))"
    by (auto simp: table_of_calls_def)
  then show "release_slots (p, i) tok tb ! k = tb0 ! k \<or>
      tb0 ! k = Free \<and> (\<exists>j. release_slots (p, i) tok tb ! k = Held (p, j) \<and> k \<in> set (slots_held ((ph(i := x)) j)))"
  proof cases
    case same
    with assms(2) k have "tb ! k \<noteq> Held (p, i)" by (simp add: unheld_def)
    with same len show ?thesis by (simp add: release_slots_def)
  next
    case held
    then show ?thesis using len assms(3) by (cases "j = i") (auto simp: release_slots_def)
  qed
qed

lemma cores_same:
  assumes "cores_of_calls ph r" "core_in_use r' = core_in_use r" "set (cores_held x) = set (cores_held (ph i))"
  shows "cores_of_calls (ph(i := x)) r'"
proof -
  have "set (cores_held ((ph(i := x)) j)) = set (cores_held (ph j))" for j using assms(3) by simp
  with assms(1,2) show ?thesis by (simp only: cores_of_calls_def)
qed

lemma cores_claimed:
  assumes "cores_of_calls ph r" "claim_cores w r = (cs, r')" "cores_held (ph i) = []" "cores_held x = cs"
  shows "cores_of_calls (ph(i := x)) r'"
  unfolding cores_of_calls_def
proof
  fix k assume "k \<in> core_in_use r'"
  with assms(2) have "k \<in> core_in_use r \<or> k \<in> set cs"
    by (auto simp: claim_cores_def Let_def split: if_splits)
  then consider j where "k \<in> set (cores_held (ph j))" | "k \<in> set cs"
    using assms(1) unfolding cores_of_calls_def by blast
  then show "k \<in> (\<Union>j. set (cores_held ((ph(i := x)) j)))"
  proof cases
    case (1 j)
    then have "j \<noteq> i" using assms(3) by auto
    with 1 have "k \<in> set (cores_held ((ph(i := x)) j))" by simp
    then show ?thesis by blast
  next
    case 2
    then have "k \<in> set (cores_held ((ph(i := x)) i))" using assms(4) by simp
    then show ?thesis by blast
  qed
qed

lemma cores_released:
  assumes "cores_of_calls ph r" "set (cores_held (ph i)) \<subseteq> set cs"
  shows "cores_of_calls (ph(i := x)) (release_cores cs r)"
  unfolding cores_of_calls_def
proof
  fix k assume "k \<in> core_in_use (release_cores cs r)"
  then have k: "k \<in> core_in_use r" "k \<notin> set cs" by (simp_all add: release_cores_def)
  from k(1) assms(1) obtain j where j: "k \<in> set (cores_held (ph j))" unfolding cores_of_calls_def by blast
  with k(2) assms(2) have "j \<noteq> i" by blast
  with j have "k \<in> set (cores_held ((ph(i := x)) j))" by simp
  then show "k \<in> (\<Union>j. set (cores_held ((ph(i := x)) j)))" by blast
qed

lemma run_call_cores: "run_call ev r rq = (res, r') \<Longrightarrow> core_in_use r' = core_in_use r"
  using run_call_runner [of ev r rq] by (auto simp: spend_once_def)

lemma lanes_inv_set:
  "lanes_inv p tb0 (set_phase i ph s) \<longleftrightarrow>
     table_of_calls p tb0 ((ln_phase s)(i := ph)) (ln_table s) \<and> cores_of_calls ((ln_phase s)(i := ph)) (ln_runner s)"
  by (simp add: lanes_inv_def set_phase_def)

lemma lanes_inv_give_back:
  assumes "lanes_inv p tb0 s" "unheld p tb0" "slots_held (ln_phase s i) = tok" "cores_held (ln_phase s i) = cs"
    and "slots_held ph = []"
  shows "lanes_inv p tb0 (set_phase i ph (give_back_all (p, i) tok cs s))"
  using assms table_released [of p tb0 "ln_phase s" "ln_table s" i tok ph] cores_released [of "ln_phase s" "ln_runner s" i cs ph]
  by (simp add: lanes_inv_def set_phase_def give_back_all_def)

lemma round_keeps_table:
  assumes "sound_files tb" "flock_round who w tb = (r, t)" "\<forall>tok. r \<noteq> ok (Some tok)"
  shows "t = tb \<and> r = ok None"
  using flock_round_sound [OF assms(1), of w who] assms(2,3) by (auto split: if_splits)

lemma call_step_inv [inv_facts]:
  assumes "call_step co p reqs ev i s s'" "lanes_inv p tb0 s" "sound_files tb0" "unheld p tb0"
  shows "lanes_inv p tb0 s'"
proof -
  from assms(2) have tb: "table_of_calls p tb0 (ln_phase s) (ln_table s)" and co: "cores_of_calls (ln_phase s) (ln_runner s)"
    by (simp_all add: lanes_inv_def)
  note sound = sound_of_calls [OF assms(3) tb]
  from assms(1) show ?thesis
  proof cases
    case (acquired tok t)
    with table_acquired [OF tb round_token [OF acquired(3)]] cores_same [OF co refl, of "Slotted tok" i]
    show ?thesis by (simp add: lanes_inv_set)
  next
    case (retried t)
    with round_keeps_table [OF sound retried(3)] assms(2) show ?thesis by simp
  next
    case (refused e t)
    with round_keeps_table [OF sound refused(3)] show ?thesis by simp
  next
    case (pinned tok cs r)
    with table_same_slots [OF tb, of "Pinned tok cs" i] cores_claimed [OF co pinned(3), of i "Pinned tok cs"]
    show ?thesis by (simp add: lanes_inv_set)
  next
    case (spawned tok cs res r)
    with table_same_slots [OF tb, of "Running tok cs res" i] cores_same [OF co run_call_cores [OF spawned(3)], of "Running tok cs res" i]
    show ?thesis by (simp add: lanes_inv_set)
  next
    case cancelled_queued
    with table_same_slots [OF tb, of "Ended None" i] cores_same [OF co refl, of "Ended None" i]
    show ?thesis by (simp add: lanes_inv_set)
  qed (use lanes_inv_give_back [OF assms(2,4)] in simp_all)
qed

definition idle :: "lanes \<Rightarrow> bool" where
  "idle s \<longleftrightarrow> (\<forall>i. ln_phase s i = Queued \<or> (\<exists>res. ln_phase s i = Ended res))"

lemma idle_holds_nothing:
  assumes "lanes_inv p tb0 s" "idle s"
  shows "ln_table s = tb0 \<and> core_in_use (ln_runner s) = {}"
proof -
  from assms(2) have n: "slots_held (ln_phase s i) = [] \<and> cores_held (ln_phase s i) = []" for i
    by (auto simp: idle_def dest!: spec [of _ i])
  with assms(1) have "core_in_use (ln_runner s) = {}" by (simp add: lanes_inv_def cores_of_calls_def)
  moreover have "ln_table s = tb0"
    using assms(1) n by (intro nth_equalityI) (auto simp: lanes_inv_def table_of_calls_def)
  ultimately show ?thesis by blast
qed

text \<open>A waiting call that fits the free slots is admitted by its next round.\<close>

lemma waiting_call_admitted:
  assumes "sound_files (ln_table s)" "ln_phase s i = Queued" "slots_of_call co (ln_runner s) (reqs i) \<le> free_count (ln_table s)"
  obtains tok t where "call_step co p reqs ev i s (set_phase i (Slotted tok) (s\<lparr>ln_table := t\<rparr>))"
proof -
  from flock_round_sound [OF assms(1), of "slots_of_call co (ln_runner s) (reqs i)" "(p, i)"] assms(3)
  obtain tok t where "flock_round (p, i) (slots_of_call co (ln_runner s) (reqs i)) (ln_table s) = (ok (Some tok), t)"
    by (auto split: if_splits)
  from call_step.acquired [of s i p co reqs tok t ev, OF assms(2) this] show thesis by (rule that)
qed

text \<open>A step of one call leaves the stages of the others and the scope of the runner alone.\<close>

lemma call_step_others:
  assumes "call_step co p reqs ev i s s'"
  shows "j \<noteq> i \<Longrightarrow> ln_phase s' j = ln_phase s j"
    "scope_paths (ln_runner s') = scope_paths (ln_runner s)" "scope_read_only (ln_runner s') = scope_read_only (ln_runner s)"
    "sandbox (ln_runner s') = sandbox (ln_runner s)" "ceiling_path (ln_runner s') = ceiling_path (ln_runner s)"
    "grant_list (ln_runner s) \<noteq> None \<Longrightarrow> grant_list (ln_runner s') \<noteq> None"
proof -
  have c: "scope_paths r' = scope_paths r \<and> scope_read_only r' = scope_read_only r \<and> sandbox r' = sandbox r \<and>
      ceiling_path r' = ceiling_path r \<and> grant_list r' = grant_list r" if "claim_cores w r = (cs, r')" for w r cs r'
    using that by (auto simp: claim_cores_def Let_def split: if_splits)
  have r: "r' = r \<or> r' = spend_once r" if "run_call ev r rq = (res, r')" for r rq res r'
    using run_call_runner [of ev r rq] that by auto
  show "j \<noteq> i \<Longrightarrow> ln_phase s' j = ln_phase s j"
    using assms by cases (simp_all add: set_phase_def give_back_all_def)
  show "scope_paths (ln_runner s') = scope_paths (ln_runner s)" "scope_read_only (ln_runner s') = scope_read_only (ln_runner s)"
    "sandbox (ln_runner s') = sandbox (ln_runner s)" "ceiling_path (ln_runner s') = ceiling_path (ln_runner s)"
    "grant_list (ln_runner s) \<noteq> None \<Longrightarrow> grant_list (ln_runner s') \<noteq> None"
    using assms by (cases; auto simp: set_phase_def give_back_all_def release_cores_def spend_once_def dest: c r)+
qed

end
