(* ===== verification/Live_Server.thy ===== *)
theory Live_Server
  imports Servers Call_Cycle
begin

text \<open>
  A server with calls in flight. The event loop runs one coroutine at a time and switches only where one
  waits, so the file tools, \<open>restrict_paths\<close> and the listing are single steps of the server; a command waits for
  the user's approval, for its slots, for its cores and for its process, and a request for a grant waits for the
  user. Between these points everything else may happen: the scope is narrowed, grants are given and
  used up, the disk changes, calls are cancelled. All of it works on one server state, so what a
  command may do is what holds when it is spawned.
\<close>

section \<open>Calls that wait\<close>

datatype stage =
    Arrived
  | Asking                  \<comment> \<open>the approval dialog is open\<close>
  | Admitted bool phase     \<comment> \<open>in \<open>Runner.execute\<close>; the flag: the user approved this call\<close>
  | Answered "exec_reply result"
  | Withdrawn               \<comment> \<open>cancelled before it reached the runner\<close>

text \<open>The calls of the two command tools: which of them, and the arguments.\<close>

type_synonym command_calls = "nat \<Rightarrow> bool \<times> args"

record live =
  lv_server :: server
  lv_table :: "slot list"
  lv_stage :: "nat \<Rightarrow> stage"
  lv_dialogs :: "(rpath \<times> gmode) list"   \<comment> \<open>grants the user is being asked for\<close>

definition set_stage :: "nat \<Rightarrow> stage \<Rightarrow> live \<Rightarrow> live" where
  "set_stage i st s = s\<lparr>lv_stage := (lv_stage s)(i := st)\<rparr>"

text \<open>The handlers up to the dialog, and from its answer to \<open>runner.execute\<close>.\<close>

definition to_runner :: "bool \<Rightarrow> bool \<Rightarrow> args \<Rightarrow> stage" where
  "to_runner approved high a = (case read_request a high of Inl e \<Rightarrow> Answered (Inl e) | Inr rq \<Rightarrow> Admitted approved Queued)"

definition on_arrival :: "policy_engine option \<Rightarrow> bool \<times> args \<Rightarrow> stage" where
  "on_arrival pol call = (case call of (high, a) \<Rightarrow>
     (case read_command a of
        Inl e \<Rightarrow> Answered (Inl e)
      | Inr cmd \<Rightarrow>
          if denied pol cmd then Answered (ok (Rejected ''denylist'' (matched_pattern (policy_check (the pol) cmd))))
          else if high then
            (case raw_mb a of
               Inl e \<Rightarrow> Answered (Inl e)
             | Inr mb \<Rightarrow> if (case mb of None \<Rightarrow> False | Some m \<Rightarrow> m < 1)
                 then Answered (ok (Rejected ''mem_limit_mb must be a positive integer'' None)) else Asking)
          else if suspicious pol cmd then Asking
          else to_runner False high a))"

definition on_answer :: "policy_engine option \<Rightarrow> client \<Rightarrow> bool \<times> args \<Rightarrow> stage" where
  "on_answer pol cl call = (case call of (high, a) \<Rightarrow>
     (case read_command a of
        Inl e \<Rightarrow> Answered (Inl e)
      | Inr cmd \<Rightarrow>
          if high then
            if elicit_memory_approval cl \<noteq> Accepted then Answered (ok (Rejected (denial_message (elicit_memory_approval cl)) None))
            else to_runner True high a
          else if elicit_approval cl then to_runner True high a
          else Answered (ok (Rejected ''declined'' (matched_pattern (policy_check (the pol) cmd))))))"

text \<open>The request of a call; only one that could be read reaches the runner.\<close>

definition request_for :: "command_calls \<Rightarrow> nat \<Rightarrow> request" where
  "request_for cmds i = (case read_request (snd (cmds i)) (fst (cmds i)) of
      Inr rq \<Rightarrow> rq
    | Inl e \<Rightarrow> \<lparr>rq_command = [], rq_cwd = None, rq_weight = 1, rq_mem_mb = None, rq_cpu_sec = None, rq_high_memory = False\<rparr>)"

text \<open>The request for a grant up to its dialog: the target and the mode the user will be asked for.\<close>

definition grant_candidate :: "host \<Rightarrow> grant_cfg \<Rightarrow> args \<Rightarrow> (rpath \<times> gmode) option" where
  "grant_candidate h g a = (case (jget a ''path'', mode_arg (jget a ''mode''), jget a ''reason'') of
      (JStr p, Some m, JStr why) \<Rightarrow>
        if p = [] \<or> strip_str why = [] \<or> gt_read_only g \<and> m = RW then None
        else (case resolve_path_arg h p (case map_option rpath_path (gt_ceiling g) of Some c \<Rightarrow> c | None \<Rightarrow> path_of (cwd h)) of
            Inl e \<Rightarrow> None
          | Inr t \<Rightarrow> if is_ok (validate_grant_target h t m (map_option rpath_path (gt_ceiling g)) (gt_deny g)) then Some (t, m) else None)
    | _ \<Rightarrow> None)"

section \<open>Steps\<close>

text \<open>The runner of a server with calls in flight, for \<^const>\<open>call_step\<close>: its grant store is the server's.\<close>

fun phase_of :: "stage \<Rightarrow> phase" where
  "phase_of (Admitted b ph) = ph"
| "phase_of Arrived = Queued"
| "phase_of Asking = Queued"
| "phase_of _ = Ended None"

definition lanes_of :: "live \<Rightarrow> lanes" where
  "lanes_of s = \<lparr>ln_table = lv_table s,
     ln_runner = (sv_runner (lv_server s))\<lparr>grant_list := Some (sv_grants (lv_server s))\<rparr>,
     ln_phase = (\<lambda>i. phase_of (lv_stage s i))\<rparr>"

definition put_lanes :: "nat \<Rightarrow> bool \<Rightarrow> lanes \<Rightarrow> live \<Rightarrow> live" where
  "put_lanes i approved l s = s\<lparr>
     lv_server := (lv_server s)\<lparr>sv_runner := ln_runner l, sv_grants := the (grant_list (ln_runner l))\<rparr>,
     lv_table := ln_table l,
     lv_stage := (lv_stage s)(i := Admitted approved (ln_phase l i))\<rparr>"

inductive live_step :: "server_cfg \<Rightarrow> coordinator \<Rightarrow> nat \<Rightarrow> command_calls \<Rightarrow> live \<Rightarrow> live \<Rightarrow> bool" for c co p cmds where
  arrives: "lv_stage s i = Arrived \<Longrightarrow>
     live_step c co p cmds s (set_stage i (on_arrival (sc_policy c) (cmds i)) s)"
| answers: "lv_stage s i = Asking \<Longrightarrow>
     live_step c co p cmds s (set_stage i (on_answer (sc_policy c) cl (cmds i)) s)"
| withdrawn: "lv_stage s i = Asking \<Longrightarrow> live_step c co p cmds s (set_stage i Withdrawn s)"
| runs: "lv_stage s i = Admitted b ph \<Longrightarrow>
     call_step co p (request_for cmds) (exec_env_of w (lv_server s)) i (lanes_of s) l \<Longrightarrow>
     live_step c co p cmds s (put_lanes i b l s)"
| tool: "map_of (handlers c) name = Some k \<Longrightarrow> k \<notin> {HExec False, HExec True, HGrant} \<Longrightarrow>
     call_tool c w name a (lv_server s) = (res, sv) \<Longrightarrow>
     live_step c co p cmds s (s\<lparr>lv_server := sv\<rparr>)"
| asks_grant: "grant_candidate (rt_host (sv_rt (lv_server s))) (grant_cfg_of c) a = Some d \<Longrightarrow>
     live_step c co p cmds s (s\<lparr>lv_dialogs := d # lv_dialogs s\<rparr>)"
| grants: "(t, m) \<in> set (lv_dialogs s) \<Longrightarrow> elicit_path_access_approval cl = Some lt \<Longrightarrow>
     live_step c co p cmds s (s\<lparr>lv_dialogs := remove1 (t, m) (lv_dialogs s),
       lv_server := (lv_server s)\<lparr>sv_grants := grant_add (sv_grants (lv_server s)) t m lt\<rparr>\<rparr>)"
| grants_not: "d \<in> set (lv_dialogs s) \<Longrightarrow>
     live_step c co p cmds s (s\<lparr>lv_dialogs := remove1 d (lv_dialogs s)\<rparr>)"
| lists: "maybe_refine (rt_host (sv_rt (lv_server s))) use_roots listed (applied, sv_runner (lv_server s)) = (applied', r) \<Longrightarrow>
     live_step c co p cmds s (s\<lparr>lv_server := (lv_server s)\<lparr>sv_runner := r\<rparr>\<rparr>)"
| disk: "live_step c co p cmds s (s\<lparr>lv_server := (lv_server s)\<lparr>sv_rt := (sv_rt (lv_server s))\<lparr>
       rt_host := (rt_host (sv_rt (lv_server s)))\<lparr>disk := d\<rparr>\<rparr>\<rparr>\<rparr>)"

section \<open>The parts are the handlers\<close>

text \<open>Run without anything in between, the parts are the handlers of the tools.\<close>

lemma handlers_in_parts:
  "(if high then execute_high_memory else execute_command) ev pol cl r a =
     (let run = (if high then without_hint else with_hint) (run_args ev r a high);
          settled = (\<lambda>st. case st of Answered rep \<Rightarrow> (rep, r) | _ \<Rightarrow> run)
      in case on_arrival pol (high, a) of Asking \<Rightarrow> settled (on_answer pol cl (high, a)) | st \<Rightarrow> settled st)"
proof -
  have hint: "with_hint (Inl e, r) = (Inl e, r)" "without_hint (Inl e, r) = (Inl e, r)" for e
    by (simp_all add: with_hint_def without_hint_def)
  have pol: "(case pol of None \<Rightarrow> False | Some e \<Rightarrow> policy_active e \<and> decision (policy_check e cmd) = DENY) = denied pol cmd" for cmd
    using inactive_policy by (cases pol) (auto simp: denied_def check_decisions)
  show ?thesis
  proof (cases "read_command a")
    case (Inl e)
    then show ?thesis by (simp add: on_arrival_def execute_command_gates execute_high_memory_def)
  next
    case (Inr cmd)
    show ?thesis
      by (cases "read_request a high"; cases high)
        (auto simp: Inr on_arrival_def on_answer_def to_runner_def execute_command_gates execute_high_memory_def pol run_args_def hint Let_def
          split: sum.split option.split)
  qed
qed

lemma request_in_parts:
  "snd (request_path_access h g cl gs a) = (case grant_candidate h g a of
      None \<Rightarrow> gs
    | Some (t, m) \<Rightarrow> (case elicit_path_access_approval cl of None \<Rightarrow> gs | Some lt \<Rightarrow> grant_add gs t m lt))"
  unfolding request_path_access_def grant_candidate_def Let_def
  by (auto simp: is_ok_def split: json.split option.split sum.split)

section \<open>Gates\<close>

text \<open>What must hold of a call that is in the runner, with the flag of its approval.\<close>

definition passed_gates :: "policy_engine option \<Rightarrow> bool \<times> args \<Rightarrow> bool \<Rightarrow> bool" where
  "passed_gates pol call approved \<longleftrightarrow> (case read_command (snd call) of
      Inl e \<Rightarrow> False
    | Inr cmd \<Rightarrow> \<not> denied pol cmd \<and> ((fst call \<or> suspicious pol cmd) \<longrightarrow> approved) \<and>
        is_ok (read_request (snd call) (fst call)))"

definition gates_hold :: "policy_engine option \<Rightarrow> command_calls \<Rightarrow> live \<Rightarrow> bool" where
  "gates_hold pol cmds s \<longleftrightarrow> (\<forall>i. case lv_stage s i of
      Asking \<Rightarrow> (case read_command (snd (cmds i)) of Inl e \<Rightarrow> False | Inr cmd \<Rightarrow> \<not> denied pol cmd)
    | Admitted b ph \<Rightarrow> passed_gates pol (cmds i) b
    | _ \<Rightarrow> True)"

lemma arrival_gate:
  "on_arrival pol call = Asking \<Longrightarrow> \<exists>cmd. read_command (snd call) = ok cmd \<and> \<not> denied pol cmd"
  "on_arrival pol call = Admitted b ph \<Longrightarrow> passed_gates pol call b \<and> ph = Queued"
  by (cases call; auto simp: on_arrival_def to_runner_def passed_gates_def is_ok_def split: sum.splits option.splits if_splits)+

lemma answer_gate:
  assumes "read_command (snd call) = ok cmd" "\<not> denied pol cmd"
  shows "on_answer pol cl call \<noteq> Asking \<and> (on_answer pol cl call = Admitted b ph \<longrightarrow> passed_gates pol call b \<and> ph = Queued)"
  using assms by (cases call) (auto simp: on_answer_def to_runner_def passed_gates_def is_ok_def split: sum.splits if_splits)

lemma gates_set:
  assumes "gates_hold pol cmds s"
    "case st of Asking \<Rightarrow> (case read_command (snd (cmds i)) of Inl e \<Rightarrow> False | Inr cmd \<Rightarrow> \<not> denied pol cmd)
      | Admitted b ph \<Rightarrow> passed_gates pol (cmds i) b | _ \<Rightarrow> True"
  shows "gates_hold pol cmds (set_stage i st s)"
  using assms by (simp add: gates_hold_def set_stage_def)

lemma live_gates [inv_facts]:
  assumes "live_step c co p cmds s s'" "gates_hold (sc_policy c) cmds s"
  shows "gates_hold (sc_policy c) cmds s'"
  using assms(1)
proof cases
  case (arrives i)
  then show ?thesis
    using arrival_gate [of "sc_policy c" "cmds i"] by (auto intro!: gates_set [OF assms(2)] split: stage.split)
next
  case (answers i cl)
  from assms(2) answers(2) obtain cmd where "read_command (snd (cmds i)) = ok cmd" "\<not> denied (sc_policy c) cmd"
    by (cases "read_command (snd (cmds i))") (auto simp: gates_hold_def dest!: spec [of _ i])
  with answers answer_gate [of "cmds i" cmd "sc_policy c" cl] show ?thesis
    by (auto intro!: gates_set [OF assms(2)] split: stage.split)
next
  case (withdrawn i)
  then show ?thesis by (auto intro!: gates_set [OF assms(2)])
next
  case (runs i b ph w l)
  with assms(2) have "passed_gates (sc_policy c) (cmds i) b" by (auto simp: gates_hold_def dest!: spec [of _ i])
  with assms(2) runs show ?thesis by (simp add: gates_hold_def put_lanes_def)
qed (use assms(2) in \<open>simp_all add: gates_hold_def\<close>)

section \<open>One scope\<close>

lemma live_in_step [inv_facts]:
  assumes "live_step c co p cmds s s'" "sc_kind c \<noteq> FsServer" "in_step c (lv_server s)"
  shows "in_step c (lv_server s')"
  using assms(1)
proof cases
  case (runs i b ph w l)
  from call_step_others(2,3) [OF runs(3)] assms(3) show ?thesis
    by (simp add: runs(1) put_lanes_def in_step_def lanes_of_def)
next
  case (tool name k w a res sv)
  with serves_in_step [OF assms(2,3) serves.tool_call [of c w name a "lv_server s" res sv]] show ?thesis by simp
next
  case (lists use_roots listed applied applied' r)
  with serves_in_step [OF assms(2,3) serves.list_tools [OF lists(2), of c]] show ?thesis by simp
next
  case (disk d)
  with serves_in_step [OF assms(2,3) serves.disk_change [of c "lv_server s" d]] show ?thesis by simp
qed (use assms(3) in \<open>simp_all add: in_step_def set_stage_def\<close>)

section \<open>What the calls hold\<close>

lemma lanes_same_holdings:
  assumes "lanes_inv p tb0 l" "ln_table l' = ln_table l" "core_in_use (ln_runner l') = core_in_use (ln_runner l)"
    "\<And>i. slots_held (ln_phase l' i) = slots_held (ln_phase l i)" "\<And>i. cores_held (ln_phase l' i) = cores_held (ln_phase l i)"
  shows "lanes_inv p tb0 l'"
  using assms by (simp add: lanes_inv_def table_of_calls_def cores_of_calls_def)

lemma push_scope_cores [simp]: "core_in_use (push_scope c rt r) = core_in_use r"
  by (simp add: push_scope_def set_active_scope_def)

lemma tool_keeps_cores:
  assumes "k \<notin> {HExec False, HExec True}" "run_handler c w k a sv = (res, sv')"
  shows "core_in_use (sv_runner sv') = core_in_use (sv_runner sv)"
  using assms by (cases k) (auto simp: run_handler_def split: prod.splits if_splits)

lemma arrival_holds_nothing:
  "slots_held (phase_of (on_arrival pol call)) = []" "cores_held (phase_of (on_arrival pol call)) = []"
  "slots_held (phase_of (on_answer pol cl call)) = []" "cores_held (phase_of (on_answer pol cl call)) = []"
  by (auto simp: on_arrival_def on_answer_def to_runner_def split: prod.split sum.split option.split)

lemma live_lanes [inv_facts]:
  assumes "live_step c co p cmds s s'" "lanes_inv p tb0 (lanes_of s)" "sound_files tb0" "unheld p tb0"
  shows "lanes_inv p tb0 (lanes_of s')"
  using assms(1)
proof cases
  case (runs i b ph w l)
  have "ln_phase (lanes_of s') j = ln_phase l j" for j
    using call_step_others(1) [OF runs(3), of j] by (simp add: runs(1) put_lanes_def lanes_of_def)
  then show ?thesis
    using lanes_same_holdings [OF call_step_inv [OF runs(3) assms(2-4)], of "lanes_of s'"]
    by (simp add: runs(1) put_lanes_def lanes_of_def)
next
  case (tool name k w a res sv)
  then have "core_in_use (sv_runner sv) = core_in_use (sv_runner (lv_server s))"
    by (intro tool_keeps_cores) (auto simp: call_tool_def)
  with tool show ?thesis by (intro lanes_same_holdings [OF assms(2)]) (simp_all add: lanes_of_def)
next
  case (lists use_roots listed applied applied' r)
  then have "core_in_use r = core_in_use (sv_runner (lv_server s))"
    by (auto simp: maybe_refine_def update_ceiling_def split: if_splits sum.splits option.splits)
  with lists show ?thesis by (intro lanes_same_holdings [OF assms(2)]) (simp_all add: lanes_of_def)
qed (intro lanes_same_holdings [OF assms(2)]; simp add: lanes_of_def set_stage_def arrival_holds_nothing)+

section \<open>What a command may do\<close>

text \<open>The roots the scope of this moment opens for writing, and those of the grants of this moment.\<close>

definition scope_roots :: "server_cfg \<Rightarrow> server \<Rightarrow> string list" where
  "scope_roots c sv = (if sc_read_only c then []
     else case paths (scope (rt_store (sv_rt sv))) of
         [] \<Rightarrow> (case ceiling_path (sv_runner sv) of None \<Rightarrow> [] | Some cl \<Rightarrow> [rpath_str cl])
       | ps \<Rightarrow> map rpath_str ps)"

definition granted_roots :: "server \<Rightarrow> string list" where
  "granted_roots sv = map (\<lambda>g. rpath_str (root g)) (filter (\<lambda>g. gmode g = RW) (sv_grants sv))"

lemma scope_rw_in_step:
  "in_step c (lv_server s) \<Longrightarrow> scope_rw (ln_runner (lanes_of s)) = scope_roots c (lv_server s)"
  by (auto simp: in_step_def scope_rw_def scope_roots_def lanes_of_def Let_def split: list.split)

lemma grant_rw_lanes: "grant_rw (ln_runner (lanes_of s)) = granted_roots (lv_server s)"
  by (simp add: grant_rw_def granted_roots_def lanes_of_def)

definition slirp_usable :: "bool \<Rightarrow> runner \<Rightarrow> bool" where
  "slirp_usable sl r \<longleftrightarrow> sl \<or> (case net_policy r of None \<Rightarrow> True | Some np \<Rightarrow> \<not> policy_enabled np)"

lemma prepared_argv:
  assumes "prepare h sl fd sn r rq = ok pr" "sandbox r = Some sb" "slirp_usable sl r"
  obtains base cfg pre sy scr where "resolve_blacklist h r sb = ok base" "effective_sandbox h r = ok (Some cfg)"
    "pr_argv pr = pre @ concat (map render (bwrap_args h cfg (pr_command pr) (rq_cwd rq) sy scr))"
proof -
  from assms(1,2) obtain base where base: "resolve_blacklist h r sb = ok base"
    by (auto simp: prepare_def effective_sandbox_def split: if_splits)
  define cfg where "cfg = apply_grant_mounts r (scope_mounts r base)"
  from base assms(2) have cfg: "effective_sandbox h r = ok (Some cfg)" by (simp add: effective_sandbox_def cfg_def)
  from assms(1) obtain cmd eds argv sn' where ins: "inspected r rq = ok (cmd, eds)" and
      argv: "sandboxed_argv h r cfg cmd (rq_cwd rq) sl fd (aggregate_bytes r rq) sn' = ok argv" and
      pr: "pr_argv pr = argv" "pr_command pr = cmd"
    by (auto simp: prepare_def cfg Let_def split: if_splits)
  have b: "\<exists>pre. xs = pre @ concat (map render (bwrap_args h cfg cmd (rq_cwd rq) sy scr))"
    if "build_bwrap_argv h cfg cmd (rq_cwd rq) sy scr = ok xs" for xs sy scr
    using that by (auto simp: build_bwrap_argv_def split: if_splits intro: exI [of _ "[bwrap_bin cfg]"])
  have sc: "\<exists>pre. ys = pre @ xs" if "build_scope_argv xs m n k = ok ys" for xs m n k ys
    using that by (auto simp: build_scope_argv_def split: if_splits)
  have "\<exists>pre sy scr. argv = pre @ concat (map render (bwrap_args h cfg cmd (rq_cwd rq) sy scr))"
    using argv assms(3) unfolding sandboxed_argv_def slirp_usable_def
    by (auto split: option.splits if_splits dest!: b sc) (metis append_assoc)+
  with base cfg pr that show thesis by metis
qed

text \<open>
  C3: A command runs under what is in force when it is spawned. Whatever happened since the call arrived -
  narrowings, grants given or used up, roots that moved the ceiling, other calls, changes of the
  disk - a command about to be spawned has passed the gates (no deny pattern, approved by the user if it
  is suspicious or high-memory), and its sandbox is computed from this moment: it can write exactly
  what the configured roots, the active scope of the store and the grants now in the store cover, or
  its working directory was bound over, except what the deny lists cover.
\<close>

theorem command_runs_under_what_is_in_force:
  assumes "build_server h0 w0 ts_ok kd sid ceil ro persist d pol r0 = ok (c, sv0)" "kd \<noteq> FsServer"
    and "(live_step c co p cmds)\<^sup>*\<^sup>* \<lparr>lv_server = sv0, lv_table = tb, lv_stage = (\<lambda>_. Arrived), lv_dialogs = []\<rparr> s"
    and "lv_stage s i = Admitted approved (Pinned tok cs)" "h = rt_host (sv_rt (lv_server s))"
    and "prepare h (w_slirp w) (w_fd w) (w_scope_name w) (ln_runner (lanes_of s)) (request_for cmds i) = ok pr"
    and "sandbox (sv_runner (lv_server s)) = Some sb" "slirp_usable (w_slirp w) (sv_runner (lv_server s))"
  shows "passed_gates pol (cmds i) approved \<and>
    (\<exists>base cfg pre sy scr. resolve_blacklist h (ln_runner (lanes_of s)) sb = ok base \<and>
      effective_sandbox h (ln_runner (lanes_of s)) = ok (Some cfg) \<and>
      pr_argv pr = pre @ concat (map render (bwrap_args h cfg (pr_command pr) (rq_cwd (request_for cmds i)) sy scr)) \<and>
      (\<forall>x. writable_in h (bwrap_args h cfg (pr_command pr) (rq_cwd (request_for cmds i)) sy scr) x =
        ((any_covers h (rw_binds sb @ scope_roots c (lv_server s) @ granted_roots (lv_server s)) x \<or>
          cwd_bound h cfg (rq_cwd (request_for cmds i)) x) \<and>
         \<not> any_covers h (protect_binds base @ exclude_binds base) x)))"
proof -
  let ?s0 = "\<lparr>lv_server = sv0, lv_table = tb, lv_stage = (\<lambda>_. Arrived), lv_dialogs = []\<rparr>"
  from assms(1,2) have c: "sc_kind c \<noteq> FsServer" "sc_policy c = pol" "in_step c sv0"
    by (auto simp: build_server_def Let_def in_step_def push_scope_def set_active_scope_def)
  have "gates_hold (sc_policy c) cmds ?s0" by (simp add: gates_hold_def)
  then have start: "gates_hold (sc_policy c) cmds ?s0 \<and> in_step c (lv_server ?s0)" using c(3) by simp
  from assms(3) start have inv: "gates_hold (sc_policy c) cmds s \<and> in_step c (lv_server s)"
    by (induction rule: rtranclp_induct) (use live_gates live_in_step c(1) in blast)+
  from inv assms(4) c(2) have gates: "passed_gates pol (cmds i) approved"
    by (auto simp: gates_hold_def dest!: spec [of _ i])
  have sb: "sandbox (ln_runner (lanes_of s)) = Some sb" using assms(7) by (simp add: lanes_of_def)
  have sl: "slirp_usable (w_slirp w) (ln_runner (lanes_of s))" using assms(8) by (simp add: lanes_of_def slirp_usable_def)
  from prepared_argv [OF assms(6) sb sl] obtain base cfg pre sy scr where
    p: "resolve_blacklist h (ln_runner (lanes_of s)) sb = ok base" "effective_sandbox h (ln_runner (lanes_of s)) = ok (Some cfg)"
      "pr_argv pr = pre @ concat (map render (bwrap_args h cfg (pr_command pr) (rq_cwd (request_for cmds i)) sy scr))" .
  note w = execute_writable_iff [OF sb p(1,2)]
  have "scope_rw (ln_runner (lanes_of s)) = scope_roots c (lv_server s)" "grant_rw (ln_runner (lanes_of s)) = granted_roots (lv_server s)"
    using inv scope_rw_in_step grant_rw_lanes by blast+
  with gates p w show ?thesis by (intro conjI exI [of _ base] exI [of _ cfg] exI [of _ pre] exI [of _ sy] exI [of _ scr]) auto
qed

section \<open>Everything is given back\<close>

definition at_rest :: "live \<Rightarrow> bool" where
  "at_rest s \<longleftrightarrow> (\<forall>i. case lv_stage s i of Admitted b ph \<Rightarrow> ph = Queued \<or> (\<exists>res. ph = Ended res) | _ \<Rightarrow> True)"

text \<open>
  C8: Every call gives back what it took. Over any interleaving of commands, tool calls, dialogs, listings
  and changes of the disk on one server - calls waiting, running, failing, withdrawn or cancelled
  anywhere - whenever no command is under way, the slot files are as they were at the start and no
  core is in use; and then a waiting command that fits the free slots can go on.
\<close>

theorem calls_give_everything_back:
  assumes "sound_files tb" "unheld p tb" "core_in_use (sv_runner sv0) = {}"
    and "(live_step c co p cmds)\<^sup>*\<^sup>* \<lparr>lv_server = sv0, lv_table = tb, lv_stage = (\<lambda>_. Arrived), lv_dialogs = []\<rparr> s"
    and "at_rest s"
  shows "lv_table s = tb \<and> core_in_use (sv_runner (lv_server s)) = {} \<and>
    (case lv_stage s i of
       Admitted b Queued \<Rightarrow> free_count tb < slots_of_call co (sv_runner (lv_server s)) (request_for cmds i) \<or>
         (\<exists>s' tok. live_step c co p cmds s s' \<and> lv_stage s' i = Admitted b (Slotted tok))
     | _ \<Rightarrow> True)"
proof -
  let ?s0 = "\<lparr>lv_server = sv0, lv_table = tb, lv_stage = (\<lambda>_. Arrived), lv_dialogs = []\<rparr>"
  have "lanes_inv p tb (lanes_of ?s0)"
    using assms(3) by (simp add: lanes_inv_def table_of_calls_def cores_of_calls_def lanes_of_def)
  with assms(4) have inv: "lanes_inv p tb (lanes_of s)"
    by (induction rule: rtranclp_induct) (use live_lanes assms(1,2) in blast)+
  have "idle (lanes_of s)"
    unfolding idle_def
  proof
    fix j
    from assms(5) show "ln_phase (lanes_of s) j = Queued \<or> (\<exists>res. ln_phase (lanes_of s) j = Ended res)"
      by (cases "lv_stage s j") (auto simp: at_rest_def lanes_of_def dest!: spec [of _ j])
  qed
  from idle_holds_nothing [OF inv this] have rest: "lv_table s = tb" "core_in_use (sv_runner (lv_server s)) = {}"
    by (simp_all add: lanes_of_def)
  have go: "\<exists>s' tok. live_step c co p cmds s s' \<and> lv_stage s' i = Admitted b (Slotted tok)"
    if "lv_stage s i = Admitted b Queued" "slots_of_call co (sv_runner (lv_server s)) (request_for cmds i) \<le> free_count tb" for b and w :: world
  proof -
    have "slots_of_call co (ln_runner (lanes_of s)) (request_for cmds i) \<le> free_count (ln_table (lanes_of s))"
      using that(2) rest(1) by (simp add: lanes_of_def slots_of_call_def call_weight_def)
    moreover have "sound_files (ln_table (lanes_of s))" "ln_phase (lanes_of s) i = Queued"
      using assms(1) rest(1) that(1) by (simp_all add: lanes_of_def)
    ultimately obtain tok t where "call_step co p (request_for cmds) (exec_env_of w (lv_server s)) i (lanes_of s)
        (set_phase i (Slotted tok) ((lanes_of s)\<lparr>ln_table := t\<rparr>))"
      using waiting_call_admitted [of "lanes_of s" i co "request_for cmds" p "exec_env_of w (lv_server s)"] by blast
    from live_step.runs [OF that(1) this] show ?thesis
      by (intro exI conjI) (assumption, simp add: put_lanes_def set_phase_def)
  qed
  show ?thesis
    using rest go by (auto split: stage.split phase.split) (meson not_le_imp_less)
qed

section \<open>The empty restriction\<close>

text \<open>The schema of \<open>restrict_paths\<close> says of the empty list that it allows no writes and no runs. Such a
  call always succeeds, and it opens the whole ceiling: to the file tools, and to commands.\<close>

lemma empty_restriction_opens_ceiling:
  assumes "run_handler c w HRestrict [(''paths'', JList [])] sv = (res, sv')"
  shows "is_ok res" "paths (scope (rt_store (sv_rt sv'))) = []"
    "\<not> sc_read_only c \<Longrightarrow> ceiling_path (sv_runner sv) = Some cl \<Longrightarrow> scope_roots c sv' = [rpath_str cl]"
    "is_subpath (host_of st) (rpath_path target) (rpath_path (sc_ceiling c)) \<Longrightarrow>
     validate_path_not_protected (host_of st) target (rpath_path (sc_ceiling c)) (Some (protect (sc_deny c))) = ok () \<Longrightarrow>
     fst (ensure_under_active_scope (op_context c sv') target st) = ok ()"
proof -
  have r: "\<exists>st. res = ok (RestrictReply (scope_reply (w_mac w) st)) \<and> paths (scope (rt_store (sv_rt sv'))) = [] \<and>
      ceiling_path (sv_runner sv') = ceiling_path (sv_runner sv)"
    using assms by (auto simp: run_handler_def restrict_def expected_seq_arg_def store_set_def Let_def push_scope_def set_active_scope_def)
  then show "is_ok res" and p: "paths (scope (rt_store (sv_rt sv'))) = []" by (auto simp: is_ok_iff)
  show "scope_roots c sv' = [rpath_str cl]" if "\<not> sc_read_only c" "ceiling_path (sv_runner sv) = Some cl"
    using r that by (auto simp: scope_roots_def)
  show "fst (ensure_under_active_scope (op_context c sv') target st) = ok ()"
    if "is_subpath (host_of st) (rpath_path target) (rpath_path (sc_ceiling c))"
      "validate_path_not_protected (host_of st) target (rpath_path (sc_ceiling c)) (Some (protect (sc_deny c))) = ok ()"
    using that p by (simp add: ensure_under_active_scope_def act_ask_def op_context_def Let_def)
qed

section \<open>A grant below which there is a denied directory\<close>

lemma git_refused_outside:
  assumes "''.git'' \<in> set x" "resolve_path_arg (host_of st) s (rpath_path (ctx_ceiling ctx)) = ok x"
    "\<not> is_subpath (host_of st) (rpath_path x) (rpath_path (ctx_ceiling ctx))"
  shows "\<not> is_ok (fst (op_resolve ctx s w st))"
  using assms
  by (auto simp: op_resolve_def finish_under_ceiling_def validate_grant_target_def contains_git is_ok_def Let_def
      split: option.split sum.split)

text \<open>
  C34: A grant is checked against the deny tier at its root only. A read-write grant for an existing
  directory lets every command write each \<open>.git\<close> directory below it (unless an entry of
  the protect or exclude lists covers it), although the same tier refuses that path to the file tools
  whatever has been granted, and refuses a grant for it.
\<close>

theorem grant_opens_git_to_commands:
  assumes "sandbox r = Some sb" "resolve_blacklist h r sb = ok base" "effective_sandbox h r = ok (Some conf)"
    and "grant_list r = Some gs" "g \<in> set gs" "gmode g = RW" "path_exists h (rpath_str (root g))"
    and "covers h (rpath_str (root g)) x" "''.git'' \<in> set x" "\<not> any_covers h (protect_binds base @ exclude_binds base) x"
  shows "writable_in h (bwrap_args h conf cmd d sy scr) x \<and> \<not> is_ok (validate_grant_target h x m cl dl) \<and>
    (\<forall>st ctx s w. host_of st = h \<longrightarrow> resolve_path_arg h s (rpath_path (ctx_ceiling ctx)) = ok x \<longrightarrow>
      \<not> is_subpath h (rpath_path x) (rpath_path (ctx_ceiling ctx)) \<longrightarrow> \<not> is_ok (fst (op_resolve ctx s w st)))"
proof (intro conjI allI impI)
  have "rpath_str (root g) \<in> set (grant_rw r)" using assms(4-6) by (auto simp: grant_rw_def)
  with assms(7,8) have "any_covers h (rw_binds sb @ scope_rw r @ grant_rw r) x" by (auto simp: any_covers_def list_ex_iff)
  with assms(10) show "writable_in h (bwrap_args h conf cmd d sy scr) x" by (simp add: execute_writable_iff [OF assms(1-3)])
  show "\<not> is_ok (validate_grant_target h x m cl dl)" using assms(9) by (simp add: validate_grant_target_def contains_git is_ok_def)
qed (use assms(9) git_refused_outside in blast)

definition repo_host :: host where
  "repo_host = default_host\<lparr>disk := [([''w''], DirN), ([''x''], DirN), ([''x'', ''.git''], DirN), ([''x'', ''.git'', ''config''], FileN ''c'')]\<rparr>"

definition repo_runner :: runner where
  "repo_runner = default_runner\<lparr>grant_list := Some (grant_add [] [''x''] RW Session)\<rparr>"

theorem grant_opens_git_to_commands_witness:
  "validate_grant_target repo_host [''x''] RW (Some (path_of ''/w'')) None = ok () \<and>
   writable_in repo_host (bwrap_args repo_host (effective_config repo_runner) ''git config x y'' None None None) [''x'', ''.git'', ''config'']"
proof
  show "validate_grant_target repo_host [''x''] RW (Some (path_of ''/w'')) None = ok ()" by code_simp
  have "resolve_blacklist repo_host repo_runner default_config = ok default_config" by code_simp
  moreover have "effective_sandbox repo_host repo_runner = ok (Some (effective_config repo_runner))" by code_simp
  moreover have "path_exists repo_host ''/x'' \<and> covers repo_host ''/x'' [''x'', ''.git'', ''config''] \<and>
     \<not> any_covers repo_host (protect_binds default_config @ exclude_binds default_config) [''x'', ''.git'', ''config'']" by code_simp
  moreover have "rpath_str [''x''] = ''/x''" by code_simp
  ultimately show "writable_in repo_host (bwrap_args repo_host (effective_config repo_runner) ''git config x y'' None None None) [''x'', ''.git'', ''config'']"
    using grant_opens_git_to_commands [of repo_runner default_config repo_host default_config "effective_config repo_runner" _ "\<lparr>root = [''x''], gmode = RW, lifetime = Session\<rparr>" "[''x'', ''.git'', ''config'']"]
    by (simp add: repo_runner_def default_runner_def grant_add_def)
qed

section \<open>A concrete run\<close>

definition live_coordinator :: coordinator where
  "live_coordinator = \<lparr>co_shared = True, co_max_concurrent = 2, co_weight_cap = 1\<rparr>"

definition live_calls :: command_calls where
  "live_calls = (\<lambda>_. (False, [(''command'', JStr ''ls'')]))"

definition live_demo :: "server \<Rightarrow> live" where
  "live_demo sv = \<lparr>lv_server = sv, lv_table = [Held (9, 0), Free], lv_stage = (\<lambda>_. Arrived), lv_dialogs = []\<rparr>"

lemma live_request: "request_for live_calls i = \<lparr>rq_command = ''ls'', rq_cwd = None, rq_weight = 1, rq_mem_mb = None,
    rq_cpu_sec = None, rq_high_memory = False\<rparr>"
  by (simp add: request_for_def live_calls_def read_request_def read_command_def int_arg_def str_arg_def)

lemma demo_shell:
  obtains c sv where "demo_server ShellServer False = ok (c, sv)" "sc_policy c = None" "sc_kind c = ShellServer"
    "sv_runner sv = default_runner" "rt_host (sv_rt sv) = state_host" "sv_grants sv = []"
proof -
  have "resolve_deny_lists state_host (rpath_path [''work'']) = ok \<lparr>exclude = [], protect = []\<rparr>" by code_simp
  moreover have "set_active_scope [] False default_runner = default_runner"
    by (simp add: set_active_scope_def default_runner_def demo_runner_def Runner_def Let_def)
  ultimately show thesis
    by (intro that) (auto simp: demo_server_def build_server_def store_init_def load_or_default_def empty_scope_def Let_def push_scope_def)
qed

text \<open>A call arrives, takes a slot and a core.\<close>

definition live_slotted :: "server \<Rightarrow> live" where
  "live_slotted sv = \<lparr>lv_server = sv, lv_table = [Held (9, 0), Held (7, 3)],
     lv_stage = (\<lambda>_. Arrived)(3 := Admitted False (Slotted [1])), lv_dialogs = []\<rparr>"

definition live_pinned :: "server \<Rightarrow> live" where
  "live_pinned sv = \<lparr>lv_server = sv\<lparr>sv_runner := default_runner\<lparr>core_in_use := {0}, grant_list := Some []\<rparr>, sv_grants := []\<rparr>,
     lv_table = [Held (9, 0), Held (7, 3)],
     lv_stage = (\<lambda>_. Arrived)(3 := Admitted False (Pinned [1] [0])), lv_dialogs = []\<rparr>"

definition with_store :: "server \<Rightarrow> server" where
  "with_store sv = sv\<lparr>sv_runner := default_runner\<lparr>grant_list := Some []\<rparr>, sv_grants := []\<rparr>"

lemma live_arrives:
  assumes "sc_policy c = None"
  shows "live_step c live_coordinator 7 live_calls (live_demo sv) (set_stage 3 (Admitted False Queued) (live_demo sv))"
proof -
  have "on_arrival None (live_calls 3) = Admitted False Queued"
    by (simp add: on_arrival_def to_runner_def live_calls_def read_request_def read_command_def int_arg_def str_arg_def denied_def suspicious_def)
  with live_step.arrives [of "live_demo sv" 3 c live_coordinator 7 live_calls] assms show ?thesis by (simp add: live_demo_def)
qed

lemma live_takes_slot:
  assumes "sv_runner sv = default_runner" "sv_grants sv = []"
  shows "live_step c live_coordinator 7 live_calls (set_stage 3 (Admitted False Queued) (live_demo sv)) (live_slotted (with_store sv))"
proof -
  let ?s = "set_stage 3 (Admitted False Queued) (live_demo sv)"
  have n: "slots_of_call live_coordinator r (request_for live_calls 3) = 1" for r
    by (simp add: slots_of_call_def live_coordinator_def slot_weight_def call_weight_def live_request)
  have r: "flock_round (7, 3) 1 [Held (9, 0), Free] = (ok (Some [1]), [Held (9, 0), Held (7, 3)])" by code_simp
  have "call_step live_coordinator 7 (request_for live_calls) (exec_env_of demo_world sv) 3 (lanes_of ?s)
      (set_phase 3 (Slotted [1]) ((lanes_of ?s)\<lparr>ln_table := [Held (9, 0), Held (7, 3)]\<rparr>))"
    by (rule call_step.acquired) (simp_all add: lanes_of_def set_stage_def live_demo_def n r r [simplified])
  then have "call_step live_coordinator 7 (request_for live_calls) (exec_env_of demo_world (lv_server ?s)) 3 (lanes_of ?s)
      (set_phase 3 (Slotted [1]) ((lanes_of ?s)\<lparr>ln_table := [Held (9, 0), Held (7, 3)]\<rparr>))"
    by (simp add: live_demo_def set_stage_def)
  from live_step.runs [of ?s 3 False Queued, OF _ this] show ?thesis
    by (simp add: set_stage_def live_demo_def put_lanes_def lanes_of_def set_phase_def live_slotted_def with_store_def assms)
qed

lemma live_takes_core:
  "live_step c live_coordinator 7 live_calls (live_slotted (with_store sv)) (live_pinned sv)"
proof -
  let ?s = "live_slotted (with_store sv)"
  have w: "call_weight r (request_for live_calls 3) = 1" for r by (simp add: call_weight_def live_request)
  have r: "claim_cores 1 (default_runner\<lparr>grant_list := Some []\<rparr>) = ([0], default_runner\<lparr>core_in_use := {0}, grant_list := Some []\<rparr>)"
    by (simp add: claim_cores_def default_runner_def demo_runner_def Runner_def Let_def)
  have "call_step live_coordinator 7 (request_for live_calls) (exec_env_of demo_world (lv_server ?s)) 3 (lanes_of ?s)
      (set_phase 3 (Pinned [1] [0]) ((lanes_of ?s)\<lparr>ln_runner := default_runner\<lparr>core_in_use := {0}, grant_list := Some []\<rparr>\<rparr>))"
    by (rule call_step.pinned) (simp_all add: lanes_of_def live_slotted_def with_store_def w r r [simplified])
  from live_step.runs [of ?s 3 False "Slotted [1]", OF _ this] show ?thesis
    by (simp add: live_slotted_def put_lanes_def lanes_of_def set_phase_def live_pinned_def with_store_def)
qed

lemma live_cancels:
  "live_step c live_coordinator 7 live_calls (live_slotted (with_store sv))
    ((live_slotted (with_store sv))\<lparr>lv_table := [Held (9, 0), Free], lv_stage := (\<lambda>_. Arrived)(3 := Admitted False (Ended None))\<rparr>)"
proof -
  let ?s = "live_slotted (with_store sv)"
  have r: "release_slots (7, 3) [1] [Held (9, 0), Held (7, 3)] = [Held (9, 0), Free]" by code_simp
  have "call_step live_coordinator 7 (request_for live_calls) (exec_env_of demo_world (lv_server ?s)) 3 (lanes_of ?s)
      (set_phase 3 (Ended None) (give_back_all (7, 3) [1] [] (lanes_of ?s)))"
    by (rule call_step.cancelled_slotted) (simp add: lanes_of_def live_slotted_def)
  from live_step.runs [of ?s 3 False "Slotted [1]", OF _ this] show ?thesis
    by (simp add: live_slotted_def put_lanes_def lanes_of_def set_phase_def give_back_all_def release_cores_def with_store_def r r [simplified])
qed

theorem command_runs_under_what_is_in_force_witness:
  "\<exists>c sv. demo_server ShellServer False = ok (c, sv) \<and>
     (live_step c live_coordinator 7 live_calls)\<^sup>*\<^sup>* (live_demo sv) (live_pinned sv) \<and> passed_gates None (live_calls 3) False"
proof -
  obtain c sv where s: "demo_server ShellServer False = ok (c, sv)" and c: "sc_policy c = None" "sc_kind c = ShellServer"
    and sv: "sv_runner sv = default_runner" "rt_host (sv_rt sv) = state_host" "sv_grants sv = []" by (rule demo_shell)
  have reach: "(live_step c live_coordinator 7 live_calls)\<^sup>*\<^sup>* (live_demo sv) (live_pinned sv)"
    using live_arrives [OF c(1), of sv] live_takes_slot [OF sv(1,3), of c] live_takes_core [of c sv]
    by (meson converse_rtranclp_into_rtranclp rtranclp.rtrancl_refl)
  have "is_ok (prepare state_host True 5 ''s'' (default_runner\<lparr>core_in_use := {0}, grant_list := Some []\<rparr>)
      \<lparr>rq_command = ''ls'', rq_cwd = None, rq_weight = 1, rq_mem_mb = None, rq_cpu_sec = None, rq_high_memory = False\<rparr>)"
    by code_simp
  then obtain pr where "prepare state_host True 5 ''s'' (default_runner\<lparr>core_in_use := {0}, grant_list := Some []\<rparr>)
      (request_for live_calls 3) = ok pr" by (auto simp: is_ok_iff live_request)
  then have pr: "prepare state_host (w_slirp demo_world) (w_fd demo_world) (w_scope_name demo_world) (ln_runner (lanes_of (live_pinned sv)))
      (request_for live_calls 3) = ok pr"
    using sv(3) by (simp add: demo_world_def lanes_of_def live_pinned_def)
  have "passed_gates None (live_calls 3) False"
    by (rule command_runs_under_what_is_in_force [OF s [unfolded demo_server_def] _ reach [unfolded live_demo_def] _ _ pr, THEN conjunct1])
      (simp_all add: live_pinned_def sv(2) default_runner_def slirp_usable_def demo_world_def)
  with s reach show ?thesis by blast
qed

theorem calls_give_everything_back_witness:
  "\<exists>c sv s. demo_server ShellServer False = ok (c, sv) \<and>
     (live_step c live_coordinator 7 live_calls)\<^sup>*\<^sup>* (live_demo sv) s \<and> lv_stage s 3 = Admitted False (Ended None) \<and>
     lv_table s = [Held (9, 0), Free]"
proof -
  obtain c sv where s: "demo_server ShellServer False = ok (c, sv)" and c: "sc_policy c = None"
    and sv: "sv_runner sv = default_runner" "sv_grants sv = []" by (rule demo_shell)
  let ?s = "(live_slotted (with_store sv))\<lparr>lv_table := [Held (9, 0), Free], lv_stage := (\<lambda>_. Arrived)(3 := Admitted False (Ended None))\<rparr>"
  have reach: "(live_step c live_coordinator 7 live_calls)\<^sup>*\<^sup>* (live_demo sv) ?s"
    using live_arrives [OF c(1), of sv] live_takes_slot [OF sv, of c] live_cancels [of c sv]
    by (meson converse_rtranclp_into_rtranclp rtranclp.rtrancl_refl)
  have "sound_files [Held (9, 0), Free]" "unheld 7 [Held (9, 0), Free]" "core_in_use (sv_runner sv) = {}" "at_rest ?s"
    by (auto simp: sound_files_def unheld_def less_Suc_eq at_rest_def sv(1) default_runner_def demo_runner_def Runner_def Let_def)
  from calls_give_everything_back [OF this(1-3) reach [unfolded live_demo_def] this(4)]
  have "lv_table ?s = [Held (9, 0), Free]" by simp
  with s reach show ?thesis by (intro exI [of _ c] exI [of _ sv] exI [of _ ?s]) simp
qed

end
