(* ===== verification/Dialogs.thy ===== *)
theory Dialogs
  imports Live_Server
begin

text \<open>
  The dialogs of \<open>hares/policy.py\<close>: the texts a user is shown, the forms that go with them, and what the texts
  say against what is then done. A dialog names a command, a budget or a path; when no name has
  a backtick in it, a text stands for one request only.
\<close>

section \<open>Texts and forms\<close>

definition nl :: string where
  "nl = [CHR 0x0A]"

text \<open>The two characters beyond ASCII are given by their UTF-8 bytes.\<close>

definition em_dash :: string where
  "em_dash = [CHR 0xE2, CHR 0x80, CHR 0x94]"

definition warning_sign :: string where
  "warning_sign = [CHR 0xE2, CHR 0x9A, CHR 0xA0, CHR 0xEF, CHR 0xB8, CHR 0x8F]"

definition approval_message :: "string \<Rightarrow> string \<Rightarrow> string" where
  "approval_message pattern cmd =
     ''**Command requires approval**'' @ nl @ nl @ ''Pattern matched: `'' @ pattern @ ''`'' @ nl @ nl @
     ''```'' @ nl @ cmd @ nl @ ''```'' @ nl @ nl @ ''This command may write to a remote system. Allow it to run?''"

definition memory_message :: "string \<Rightarrow> int \<Rightarrow> int \<Rightarrow> string" where
  "memory_message cmd mb normal_cap =
     ''**High-memory command requires approval**'' @ nl @ nl @ ''The following command is requesting **'' @ int_str mb @
     '' MB** of memory, which exceeds the normal cap of **'' @ int_str normal_cap @ '' MB**:'' @ nl @ nl @
     ''```'' @ nl @ cmd @ nl @ ''```'' @ nl @ nl @ ''This run will be **cgroup-bounded** to '' @ int_str mb @
     '' MB in aggregate (including all child processes), so even if the command exhausts its allocation the kernel '' @
     ''OOM killer is scoped to the command's cgroup '' @ em_dash @ '' it cannot take down the MCP session. Allow this high-memory run?''"

definition mode_label :: "gmode \<Rightarrow> string" where
  "mode_label m = (if m = RW then ''read-write'' else ''read-only'')"

definition mode_str :: "gmode \<Rightarrow> string" where
  "mode_str m = (if m = RW then ''rw'' else ''ro'')"

text \<open>The part between the path and the reason.\<close>

definition hard_facts :: "gmode \<Rightarrow> bool \<Rightarrow> string" where
  "hard_facts m read_only = ''`'' @ nl @ ''Mode: **'' @ mode_label m @ ''** ('' @ mode_str m @ '')'' @ nl @ nl @ warning_sign @
     '' This path is OUTSIDE the current sandbox scope. If this is a directory, the grant covers its ENTIRE subtree. '' @
     ''Approving this grants the agent '' @ mode_label m @ '' access to it for the lifetime you choose below.'' @ nl @ nl @
     (if read_only \<and> m = RO then ''(Server is running --read-only; only read-only grants can be issued.)'' @ nl @ nl else []) @
     ''Agent's stated reason: ''"

definition path_access_message :: "string \<Rightarrow> gmode \<Rightarrow> string \<Rightarrow> bool \<Rightarrow> string" where
  "path_access_message path m why read_only =
     ''**Runtime path-access request**'' @ nl @ nl @ ''Path (resolved): `'' @ path @ hard_facts m read_only @ why"

definition ELICIT_DECISION_SCHEMA :: schema where
  "ELICIT_DECISION_SCHEMA = TObject [(''decision'', TString (Some [''allow'', ''deny'']))] [''decision'']"

definition grant_form :: schema where
  "grant_form = TObject [(''grant'', TString (Some [''once'', ''session'', ''deny'']))] [''grant'']"

text \<open>An answer that fills in the form is taken as it is.\<close>

lemma conforming_decision:
  assumes "conforms ELICIT_DECISION_SCHEMA k"
  shows "elicit_approval (Some (Responded (Some ''accept'') k)) = (content_field k ''decision'' = JStr ''allow'')"
  using assms unfolding ELICIT_DECISION_SCHEMA_def
  by (auto simp: conforms_object shape_facts elicit_approval_def send_elicitation_def content_field_def)

lemma conforming_grant:
  assumes "conforms grant_form k"
  shows "elicit_path_access_approval (Some (Responded (Some ''accept'') k)) =
    (if content_field k ''grant'' = JStr ''once'' then Some Once
     else if content_field k ''grant'' = JStr ''session'' then Some Session else None)"
  using assms unfolding grant_form_def
  by (auto simp: conforms_object shape_facts elicit_path_access_approval_def content_field_def Let_def)

section \<open>A text stands for one request\<close>

lemma cut_at_tick: "CHR ''`'' \<notin> set a \<Longrightarrow> CHR ''`'' \<notin> set b \<Longrightarrow> a @ ''`'' @ x = b @ ''`'' @ y \<longleftrightarrow> a = b \<and> x = y"
  using cut_at_NUL [of "CHR ''`''" a b x y] by simp

lemma approval_message_inj:
  assumes "CHR ''`'' \<notin> set p" "CHR ''`'' \<notin> set p'"
  shows "approval_message p c = approval_message p' c' \<longleftrightarrow> p = p' \<and> c = c'"
proof -
  have "approval_message p c = approval_message p' c' \<longleftrightarrow>
      p @ ''`'' @ nl @ nl @ ''```'' @ nl @ c @ nl @ ''```'' @ nl @ nl @ ''This command may write to a remote system. Allow it to run?'' =
      p' @ ''`'' @ nl @ nl @ ''```'' @ nl @ c' @ nl @ ''```'' @ nl @ nl @ ''This command may write to a remote system. Allow it to run?''"
    unfolding approval_message_def by (simp only: same_append_eq)
  also have "\<dots> \<longleftrightarrow> p = p' \<and> c = c'"
    unfolding cut_at_tick [OF assms] by (simp only: same_append_eq append_same_eq append_assoc [symmetric])
  finally show ?thesis .
qed

lemma int_str_no_space: "CHR '' '' \<notin> set (int_str i)"
proof -
  have "is_space (CHR '' '')" by (simp add: is_space_def)
  then have "CHR '' '' \<notin> set (nat_str n)" for n using nat_str_no_space by blast
  then show ?thesis by (simp add: int_str_def)
qed

lemma cut_at_literal: "z \<notin> set a \<Longrightarrow> z \<notin> set b \<Longrightarrow> a @ (z # lit) @ x = b @ (z # lit) @ y \<longleftrightarrow> a = b \<and> x = y"
  using cut_at_NUL [of z a b "lit @ x" "lit @ y"] by simp

lemma memory_message_inj:
  assumes "memory_message c mb cap = memory_message c' mb' cap'"
  shows "c = c' \<and> mb = mb' \<and> cap = cap'"
proof -
  note cut = cut_at_literal [OF int_str_no_space int_str_no_space]
  have suffix: "c @ s = c' @ s \<longleftrightarrow> c = c'" for s by (rule append_same_eq)
  from assms have m: "mb = mb'" and cap: "cap = cap'"
    unfolding memory_message_def same_append_eq cut int_str_inj by blast+
  from assms show ?thesis
    unfolding memory_message_def m cap same_append_eq cut suffix by blast
qed

lemma path_access_message_inj:
  assumes "CHR ''`'' \<notin> set p" "CHR ''`'' \<notin> set p'" "path_access_message p m why ro = path_access_message p' m' why' ro'"
  shows "p = p' \<and> m = m' \<and> why = why'"
proof -
  define rest where "rest m ro why = tl (hard_facts m ro) @ why" for m ro why
  have tick: "hard_facts m ro @ why = ''`'' @ rest m ro why" for m ro why by (simp add: rest_def hard_facts_def)
  from assms(3) have "p @ hard_facts m ro @ why = p' @ hard_facts m' ro' @ why'"
    by (simp only: path_access_message_def same_append_eq)
  then have "p = p'" and r: "rest m ro why = rest m' ro' why'"
    by (simp_all only: tick cut_at_tick [OF assms(1,2)])
  from r have m: "m = m'"
    by (cases m; cases m') (simp_all add: rest_def hard_facts_def mode_label_def nl_def)
  with r have "why = why'"
    by (cases m'; cases ro; cases ro') (simp_all add: rest_def hard_facts_def nl_def mode_label_def mode_str_def)
  with \<open>p = p'\<close> m show ?thesis by blast
qed

section \<open>What is shown and what is done\<close>

text \<open>What the user is asked to approve, and the text of the dialog of a call, when it gets to one. The
  budgets shown are the operator's as the server was given them.\<close>

datatype asked = ToRun string | ToRunBig string int | ToOpen string gmode

definition asked_for :: "int \<Rightarrow> policy_engine option \<Rightarrow> host \<Rightarrow> grant_cfg \<Rightarrow> handler \<Rightarrow> args \<Rightarrow> asked option" where
  "asked_for max_mb pol h g k a = (case k of
      HExec high \<Rightarrow>
        if on_arrival pol (high, a) \<noteq> Asking then None
        else (case read_command a of Inl e \<Rightarrow> None
          | Inr cmd \<Rightarrow>
              if high then (case raw_mb a of Inl e \<Rightarrow> None | Inr mb \<Rightarrow> Some (ToRunBig cmd (requested_mb max_mb mb)))
              else Some (ToRun cmd))
    | HGrant \<Rightarrow> map_option (\<lambda>(t, m). ToOpen (rpath_str t) m) (grant_candidate h g a)
    | _ \<Rightarrow> None)"

definition dialog_text :: "int \<Rightarrow> int \<Rightarrow> policy_engine option \<Rightarrow> host \<Rightarrow> grant_cfg \<Rightarrow> handler \<Rightarrow> args \<Rightarrow> string option" where
  "dialog_text cap max_mb pol h g k a = (case asked_for max_mb pol h g k a of
      None \<Rightarrow> None
    | Some (ToRun cmd) \<Rightarrow> Some (approval_message (the (matched_pattern (policy_check (the pol) cmd))) cmd)
    | Some (ToRunBig cmd mb) \<Rightarrow> Some (memory_message cmd mb cap)
    | Some (ToOpen path m) \<Rightarrow> Some (path_access_message path m (string_of (jget a ''reason'')) (gt_read_only g)))"

lemma asked_to_run:
  assumes "asked_for max_mb pol h g k a = Some (ToRun cmd)"
  shows "\<exists>e. pol = Some e \<and> the (matched_pattern (policy_check e cmd)) \<in> set (suspect_pats e)"
proof -
  from assms have "k = HExec False" "on_arrival pol (False, a) = Asking" "read_command a = ok cmd"
    by (auto simp: asked_for_def split: handler.splits sum.splits if_splits)
  then have "suspicious pol cmd" by (auto simp: on_arrival_def to_runner_def split: if_splits sum.splits)
  then obtain e where e: "pol = Some e" "\<not> matches_any (deny_pats e) cmd" "matches_any (suspect_pats e) cmd"
    by (auto simp: suspicious_def split: option.splits)
  then obtain p where p: "find (fnmatch cmd) (suspect_pats e) = Some p" "find (fnmatch cmd) (deny_pats e) = None"
    using find_matches [of cmd] by (meson not_None_eq)
  then have "p \<in> set (suspect_pats e)" by (auto simp: find_Some_iff)
  with p e(1) show ?thesis by (simp add: policy_check_def)
qed

lemma message_kinds:
  "approval_message pat c \<noteq> memory_message c' mb cap" "approval_message pat c \<noteq> path_access_message path m why ro"
  "memory_message c' mb cap \<noteq> path_access_message path m why ro"
  by (simp_all add: approval_message_def memory_message_def path_access_message_def)

text \<open>
  C30: a dialog stands for what is done on it. When no pattern of the policy and no path asked for has a
  backtick in it, two requests of a server that show the user the same text are for the same thing -
  the same command, with the same memory budget, or the same resolved path in the same mode - so an answer to
  the text is an answer to the request, whatever the agent gives as its reason.
\<close>

theorem same_dialog_same_request:
  assumes "dialog_text cap max_mb pol h g k a = Some txt" "dialog_text cap max_mb pol h' g' k' b = Some txt"
    and "\<forall>e. pol = Some e \<longrightarrow> (\<forall>p \<in> set (suspect_pats e). CHR ''`'' \<notin> set p)"
    and "\<forall>p m. asked_for max_mb pol h g k a = Some (ToOpen p m) \<or> asked_for max_mb pol h' g' k' b = Some (ToOpen p m) \<longrightarrow> CHR ''`'' \<notin> set p"
  shows "asked_for max_mb pol h g k a = asked_for max_mb pol h' g' k' b"
proof -
  obtain x y where x: "asked_for max_mb pol h g k a = Some x" and y: "asked_for max_mb pol h' g' k' b = Some y"
    using assms(1,2) by (auto simp: dialog_text_def split: option.splits)
  note t = assms(1,2) [unfolded dialog_text_def x y option.case]
  note kinds = message_kinds message_kinds [THEN not_sym]
  show ?thesis
  proof (cases x)
    case (ToRun c)
    with t kinds obtain c' where y': "y = ToRun c'" by (cases y) (simp_all, metis+)
    have "c = c'"
      using t assms(3) asked_to_run [OF x [unfolded ToRun]] asked_to_run [OF y [unfolded y']]
      by (auto simp: ToRun y' dest!: approval_message_inj [THEN iffD1, rotated -1])
    then show ?thesis by (simp add: x y ToRun y')
  next
    case (ToRunBig c mb)
    with t kinds obtain c' mb' where y': "y = ToRunBig c' mb'" by (cases y) (simp_all, metis+)
    with t ToRunBig memory_message_inj [of c mb cap c' mb' cap] show ?thesis by (simp add: x y)
  next
    case (ToOpen p m)
    with t kinds obtain p' m' where y': "y = ToOpen p' m'" by (cases y) (simp_all, metis+)
    from t have "path_access_message p m (string_of (jget a ''reason'')) (gt_read_only g) =
        path_access_message p' m' (string_of (jget b ''reason'')) (gt_read_only g')"
      unfolding ToOpen y' asked.case by simp
    with assms(4) x y have "p = p' \<and> m = m'"
      unfolding ToOpen y' using path_access_message_inj by blast
    then show ?thesis by (simp add: x y ToOpen y')
  qed
qed

text \<open>Without that condition it fails: the text for a path can contain the whole text for another path
  in another mode.\<close>

lemma path_dialog_can_be_forged:
  "prefix (path_access_message p RO why ro) (path_access_message (p @ hard_facts RO ro @ why) RW why' ro)"
  by (simp add: path_access_message_def)

section \<open>The budget the user approves\<close>

text \<open>
  C31: the memory dialog says to which budget the run is bounded. That is the bound of the run, or above it, when the
  caller gives a budget, or when the maximum of the operator is at least the normal cap; without a
  budget and with a smaller maximum the dialog states the maximum while the run may use the normal cap.
\<close>

theorem approved_budget_bounds_the_run:
  assumes "Runner maxc mem_mb cpu (Some max_mb) ah ch cg rw sb ceil np gs cores = ok r"
    and "read_request a True = ok rq" "raw_mb a = ok mb" "mb \<noteq> None \<longrightarrow> 1 \<le> the mb"
  shows "aggregate_bytes r rq \<le> requested_mb max_mb mb * MB \<longleftrightarrow> mb \<noteq> None \<or> mem_bytes r \<le> max_mb * MB"
proof -
  have rq: "rq_mem_mb rq = mb" "rq_high_memory rq"
  proof -
    from assms(2) have r: "int_arg a ''mem_limit_mb'' = ok (rq_mem_mb rq)" "rq_high_memory rq"
      unfolding read_request_def by auto
    from r(1) assms(3) show "rq_mem_mb rq = mb"
      by (cases "jget a ''mem_limit_mb''") (auto simp: raw_mb_def int_arg_def int_of_arg_def simp del: jget.simps)
    show "rq_high_memory rq" by (rule r(2))
  qed
  show ?thesis
  proof (cases mb)
    case None
    with assms(1) show ?thesis
      by (auto simp: aggregate_bytes_def mem_budget_def rq requested_mb_def Runner_def Let_def clamp_hard_def MB_def split: if_splits)
  next
    case (Some m)
    with assms(4) show ?thesis by (auto simp: aggregate_bytes_def mem_budget_def rq requested_mb_def Let_def)
  qed
qed

text \<open>With the default cap on a machine of four gigabytes the dialog says 3686, and the run gets 7168.\<close>

lemma default_maximum_understated:
  assumes "Runner 2 7168 1200 (Some 3686) (-1) (-1) cg rw sb ceil np gs cores = ok r" "rq_high_memory rq" "rq_mem_mb rq = None"
  shows "requested_mb 3686 None = 3686" "aggregate_bytes r rq = 7168 * MB"
  using assms by (auto simp: requested_mb_def aggregate_bytes_def mem_budget_def Runner_def Let_def clamp_hard_def MB_def)

definition big_call :: args where
  "big_call = [(''command'', JStr ''make -j''), (''mem_limit_mb'', JInt 2000)]"

theorem approved_budget_bounds_the_run_witness:
  "\<exists>rq. read_request big_call True = ok rq \<and> aggregate_bytes demo_runner rq \<le> 2000 * MB"
proof -
  obtain rq where rq: "read_request big_call True = ok rq"
    by (simp add: read_request_def big_call_def read_command_def int_arg_def int_of_arg_def str_arg_def)
  have "raw_mb big_call = ok (Some 2000)" by (simp add: raw_mb_def big_call_def)
  from approved_budget_bounds_the_run [OF demo_runner_ok rq this] have "aggregate_bytes demo_runner rq \<le> 2000 * MB"
    by (simp add: requested_mb_def)
  with rq show ?thesis by blast
qed

definition push_call :: args where
  "push_call = [(''command'', JStr ''git push''), (''weight'', JInt 2)]"

definition plain_push :: args where
  "plain_push = [(''command'', JStr ''git push'')]"

definition demo_policy :: "policy_engine option" where
  "demo_policy = Some (PolicyEngine [] [''*git push*''])"

definition demo_grants :: grant_cfg where
  "demo_grants = \<lparr>gt_ceiling = Some [''w''], gt_deny = None, gt_read_only = False\<rparr>"

theorem same_dialog_same_request_witness:
  "dialog_text 1024 4096 demo_policy default_host demo_grants (HExec False) push_call =
     Some (approval_message ''*git push*'' ''git push'') \<and>
   asked_for 4096 demo_policy default_host demo_grants (HExec False) push_call =
     asked_for 4096 demo_policy default_host demo_grants (HExec False) plain_push"
proof -
  let ?asked = "asked_for 4096 demo_policy default_host demo_grants (HExec False)"
  let ?text = "dialog_text 1024 4096 demo_policy default_host demo_grants (HExec False)"
  have g: "\<not> denied demo_policy ''git push''" "suspicious demo_policy ''git push''"
    "the (matched_pattern (policy_check (the demo_policy) ''git push'')) = ''*git push*''" by code_simp+
  have c: "read_command push_call = ok ''git push''" "read_command plain_push = ok ''git push''"
    by (simp_all add: read_command_def push_call_def plain_push_def)
  have asked: "?asked push_call = Some (ToRun ''git push'')" "?asked plain_push = Some (ToRun ''git push'')"
    by (simp_all add: asked_for_def on_arrival_def c g)
  then have shown: "?text push_call = Some (approval_message ''*git push*'' ''git push'')"
    "?text plain_push = Some (approval_message ''*git push*'' ''git push'')" by (simp_all add: dialog_text_def g(3))
  from same_dialog_same_request [OF shown] asked have "?asked push_call = ?asked plain_push"
    by (simp add: demo_policy_def PolicyEngine_def normalise_pattern_def)
  with shown show ?thesis by blast
qed

end
