(* ===== verification/Pool_Lock.thy ===== *)
theory Pool_Lock
  imports Core_Pool
begin

text \<open>
  The lock of the core pool (\<open>_LockCtx\<close>, \<open>_core_pool_lock\<close>, \<open>_write_core_pool\<close> of \<open>hares/coordination.py\<close>):
  several processes read, change and replace the pool file, each in the steps the system calls make. A path
  names an inode, a lock belongs to the inode that was opened, and a replace gives the path a new one; so
  the code locks a file beside the pool and never the pool itself. With that the operations of
  \<open>Core_Pool\<close> are atomic; with the pool file as its own lock they are not.
\<close>

section \<open>Steps\<close>

datatype where_in =
    Outside
  | Opened nat
  | Locked nat
  | HasRead nat "file_content option"
  | Done nat

record pool_sys =
  pool_inode :: nat
  inode_content :: "nat \<Rightarrow> file_content option"
  next_inode :: nat
  lock_holder :: "nat \<Rightarrow> int option"
  proc :: "int \<Rightarrow> where_in"

definition lock_inode :: nat where
  "lock_inode = 0"

definition pool_value :: "pool_sys \<Rightarrow> file_content option" where
  "pool_value s = inode_content s (pool_inode s)"

text \<open>What a process does under the lock: claim, with the processes it sees alive, or release what it
  claimed. \<open>None\<close> when it raises or gives up before it writes.\<close>

datatype pool_op = Claim "int list" | Release "nat list"

definition apply_op :: "nat list \<Rightarrow> int \<Rightarrow> int \<Rightarrow> pool_op \<Rightarrow> file_content option \<Rightarrow> file_content option option" where
  "apply_op all_cores max_concurrent pid op file = (case op of
      Claim alive \<Rightarrow> (case claim_shared_cores (\<lambda>p. p \<in> set alive) all_cores max_concurrent pid file of
          (Inl e, file') \<Rightarrow> None | (Inr chosen, file') \<Rightarrow> Some file')
    | Release claimed \<Rightarrow> (case release_host_cores True pid claimed file of
          (claimed', file') \<Rightarrow> if claimed \<noteq> [] \<and> claimed' = [] then Some file' else None))"

datatype action = OpenLock | Flock | ReadPool | Replace pool_op | Unlock | Die

text \<open>\<open>dedicated\<close> is the code: the file opened for the lock is the one beside the pool. Without it, it is
  the pool file as the path names it at that moment. A blocked \<open>flock\<close> is no step.\<close>

definition lock_target :: "bool \<Rightarrow> pool_sys \<Rightarrow> nat" where
  "lock_target dedicated s = (if dedicated then lock_inode else pool_inode s)"

definition move_to :: "int \<Rightarrow> where_in \<Rightarrow> pool_sys \<Rightarrow> pool_sys" where
  "move_to p w s = s\<lparr>proc := (proc s)(p := w)\<rparr>"

definition replace_pool :: "file_content option \<Rightarrow> pool_sys \<Rightarrow> pool_sys" where
  "replace_pool file s = s\<lparr>inode_content := (inode_content s)(next_inode s := file),
     pool_inode := next_inode s, next_inode := Suc (next_inode s)\<rparr>"

definition pool_step ::
  "bool \<Rightarrow> nat list \<Rightarrow> int \<Rightarrow> int \<times> action \<Rightarrow> pool_sys \<Rightarrow> pool_sys option" where
  "pool_step dedicated all_cores max_concurrent = (\<lambda>(p, a) s. case (a, proc s p) of
      (OpenLock, Outside) \<Rightarrow> Some (move_to p (Opened (lock_target dedicated s)) s)
    | (Flock, Opened i) \<Rightarrow> if lock_holder s i = None
        then Some (move_to p (Locked i) (s\<lparr>lock_holder := (lock_holder s)(i \<mapsto> p)\<rparr>)) else None
    | (ReadPool, Locked i) \<Rightarrow> Some (move_to p (HasRead i (pool_value s)) s)
    | (Replace op, HasRead i file) \<Rightarrow> (case apply_op all_cores max_concurrent p op file of
        None \<Rightarrow> Some (move_to p (Done i) s)
      | Some file' \<Rightarrow> Some (move_to p (Done i) (replace_pool file' s)))
    | (Unlock, Done i) \<Rightarrow> Some (move_to p Outside (s\<lparr>lock_holder := (lock_holder s)(i := None)\<rparr>))
    | (Die, _) \<Rightarrow> Some (move_to p Outside
        (s\<lparr>lock_holder := (\<lambda>i. if lock_holder s i = Some p then None else lock_holder s i)\<rparr>))
    | _ \<Rightarrow> None)"

fun run_pool :: "bool \<Rightarrow> nat list \<Rightarrow> int \<Rightarrow> (int \<times> action) list \<Rightarrow> pool_sys \<Rightarrow> pool_sys option" where
  "run_pool dedicated all_cores m [] s = Some s"
| "run_pool dedicated all_cores m (x # xs) s = (case pool_step dedicated all_cores m x s of
      None \<Rightarrow> None | Some s1 \<Rightarrow> run_pool dedicated all_cores m xs s1)"

text \<open>Nobody is inside; the lock file is inode 0, the pool file another.\<close>

definition pool_start :: "file_content option \<Rightarrow> pool_sys" where
  "pool_start file = \<lparr>pool_inode = 1, inode_content = (\<lambda>i. if i = 1 then file else None), next_inode = 2,
     lock_holder = (\<lambda>_. None), proc = (\<lambda>_. Outside)\<rparr>"

section \<open>Operations under the dedicated lock are atomic\<close>

text \<open>What is true of a process by where it is.\<close>

definition fits :: "pool_sys \<Rightarrow> int \<Rightarrow> where_in \<Rightarrow> bool" where
  "fits s p w = (case w of
      Outside \<Rightarrow> True
    | Opened i \<Rightarrow> i = lock_inode
    | Locked i \<Rightarrow> i = lock_inode \<and> lock_holder s i = Some p
    | HasRead i file \<Rightarrow> i = lock_inode \<and> lock_holder s i = Some p \<and> file = pool_value s
    | Done i \<Rightarrow> i = lock_inode \<and> lock_holder s i = Some p)"

definition pool_inv :: "pool_sys \<Rightarrow> bool" where
  "pool_inv s \<longleftrightarrow> (\<forall>p. fits s p (proc s p))"

text \<open>The atomic operations, one after another.\<close>

definition apply_all :: "nat list \<Rightarrow> int \<Rightarrow> (int \<times> pool_op) list \<Rightarrow> file_content option \<Rightarrow> file_content option" where
  "apply_all all_cores m = fold (\<lambda>(p, op) file. case apply_op all_cores m p op file of None \<Rightarrow> file | Some file' \<Rightarrow> file')"

text \<open>The operations of a history, in the order of their replaces.\<close>

definition replaces :: "(int \<times> action) list \<Rightarrow> (int \<times> pool_op) list" where
  "replaces = List.map_filter (\<lambda>(p, a). case a of Replace op \<Rightarrow> Some (p, op) | _ \<Rightarrow> None)"

lemma pool_value_simps [simp]:
  "pool_value (move_to p w s) = pool_value s" "pool_value (replace_pool file s) = file"
  "pool_value (s\<lparr>lock_holder := h\<rparr>) = pool_value s"
  "proc (move_to p w s) = (proc s)(p := w)" "proc (replace_pool file s) = proc s"
  "lock_holder (move_to p w s) = lock_holder s" "lock_holder (replace_pool file s) = lock_holder s"
  by (simp_all add: pool_value_def move_to_def replace_pool_def)

lemma fits_move [simp]: "fits (move_to p w s) = fits s"
  by (intro ext) (simp add: fits_def split: where_in.split)

lemma pool_inv_move: "pool_inv (move_to p w s) \<longleftrightarrow> fits s p w \<and> (\<forall>q. q \<noteq> p \<longrightarrow> fits s q (proc s q))"
  by (auto simp: pool_inv_def)

lemma pool_invD: "pool_inv s \<Longrightarrow> fits s p (proc s p)"
  by (simp add: pool_inv_def)

text \<open>Beside the holder of the lock everyone is outside or waiting for it.\<close>

lemma others_outside:
  assumes "pool_inv s" "lock_holder s lock_inode = Some p" "q \<noteq> p"
  shows "proc s q = Outside \<or> proc s q = Opened lock_inode"
  using pool_invD [OF assms(1), of q] assms(2,3) by (cases "proc s q") (auto simp: fits_def)

lemma others_fit:
  assumes "pool_inv s" "lock_holder s lock_inode = Some p" "q \<noteq> p"
  shows "fits t q (proc s q)"
  using others_outside [OF assms] by (auto simp: fits_def)

lemma pool_step_value:
  assumes "pool_inv s" "pool_step True all_cores m (p, a) s = Some s'"
  shows "pool_value s' = apply_all all_cores m (replaces [(p, a)]) (pool_value s)"
  using assms(2) pool_invD [OF assms(1), of p]
  by (auto simp: pool_step_def apply_all_def replaces_def List.map_filter_def fits_def
    split: action.splits where_in.splits if_splits option.splits)

lemma pool_step_inv [inv_facts]:
  assumes "pool_inv s" "pool_step True all_cores m (p, a) s = Some s'"
  shows "pool_inv s'"
proof -
  note fit = pool_invD [OF assms(1)] and alone = others_fit [OF assms(1)]
  show ?thesis
  proof (cases a)
    case OpenLock
    with assms fit show ?thesis
      by (auto simp: pool_step_def lock_target_def pool_inv_move fits_def [of _ _ "Opened _"] split: where_in.splits)
  next
    case Flock
    with assms(2) fit [of p] have h: "lock_holder s lock_inode = None"
        "s' = move_to p (Locked lock_inode) (s\<lparr>lock_holder := (lock_holder s)(lock_inode \<mapsto> p)\<rparr>)"
      by (auto simp: pool_step_def fits_def split: where_in.splits if_splits)
    have "fits t q (proc s q)" for q t using fit [of q] h(1) by (auto simp: fits_def split: where_in.splits)
    with h(2) show ?thesis by (simp add: pool_inv_move fits_def [of _ _ "Locked _"])
  next
    case ReadPool
    with assms(2) fit [of p] have "lock_holder s lock_inode = Some p" "s' = move_to p (HasRead lock_inode (pool_value s)) s"
      by (auto simp: pool_step_def fits_def split: where_in.splits)
    with fit show ?thesis by (simp add: pool_inv_move fits_def [of _ _ "HasRead _ _"])
  next
    case (Replace op)
    with assms(2) fit [of p] have h: "lock_holder s lock_inode = Some p"
        "s' = move_to p (Done lock_inode) s \<or> (\<exists>file. s' = move_to p (Done lock_inode) (replace_pool file s))"
      by (auto simp: pool_step_def fits_def split: where_in.splits option.splits)
    with fit alone [OF h(1)] show ?thesis by (auto simp: pool_inv_move fits_def [of _ _ "Done _"])
  next
    case Unlock
    with assms(2) fit [of p] have h: "lock_holder s lock_inode = Some p"
        "s' = move_to p Outside (s\<lparr>lock_holder := (lock_holder s)(lock_inode := None)\<rparr>)"
      by (auto simp: pool_step_def fits_def split: where_in.splits)
    with alone [OF h(1)] show ?thesis by (simp add: pool_inv_move fits_def [of _ _ Outside])
  next
    case Die
    let ?t = "s\<lparr>lock_holder := (\<lambda>i. if lock_holder s i = Some p then None else lock_holder s i)\<rparr>"
    from Die assms(2) have s': "s' = move_to p Outside ?t" by (auto simp: pool_step_def split: where_in.splits)
    have "fits ?t q (proc s q)" if "q \<noteq> p" for q
      using fit [of q] that by (auto simp: fits_def split: where_in.splits)
    then show ?thesis by (simp add: s' pool_inv_move fits_def [of _ _ Outside])
  qed
qed

lemma replaces_Cons: "replaces ((p, a) # xs) = replaces [(p, a)] @ replaces xs"
  by (simp add: replaces_def List.map_filter_def split: action.split)

lemma apply_all_append: "apply_all all_cores m (xs @ ys) file = apply_all all_cores m ys (apply_all all_cores m xs file)"
  by (simp add: apply_all_def)

lemma run_pool_value:
  "pool_inv s \<Longrightarrow> run_pool True all_cores m xs s = Some s' \<Longrightarrow>
    pool_value s' = apply_all all_cores m (replaces xs) (pool_value s)"
proof (induction xs arbitrary: s)
  case Nil
  then show ?case by (simp add: apply_all_def replaces_def List.map_filter_def)
next
  case (Cons x xs)
  obtain p a where x: "x = (p, a)" by (cases x)
  from Cons.prems obtain s1 where s1: "pool_step True all_cores m (p, a) s = Some s1" "run_pool True all_cores m xs s1 = Some s'"
    by (auto simp: x split: option.splits)
  from Cons.IH [OF pool_step_inv [OF Cons.prems(1) s1(1)] s1(2)] pool_step_value [OF Cons.prems(1) s1(1)]
  show ?case by (simp add: x replaces_Cons [of p a xs] apply_all_append)
qed

text \<open>
  C22: the pool is updated atomically. However the processes interleave their opens, locks, reads,
  replaces and unlocks, and wherever any of them dies, the pool file holds what the operations give
  when each is done in one step, in the order of the replaces: no update is lost and none is torn.
\<close>

theorem pool_updates_serialise:
  assumes "run_pool True all_cores m history (pool_start file) = Some s"
  shows "pool_value s = apply_all all_cores m (replaces history) file"
proof -
  have "pool_inv (pool_start file)" "pool_value (pool_start file) = file"
    by (simp_all add: pool_inv_def fits_def pool_start_def pool_value_def)
  with run_pool_value [OF _ assms] show ?thesis by simp
qed

definition contended :: "(int \<times> action) list" where
  "contended = [(7, OpenLock), (8, OpenLock), (7, Flock), (7, ReadPool), (9, OpenLock), (7, Replace (Claim [7, 8, 9])),
     (7, Unlock), (8, Flock), (8, ReadPool), (8, Replace (Claim [7, 8, 9])), (8, Unlock),
     (9, Flock), (9, ReadPool), (9, Die)]"

theorem pool_updates_serialise_witness:
  "\<exists>s. run_pool True [0, 1, 2, 3] 1 contended (pool_start None) = Some s \<and>
     pool_value s = apply_all [0, 1, 2, 3] 1 [(7, Claim [7, 8, 9]), (8, Claim [7, 8, 9])] None"
proof -
  have "run_pool True [0, 1, 2, 3] 1 contended (pool_start None) \<noteq> None" by code_simp
  then obtain s where s: "run_pool True [0, 1, 2, 3] 1 contended (pool_start None) = Some s" by blast
  have "replaces contended = [(7, Claim [7, 8, 9]), (8, Claim [7, 8, 9])]" by code_simp
  with pool_updates_serialise [OF s] s show ?thesis by simp
qed

text \<open>
  Why the lock is a file of its own. With the pool file as the lock, a process that opened it
  before a replace locks an inode nobody else sees: two processes read the same pool, and the claim of
  the one that replaces first is gone, its core handed out twice.
\<close>

definition stale_lock :: "(int \<times> action) list" where
  "stale_lock = [(7, OpenLock), (8, OpenLock), (7, Flock), (7, ReadPool), (7, Replace (Claim [7, 8, 9])), (7, Unlock),
     (8, Flock), (9, OpenLock), (9, Flock), (8, ReadPool), (9, ReadPool),
     (8, Replace (Claim [7, 8, 9])), (9, Replace (Claim [7, 8, 9]))]"

theorem pool_file_as_lock_loses_claims:
  "case run_pool False [0, 1, 2, 3] 1 stale_lock (pool_start None) of
     None \<Rightarrow> False
   | Some s \<Rightarrow> pool_value s = pool_doc 4 [(7, [0]), (9, [1])] \<and>
       claim_shared_cores (\<lambda>p. True) [0, 1, 2, 3] 1 8 (pool_doc 4 [(7, [0])]) = (ok [1], pool_doc 4 [(7, [0]), (8, [1])])"
  by code_simp

end
