(* ===== verification/Audit_Log.thy ===== *)
theory Audit_Log
  imports Environ Json
begin

text \<open>
  \<open>hares/audit.py\<close>: the audit record of a tool call - redaction and truncation of the arguments,
  the summary of the result, the signed entry - and the decorator that logs around a handler.
  The MAC over an entry is a parameter, and so is what writing a line comes to.
\<close>

section \<open>Redaction\<close>

text \<open>The marker's first character is U+2026, which stands here as one character.\<close>

definition marker :: "nat \<Rightarrow> string" where
  "marker k = CHR 0x85 # ''<'' @ nat_str k @ '' more chars elided>''"

definition truncate_str :: "string \<Rightarrow> nat \<Rightarrow> string" where
  "truncate_str s n = (if length s \<le> n then s else take n s @ marker (length s - n))"

definition REDACTED :: json where
  "REDACTED = JStr ''<redacted>''"

definition hide :: "json \<Rightarrow> json" where
  "hide v = (case v of JObj kvs \<Rightarrow> JObj (map (\<lambda>(k, _). (k, REDACTED)) kvs) | _ \<Rightarrow> REDACTED)"

function redact_value :: "string list \<Rightarrow> nat \<Rightarrow> json \<Rightarrow> json" where
  "redact_value hidden n (JObj kvs) =
     JObj (map (\<lambda>(k, v). (k, if k \<in> set hidden then hide v else redact_value hidden n v)) kvs)"
| "redact_value hidden n (JList xs) = JList (map (redact_value hidden n) (take 50 xs))"
| "redact_value hidden n (JStr s) = JStr (truncate_str s n)"
| "redact_value hidden n (JInt i) = JInt i"
| "redact_value hidden n (JBool b) = JBool b"
| "redact_value hidden n JNull = JNull"
  by pat_completeness auto

lemma size_field: "(k, v) \<in> set kvs \<Longrightarrow> size v < size (JObj kvs)"
  by (induction kvs) auto

lemma size_item: "x \<in> set xs \<Longrightarrow> size x < size (JList xs)"
  by (induction xs) auto

termination redact_value
  by (relation "measure (\<lambda>(_, _, j). size j)") (auto simp del: json.size dest: in_set_takeD size_field size_item)

section \<open>Entries\<close>

text \<open>An item of an MCP result: a text with what \<open>json.loads\<close> makes of it, or the \<open>repr\<close> of another.\<close>

datatype mcp_item = TextItem string "json option" | OtherItem string

datatype mcp_result = NoResult | Items "mcp_item list" | NonList string

definition summarize_item :: "nat \<Rightarrow> mcp_item \<Rightarrow> json" where
  "summarize_item n i = (case i of
      OtherItem r \<Rightarrow> JObj [(''type'', JStr ''non_text''), (''preview'', JStr (truncate_str r n))]
    | TextItem t (Some j) \<Rightarrow> JObj [(''type'', JStr ''json''), (''value'', redact_value [] n j)]
    | TextItem t None \<Rightarrow> JObj [(''type'', JStr ''text''), (''len'', JInt (int (length t))),
        (''preview'', JStr (truncate_str t n))])"

definition summarize_mcp_result :: "nat \<Rightarrow> mcp_result \<Rightarrow> json" where
  "summarize_mcp_result n r = (case r of
      NoResult \<Rightarrow> JObj [(''empty'', JBool True)]
    | NonList s \<Rightarrow> JObj [(''non_list_result'', JStr (truncate_str s n))]
    | Items is \<Rightarrow> if is = [] then JObj [(''empty'', JBool True)]
        else JObj ([(''items'', JList (map (summarize_item n) (take 3 is)))] @
          (if 3 < length is then [(''n_total'', JInt (int (length is)))] else [])))"

record auditor =
  au_dest :: string
  au_signed :: bool
  au_redact_fields :: "string list"
  au_max_value_chars :: nat

definition DEFAULT_REDACT_FIELDS :: "string list" where
  "DEFAULT_REDACT_FIELDS = [''env'']"

definition DEFAULT_MAX_VALUE_CHARS :: nat where
  "DEFAULT_MAX_VALUE_CHARS = 500"

definition load_auditor :: "host \<Rightarrow> auditor option" where
  "load_auditor h =
     (let dest = strip_str (getenv h ''HARES_AUDIT_LOG'' []);
          secret = strip_str (getenv h ''HARES_AUDIT_HMAC_SECRET'' []);
          max_raw = strip_str (getenv h ''HARES_AUDIT_MAX_VALUE_CHARS'' [])
      in if dest = [] then None
         else Some \<lparr>au_dest = dest, au_signed = (secret \<noteq> []),
           au_redact_fields = (case environ h ''HARES_AUDIT_REDACT_FIELDS'' of
               None \<Rightarrow> DEFAULT_REDACT_FIELDS
             | Some r \<Rightarrow> filter (\<lambda>x. x \<noteq> []) (map strip_str (split_on (CHR '','') r))),
           au_max_value_chars = (if max_raw = [] then DEFAULT_MAX_VALUE_CHARS
             else case py_int max_raw of Some i \<Rightarrow> nat (max 1 i) | None \<Rightarrow> DEFAULT_MAX_VALUE_CHARS)\<rparr>)"

record audit_call =
  ac_ts :: string
  ac_tool :: string
  ac_scope_id :: "string option"
  ac_input :: "(string \<times> json) list"
  ac_duration :: json
  ac_result :: "mcp_result option"
  ac_error :: "string option"

definition build_entry :: "(json \<Rightarrow> string) \<Rightarrow> auditor \<Rightarrow> audit_call \<Rightarrow> json" where
  "build_entry mac au c =
     (let n = au_max_value_chars au;
          entry = [(''ts'', JStr (ac_ts c)), (''tool'', JStr (ac_tool c)), (''scope_id'', json_of_opt (ac_scope_id c)),
             (''input'', redact_value (au_redact_fields au) n (JObj (ac_input c))),
             (''duration_ms'', ac_duration c)] @
            (case ac_error c of Some e \<Rightarrow> [(''error'', JStr (truncate_str e n))] | None \<Rightarrow> []) @
            (case ac_result c of Some r \<Rightarrow> [(''result'', summarize_mcp_result n r)] | None \<Rightarrow> [])
      in JObj (entry @ (if au_signed au then [(''hmac'', JStr (mac (JObj entry)))] else [])))"

text \<open>The check a downstream verifier makes: the MAC of the entry without its \<open>hmac\<close> field.\<close>

definition verifies :: "(json \<Rightarrow> string) \<Rightarrow> json \<Rightarrow> bool" where
  "verifies mac e = (case e of
      JObj kvs \<Rightarrow> map_of kvs ''hmac'' = Some (JStr (mac (JObj (filter (\<lambda>(k, _). k \<noteq> ''hmac'') kvs))))
    | _ \<Rightarrow> False)"

section \<open>Logging around a handler\<close>

text \<open>\<open>log\<close>: an \<open>OSError\<close> of opening or writing is caught, anything else - an entry that cannot be
  encoded - leaves it. The log is the list of entries written.\<close>

definition log_entry :: "(json \<Rightarrow> unit result) \<Rightarrow> json \<Rightarrow> json list \<Rightarrow> unit result \<times> json list" where
  "log_entry write entry lines = (case write entry of
      Inr _ \<Rightarrow> (ok (), lines @ [entry])
    | Inl (OSError e) \<Rightarrow> (ok (), lines)
    | Inl e \<Rightarrow> (Inl e, lines))"

text \<open>The decorated handler: \<open>res\<close> is what the handler returned or raised (with its \<open>repr\<close>).\<close>

definition audited ::
  "(json \<Rightarrow> string) \<Rightarrow> (json \<Rightarrow> unit result) \<Rightarrow> auditor option \<Rightarrow> audit_call \<Rightarrow> (py_error \<Rightarrow> string)
   \<Rightarrow> mcp_result result \<Rightarrow> json list \<Rightarrow> mcp_result result \<times> json list" where
  "audited mac write au c repr res lines = (case au of
      None \<Rightarrow> (res, lines)
    | Some a \<Rightarrow>
        if au_dest a = [] then (res, lines)
        else case res of
          Inl e \<Rightarrow> (Inl e, snd (log_entry write (build_entry mac a (c\<lparr>ac_result := None, ac_error := Some (repr e)\<rparr>)) lines))
        | Inr x \<Rightarrow>
            (case log_entry write (build_entry mac a (c\<lparr>ac_result := Some x, ac_error := None\<rparr>)) lines of
               (Inl e, lines') \<Rightarrow> (Inl e, lines')
             | (Inr _, lines') \<Rightarrow> (ok x, lines')))"

section \<open>What an entry reveals\<close>

text \<open>An argument with what the redacted fields hold erased, up to the keys of an object there.\<close>

function erase_fields :: "string list \<Rightarrow> json \<Rightarrow> json" where
  "erase_fields hidden (JObj kvs) =
     JObj (map (\<lambda>(k, v). (k, if k \<in> set hidden
       then (case v of JObj ws \<Rightarrow> JObj (map (\<lambda>(k, _). (k, JNull)) ws) | _ \<Rightarrow> JNull)
       else erase_fields hidden v)) kvs)"
| "erase_fields hidden (JList xs) = JList (map (erase_fields hidden) xs)"
| "erase_fields hidden (JStr s) = JStr s"
| "erase_fields hidden (JInt i) = JInt i"
| "erase_fields hidden (JBool b) = JBool b"
| "erase_fields hidden JNull = JNull"
  by pat_completeness auto

termination erase_fields
  by (relation "measure (\<lambda>(_, j). size j)")
    (auto simp del: json.size dest: size_field size_item)

lemma hide_erased: "hide (case v of JObj ws \<Rightarrow> JObj (map (\<lambda>(k, _). (k, JNull)) ws) | _ \<Rightarrow> JNull) = hide v"
  by (cases v) (auto simp: hide_def)

lemma redact_erased: "redact_value hidden n (erase_fields hidden j) = redact_value hidden n j"
proof (induction hidden j rule: erase_fields.induct)
  case (1 hidden kvs)
  then show ?case by (auto simp: hide_erased)
next
  case (2 hidden xs)
  then show ?case by (auto simp: take_map comp_def dest: in_set_takeD)
qed simp_all

text \<open>
  C28: non-interference of the redacted fields. Two calls whose arguments differ only in what stands
  under a redacted field - at any depth, in the jobs of a submission too - leave the same audit
  entry, its MAC included: values of \<open>env\<close> do not reach the log through the arguments.
\<close>

theorem redacted_values_do_not_show:
  assumes "erase_fields (au_redact_fields au) (JObj (ac_input c1)) = erase_fields (au_redact_fields au) (JObj (ac_input c2))"
    and "c2 = c1\<lparr>ac_input := ac_input c2\<rparr>"
  shows "build_entry mac au c1 = build_entry mac au c2"
proof -
  have "redact_value (au_redact_fields au) n (JObj (ac_input c1)) = redact_value (au_redact_fields au) n (JObj (ac_input c2))" for n
    using assms(1) redact_erased by metis
  moreover have "ac_ts c2 = ac_ts c1" "ac_tool c2 = ac_tool c1" "ac_scope_id c2 = ac_scope_id c1"
    "ac_duration c2 = ac_duration c1" "ac_error c2 = ac_error c1" "ac_result c2 = ac_result c1"
    by (subst assms(2), simp)+
  ultimately show ?thesis by (simp only: build_entry_def Let_def)
qed

definition audit_demo :: "string \<Rightarrow> audit_call" where
  "audit_demo secret = \<lparr>ac_ts = ''t'', ac_tool = ''slurm_submit'', ac_scope_id = None,
     ac_input = [(''jobs'', JList [JObj [(''command'', JStr ''make''), (''env'', JObj [(''TOKEN'', JStr secret)])]])],
     ac_duration = JInt 1, ac_result = None, ac_error = None\<rparr>"

definition default_auditor :: auditor where
  "default_auditor = \<lparr>au_dest = ''stderr'', au_signed = True, au_redact_fields = DEFAULT_REDACT_FIELDS,
     au_max_value_chars = DEFAULT_MAX_VALUE_CHARS\<rparr>"

theorem redacted_values_do_not_show_witness:
  "build_entry (\<lambda>_. ''m'') default_auditor (audit_demo ''hunter2'') = build_entry (\<lambda>_. ''m'') default_auditor (audit_demo ''other'')"
  by (rule redacted_values_do_not_show)
    (simp_all add: audit_demo_def default_auditor_def DEFAULT_REDACT_FIELDS_def)

text \<open>Strings cut at the limit and lists at fifty items, everywhere but under a redacted field.\<close>

function fits :: "string list \<Rightarrow> nat \<Rightarrow> json \<Rightarrow> bool" where
  "fits hidden n (JObj kvs) = list_all (\<lambda>(k, v). if k \<in> set hidden then v = hide v else fits hidden n v) kvs"
| "fits hidden n (JList xs) = (length xs \<le> 50 \<and> list_all (fits hidden n) xs)"
| "fits hidden n (JStr s) = (length s \<le> n \<or> prefix (CHR 0x85 # ''<'') (drop n s))"
| "fits hidden n (JInt i) = True"
| "fits hidden n (JBool b) = True"
| "fits hidden n JNull = True"
  by pat_completeness auto

termination fits
  by (relation "measure (\<lambda>(_, _, j). size j)")
    (auto simp del: json.size dest: size_field size_item)

lemma hide_idem: "hide (hide v) = hide v"
  by (cases v) (auto simp: hide_def REDACTED_def)

lemma redact_fits: "fits hidden n (redact_value hidden n j)"
proof (induction hidden n j rule: redact_value.induct)
  case (1 hidden n kvs)
  then show ?case by (auto simp: list_all_iff hide_idem)
next
  case (2 hidden n xs)
  then show ?case by (auto simp: list_all_iff)
next
  case (3 hidden n s)
  then show ?case by (simp add: truncate_str_def marker_def)
qed simp_all

text \<open>
  An audit entry is bounded and, when it is signed, verifiable: the logged arguments keep no
  string past the limit and no list past fifty items outside the redacted fields, and a
  verifier that recomputes the MAC over the entry without its \<open>hmac\<close> field accepts it.
\<close>

theorem audit_entry_bounded_and_verifiable:
  "case build_entry mac au c of
     JObj kvs \<Rightarrow> (case map_of kvs ''input'' of
         Some j \<Rightarrow> fits (au_redact_fields au) (au_max_value_chars au) j | None \<Rightarrow> False) \<and>
       (if au_signed au then verifies mac (JObj kvs) else map_of kvs ''hmac'' = None)
   | _ \<Rightarrow> False"
  using redact_fits [of "au_redact_fields au" "au_max_value_chars au" "JObj (ac_input c)"]
  by (simp add: build_entry_def Let_def verifies_def split: option.split)

text \<open>
  What auditing does to a call. An exception of the handler always comes through as it was. A
  result comes through too - an unwritable log is swallowed - unless writing the entry
  fails with anything but an \<open>OSError\<close>, as an argument with a lone surrogate makes it: then the
  call that has already run reports that failure instead of its result.
\<close>

theorem audit_outcome:
  "fst (audited mac write au c repr res lines) = (case (au, res) of
     (Some a, Inr x) \<Rightarrow>
       (if au_dest a = [] then res
        else case write (build_entry mac a (c\<lparr>ac_result := Some x, ac_error := None\<rparr>)) of
          Inl (OSError e) \<Rightarrow> res | Inl e \<Rightarrow> Inl e | Inr u \<Rightarrow> res)
   | _ \<Rightarrow> res)"
  by (auto simp: audited_def log_entry_def split: option.split sum.split py_error.split)

end
