(* ===== verification/Doctor.thy ===== *)
theory Doctor
  imports Startup
begin

text \<open>
  \<open>hares/doctor.py\<close>: the diagnosis of \<open>hares-mcp doctor\<close>. Each check answers a level with the
  finding it prints (a constructor per message, with the values the message shows) and whether
  advice follows it; a check that raises becomes an error of the report. What the checks say is
  then compared with what starting the server does on the same host.
\<close>

section \<open>Results\<close>

datatype level = LevelOk | LevelWarn | LevelErr

datatype path_problem = OutsideCeiling string string | NotThere string string

datatype finding =
    HaresVersion | PythonMeets int int | PythonBelow int int
  | BwrapAt string string | BwrapMissing string
  | UsernsWork | UsernsAppArmor | UsernsUnavailable string | UsernsCloneOff | UsernsZero | UsernsAppear
  | CoordinationInactive | CoordinationAbsent string | SlotsFree int int
  | PsutilInstalled string | PsutilMissing | McpInstalled string | McpMissing
  | CeilingDefault string | CeilingAbsent rpath | CeilingNotDir rpath | CeilingGit rpath
  | CeilingReadOnly rpath | CeilingWritable rpath
  | HmacSet | HmacNotSet
  | CoordUnset | CoordAbsent rpath | CoordNotDir rpath | CoordReadOnly rpath | CoordAt rpath
  | NoDenyLists | DenyLists "(string \<times> nat) list" "path_problem list"
  | PathAccessGated | SandboxOff | SandboxOn
  | CgroupActive int | CgroupUnavailable
  | ClusterFound string "string list" | ClusterAbsent string | ClusterPartial string "string list"
  | NetworkFull | SlirpMissing string | AllowlistActive string
  | Crashed string py_error

record check_result =
  cr_level :: level
  cr_title :: finding
  cr_hint :: bool

definition d_ok :: "finding \<Rightarrow> check_result" where
  "d_ok t = \<lparr>cr_level = LevelOk, cr_title = t, cr_hint = False\<rparr>"

definition d_warn :: "finding \<Rightarrow> check_result" where
  "d_warn t = \<lparr>cr_level = LevelWarn, cr_title = t, cr_hint = True\<rparr>"

text \<open>An error with advice, and the two without.\<close>

definition d_err :: "finding \<Rightarrow> check_result" where
  "d_err t = \<lparr>cr_level = LevelErr, cr_title = t, cr_hint = True\<rparr>"

definition d_err_bare :: "finding \<Rightarrow> check_result" where
  "d_err_bare t = \<lparr>cr_level = LevelErr, cr_title = t, cr_hint = False\<rparr>"

text \<open>What the checks ask of the machine beside its environment and disk: \<open>shutil.which\<close>, the
  outcome of a short subprocess (return code, output, error output; \<open>None\<close> when it times out or does not
  start), the user's number, the probe run of \<open>systemd-run\<close>, write access, the state of a slot file,
  and the versions of Python and of the installed packages.\<close>

record machine =
  m_host :: host
  m_which :: "string \<Rightarrow> string option"
  m_run :: "string list \<Rightarrow> (int \<times> string \<times> string) option"
  m_uid :: nat
  m_scope_probe :: "int option"
  m_writable :: "rpath \<Rightarrow> bool"
  m_slot :: "string \<Rightarrow> nat \<Rightarrow> slot"
  m_python :: "int \<times> int"
  m_psutil :: "string option"
  m_mcp :: "string option"

section \<open>The checks\<close>

definition check_hares_version :: "machine \<Rightarrow> check_result result" where
  "check_hares_version m = ok (d_ok HaresVersion)"

definition check_python_version :: "machine \<Rightarrow> check_result result" where
  "check_python_version m = (let (major, minor) = m_python m in
     ok (if major > 3 \<or> (major = 3 \<and> minor \<ge> 10) then d_ok (PythonMeets major minor)
         else d_err (PythonBelow major minor)))"

definition sandbox_off :: "host \<Rightarrow> bool" where
  "sandbox_off h \<longleftrightarrow> strip_str (getenv h ''HARES_SANDBOX_DISABLED'' []) = ''1'' \<or>
     lower_str (strip_str (getenv h ''HARES_SANDBOX_MODE'' [])) \<in> {''none'', ''off'', ''false'', ''0''}"

definition bwrap_version :: "(int \<times> string \<times> string) option \<Rightarrow> string" where
  "bwrap_version r = (case r of
      Some (rc, out, e) \<Rightarrow> if rc = 0 \<and> strip_str out \<noteq> [] then last (split_ws (strip_str out)) else ''unknown''
    | None \<Rightarrow> ''unknown'')"

definition check_bwrap :: "machine \<Rightarrow> check_result result" where
  "check_bwrap m =
     (let bwrap = getenv (m_host m) ''HARES_SANDBOX_BWRAP_BIN'' ''bwrap'' in
      case m_which m bwrap of
        None \<Rightarrow> ok (if sandbox_off (m_host m) then d_warn (BwrapMissing bwrap) else d_err (BwrapMissing bwrap))
      | Some path \<Rightarrow> ok (d_ok (BwrapAt (bwrap_version (m_run m [path, ''--version''])) path)))"

text \<open>A knob of the kernel: the stripped content of its file, unless it is absent or unreadable.\<close>

definition knob :: "host \<Rightarrow> string \<Rightarrow> string option" where
  "knob h p = (if path_exists h p then map_option strip_str (proc_text h p) else None)"

definition userns_from_proc :: "host \<Rightarrow> check_result" where
  "userns_from_proc h =
     (if (case knob h ''/proc/sys/kernel/unprivileged_userns_clone'' of Some c \<Rightarrow> c \<noteq> ''1'' | None \<Rightarrow> False)
      then d_err UsernsCloneOff
      else if knob h ''/proc/sys/user/max_user_namespaces'' = Some ''0'' then d_err UsernsZero
      else d_ok UsernsAppear)"

definition check_user_namespaces :: "machine \<Rightarrow> check_result result" where
  "check_user_namespaces m =
     (let h = m_host m in
      ok (case (m_which m ''unshare'', m_run m [''unshare'', ''--user'', ''true'']) of
          (Some _, Some (rc, out, stderr)) \<Rightarrow>
            if rc = 0 then
              (if knob h ''/proc/sys/kernel/apparmor_restrict_unprivileged_userns'' = Some ''1''
               then d_warn UsernsAppArmor else d_ok UsernsWork)
            else if sandbox_off h then d_warn (UsernsUnavailable (strip_str stderr))
            else d_err (UsernsUnavailable (strip_str stderr))
        | _ \<Rightarrow> userns_from_proc h))"

text \<open>The slots are looked up below the directory as it is written in the environment.\<close>

definition check_slot_files :: "machine \<Rightarrow> check_result result" where
  "check_slot_files m =
     (let h = m_host m; coord_dir = strip_str (getenv h ''HARES_COORDINATION_DIR'' []) in
      if coord_dir = [] then ok (d_ok CoordinationInactive)
      else case py_int (getenv h ''HARES_MAX_CONCURRENT'' ''2'') of
        None \<Rightarrow> raise_err (ValueError ''HARES_MAX_CONCURRENT'')
      | Some slots \<Rightarrow>
          if \<not> path_exists h coord_dir then ok (d_warn (CoordinationAbsent coord_dir))
          else
            (let (free, _) = count_free_slots (map (m_slot m coord_dir) [0..<nat slots]) in
             ok (if int free = slots then d_ok (SlotsFree (int free) slots)
                 else if free = 0 then d_warn (SlotsFree 0 slots)
                 else d_ok (SlotsFree (int free) slots))))"

definition check_psutil :: "machine \<Rightarrow> check_result result" where
  "check_psutil m = ok (case m_psutil m of Some v \<Rightarrow> d_ok (PsutilInstalled v) | None \<Rightarrow> d_err PsutilMissing)"

definition check_mcp :: "machine \<Rightarrow> check_result result" where
  "check_mcp m = ok (case m_mcp m of Some v \<Rightarrow> d_ok (McpInstalled v) | None \<Rightarrow> d_err McpMissing)"

definition exists_at :: "host \<Rightarrow> rpath \<Rightarrow> bool" where
  "exists_at h p = path_exists h (rpath_str p)"

definition check_fs_ceiling :: "machine \<Rightarrow> check_result result" where
  "check_fs_ceiling m =
     (let h = m_host m; given = strip_str (getenv h ''HARES_FS_CEILING'' []) in
      if given = [] then ok (d_ok (CeilingDefault (cwd h)))
      else rbind (resolve_expanded h given) (\<lambda>expanded.
        ok (if \<not> exists_at h expanded then d_err (CeilingAbsent expanded)
            else if \<not> is_dir h expanded then d_err_bare (CeilingNotDir expanded)
            else if ''.git'' \<in> set (''/'' # expanded) then d_err (CeilingGit expanded)
            else if \<not> m_writable m expanded then d_warn (CeilingReadOnly expanded)
            else d_ok (CeilingWritable expanded))))"

definition check_state_hmac :: "machine \<Rightarrow> check_result result" where
  "check_state_hmac m =
     ok (if strip_str (getenv (m_host m) ''HARES_STATE_HMAC_SECRET'' []) \<noteq> [] then d_ok HmacSet else d_warn HmacNotSet)"

definition check_coordination_dir :: "machine \<Rightarrow> check_result result" where
  "check_coordination_dir m =
     (let h = m_host m; given = strip_str (getenv h ''HARES_COORDINATION_DIR'' []) in
      if given = [] then ok (d_ok CoordUnset)
      else rbind (resolve_expanded h given) (\<lambda>p.
        ok (if \<not> exists_at h p then d_warn (CoordAbsent p)
            else if \<not> is_dir h p then d_err_bare (CoordNotDir p)
            else if \<not> m_writable m p then d_err_bare (CoordReadOnly p)
            else d_ok (CoordAt p))))"

text \<open>One entry of a deny list, and the entries of one variable: \<open>given\<close> is its stripped value.\<close>

definition piece_problem :: "host \<Rightarrow> rpath \<Rightarrow> string \<Rightarrow> string \<Rightarrow> path_problem option result" where
  "piece_problem h ceil var piece =
     (let candidate = path_of (expand_path h piece);
          candidate = (if is_absolute candidate then candidate else path_join (rpath_path ceil) candidate)
      in rbind (from_option (RuntimeError piece) (resolve_on h candidate)) (\<lambda>resolved.
         ok (if resolved = ceil \<or> \<not> is_subpath h (rpath_path resolved) (rpath_path ceil)
             then Some (OutsideCeiling var piece)
             else if \<not> exists_at h resolved then Some (NotThere var piece) else None)))"

definition given_pieces :: "string \<Rightarrow> string list" where
  "given_pieces given = filter (\<lambda>p. p \<noteq> []) (split_on (CHR '':'') given)"

definition variable_problems ::
  "host \<Rightarrow> rpath \<Rightarrow> string \<times> string \<Rightarrow> ((string \<times> nat) list \<times> path_problem list) result" where
  "variable_problems h ceil = (\<lambda>(var, given).
     if given = [] then ok ([], [])
     else rbind (collect (piece_problem h ceil var) (given_pieces given)) (\<lambda>ps.
       ok ([(var, length (given_pieces given))], List.map_filter id ps)))"

definition deny_lists_result :: "(string \<times> nat) list \<Rightarrow> path_problem list \<Rightarrow> check_result" where
  "deny_lists_result counts problems =
     (if problems \<noteq> [] then d_warn (DenyLists counts problems) else d_ok (DenyLists counts []))"

definition check_sandbox_exclude_protect :: "machine \<Rightarrow> check_result result" where
  "check_sandbox_exclude_protect m =
     (let h = m_host m;
          excl = strip_str (getenv h ''HARES_SANDBOX_EXCLUDE'' []);
          prot = strip_str (getenv h ''HARES_SANDBOX_PROTECT'' []);
          ceiling_given = strip_str (getenv h ''HARES_FS_CEILING'' [])
      in if excl = [] \<and> prot = [] then ok (d_ok NoDenyLists)
         else rbind (resolve_expanded h (if ceiling_given = [] then cwd h else ceiling_given)) (\<lambda>ceil.
           rbind (collect (variable_problems h ceil)
               [(''HARES_SANDBOX_EXCLUDE'', excl), (''HARES_SANDBOX_PROTECT'', prot)]) (\<lambda>found.
           ok (deny_lists_result (concat (map fst found)) (concat (map snd found))))))"

definition check_request_path_access :: "machine \<Rightarrow> check_result result" where
  "check_request_path_access m = ok (d_ok PathAccessGated)"

definition check_sandbox_disabled :: "machine \<Rightarrow> check_result result" where
  "check_sandbox_disabled m = ok (if sandbox_off (m_host m) then d_warn SandboxOff else d_ok SandboxOn)"

definition check_cgroup_memory :: "machine \<Rightarrow> check_result result" where
  "check_cgroup_memory m =
     (let h = m_host m; env_max = strip_str (getenv h ''HARES_MEM_LIMIT_MAX_MB'' []) in
      ok (if fst (cgroup_memory_available h (m_uid m) (m_which m) (m_scope_probe m) None)
          then d_ok (CgroupActive (if env_max = [] then machine_safe_max_mb h
                 else case py_int env_max of Some n \<Rightarrow> n | None \<Rightarrow> machine_safe_max_mb h))
          else d_warn CgroupUnavailable))"

text \<open>The binaries of a scheduler: its names with the configured paths.\<close>

definition check_cluster_bins :: "machine \<Rightarrow> string \<Rightarrow> (string \<times> string) list \<Rightarrow> check_result" where
  "check_cluster_bins m scheduler bins =
     (let missing = map fst (filter (\<lambda>(name, path). m_which m path = None) bins) in
      if missing = [] then d_ok (ClusterFound scheduler (map fst bins))
      else if length missing = length bins then d_warn (ClusterAbsent scheduler)
      else d_err (ClusterPartial scheduler missing))"

definition check_network_policy :: "machine \<Rightarrow> check_result result" where
  "check_network_policy m =
     (let given = strip_str (getenv (m_host m) ''HARES_SANDBOX_NETWORK_ALLOW'' []);
          bin = getenv (m_host m) ''HARES_SLIRP4NETNS_BIN'' ''slirp4netns'' in
      ok (if given = [] then d_ok NetworkFull
          else if m_which m bin = None then d_err (SlirpMissing bin)
          else d_ok (AllowlistActive given)))"

definition check_lsf :: "machine \<Rightarrow> check_result result" where
  "check_lsf m = ok (check_cluster_bins m ''lsf''
     [(''bsub'', getenv (m_host m) ''HARES_LSF_BSUB_BIN'' ''bsub''),
      (''bjobs'', getenv (m_host m) ''HARES_LSF_BJOBS_BIN'' ''bjobs''),
      (''bkill'', getenv (m_host m) ''HARES_LSF_BKILL_BIN'' ''bkill'')])"

definition check_slurm :: "machine \<Rightarrow> check_result result" where
  "check_slurm m = ok (check_cluster_bins m ''slurm''
     [(''sbatch'', getenv (m_host m) ''HARES_SLURM_SBATCH_BIN'' ''sbatch''),
      (''squeue'', getenv (m_host m) ''HARES_SLURM_SQUEUE_BIN'' ''squeue''),
      (''scancel'', getenv (m_host m) ''HARES_SLURM_SCANCEL_BIN'' ''scancel'')])"

section \<open>The report\<close>

type_synonym check = "string \<times> (machine \<Rightarrow> check_result result)"

definition SECTIONS :: "(string \<times> check list) list" where
  "SECTIONS =
    [(''Hares'',
      [(''check_hares_version'', check_hares_version), (''check_python_version'', check_python_version)]),
     (''Sandbox (shell + fs+shell modes)'',
      [(''check_bwrap'', check_bwrap), (''check_user_namespaces'', check_user_namespaces),
       (''check_sandbox_disabled'', check_sandbox_disabled), (''check_cgroup_memory'', check_cgroup_memory)]),
     (''Dependencies'',
      [(''check_psutil'', check_psutil), (''check_mcp'', check_mcp)]),
     (''Configuration'',
      [(''check_fs_ceiling'', check_fs_ceiling),
       (''check_sandbox_exclude_protect'', check_sandbox_exclude_protect),
       (''check_state_hmac'', check_state_hmac), (''check_coordination_dir'', check_coordination_dir),
       (''check_slot_files'', check_slot_files), (''check_network_policy'', check_network_policy),
       (''check_request_path_access'', check_request_path_access)]),
     (''Cluster (lsf / slurm modes)'', [(''check_lsf'', check_lsf), (''check_slurm'', check_slurm)])]"

text \<open>Code points: the icons are outside the characters of a HOL string.\<close>

definition icon :: "level \<Rightarrow> bool \<Rightarrow> nat list" where
  "icon lv color =
     (let sign = (case lv of LevelOk \<Rightarrow> 0x2713 | LevelWarn \<Rightarrow> 0x26A0 | LevelErr \<Rightarrow> 0x2717);
          code = (case lv of LevelOk \<Rightarrow> ''32'' | LevelWarn \<Rightarrow> ''33'' | LevelErr \<Rightarrow> ''31'') in
      if \<not> color then [sign]
      else 27 # map of_char (''['' @ code @ ''m'') @ [sign, 27] @ map of_char ''[0m'')"

text \<open>A line of the report: the one of a finding starts with its icon, the one of the advice follows it.\<close>

datatype line = Blank | Heading string | Entry "nat list" finding | Advice finding | Summary string

record counts =
  n_ok :: nat
  n_warn :: nat
  n_err :: nat

definition count_level :: "level \<Rightarrow> counts \<Rightarrow> counts" where
  "count_level lv c = (case lv of LevelOk \<Rightarrow> c\<lparr>n_ok := Suc (n_ok c)\<rparr> | LevelWarn \<Rightarrow> c\<lparr>n_warn := Suc (n_warn c)\<rparr>
     | LevelErr \<Rightarrow> c\<lparr>n_err := Suc (n_err c)\<rparr>)"

definition guarded :: "machine \<Rightarrow> check \<Rightarrow> check_result" where
  "guarded m = (\<lambda>(name, run). case run m of Inl e \<Rightarrow> d_err (Crashed name e) | Inr r \<Rightarrow> r)"

definition report_check :: "machine \<Rightarrow> bool \<Rightarrow> check \<Rightarrow> line list \<times> counts \<Rightarrow> line list \<times> counts" where
  "report_check m color ck = (\<lambda>(lines, c). let r = guarded m ck in
     (lines @ [Entry (icon (cr_level r) color) (cr_title r)] @
        (if cr_hint r \<and> cr_level r \<noteq> LevelOk then [Advice (cr_title r)] else []),
      count_level (cr_level r) c))"

definition report_section :: "machine \<Rightarrow> bool \<Rightarrow> string \<times> check list \<Rightarrow> line list \<times> counts \<Rightarrow> line list \<times> counts" where
  "report_section m color = (\<lambda>(heading, checks) (lines, c).
     fold (report_check m color) checks (lines @ [Blank, Heading heading], c))"

definition plural :: "nat \<Rightarrow> string" where
  "plural n = (if n = 1 then [] else ''s'')"

definition summary_text :: "counts \<Rightarrow> string" where
  "summary_text c = ''Summary: '' @ nat_str (n_ok c) @ '' ok, '' @ nat_str (n_warn c) @ '' warning'' @ plural (n_warn c) @
     '', '' @ nat_str (n_err c) @ '' error'' @ plural (n_err c) @ ''.''"

definition render_report :: "machine \<Rightarrow> bool \<Rightarrow> line list \<times> counts" where
  "render_report m color =
     (let (lines, c) = fold (report_section m color) SECTIONS ([], \<lparr>n_ok = 0, n_warn = 0, n_err = 0\<rparr>) in
      (dropWhile (\<lambda>l. l = Blank) (lines @ [Blank, Summary (summary_text c)]), c))"

text \<open>The only options are \<open>--no-color\<close>, which may be abbreviated, and the help; the help and everything
  else leave with \<open>SystemExit\<close>.\<close>

definition no_color_flag :: "string \<Rightarrow> bool" where
  "no_color_flag s \<longleftrightarrow> prefix ''--n'' s \<and> prefix s ''--no-color''"

definition run_doctor :: "machine \<Rightarrow> bool \<Rightarrow> string list \<Rightarrow> (line list \<times> int) result" where
  "run_doctor m isatty argv =
     (if \<not> list_all no_color_flag argv then usage_exit
      else let (report, c) = render_report m (isatty \<and> argv = []) in ok (report, if n_err c > 0 then 1 else 0))"


definition all_checks :: "check list" where
  "all_checks = concat (map snd SECTIONS)"

definition clear_of_errors :: "machine \<Rightarrow> check \<Rightarrow> bool" where
  "clear_of_errors m = (\<lambda>(name, chk). case chk m of Inl e \<Rightarrow> False | Inr r \<Rightarrow> cr_level r \<noteq> LevelErr)"

definition level_count :: "level \<Rightarrow> counts \<Rightarrow> nat" where
  "level_count lv c = (case lv of LevelOk \<Rightarrow> n_ok c | LevelWarn \<Rightarrow> n_warn c | LevelErr \<Rightarrow> n_err c)"

lemma count_level_count: "level_count lv (count_level lv' c) = (if lv = lv' then 1 else 0) + level_count lv c"
  by (cases lv; cases lv') (simp_all add: level_count_def count_level_def)

definition levels :: "machine \<Rightarrow> check list \<Rightarrow> level list" where
  "levels m = map (\<lambda>ck. cr_level (guarded m ck))"

lemma report_checks_count:
  "level_count lv (snd (fold (report_check m color) cks st)) = count_list (levels m cks) lv + level_count lv (snd st)"
  by (induction cks arbitrary: st)
    (auto simp: levels_def report_check_def count_level_count Let_def split: prod.splits)

lemma report_sections_count:
  "level_count lv (snd (fold (report_section m color) ss st)) =
     count_list (levels m (concat (map snd ss))) lv + level_count lv (snd st)"
proof (induction ss arbitrary: st)
  case (Cons s ss)
  have "level_count lv (snd (report_section m color s st)) = count_list (levels m (snd s)) lv + level_count lv (snd st)"
    by (simp add: report_section_def report_checks_count split: prod.splits)
  with Cons.IH show ?case by (simp add: levels_def)
qed (simp add: levels_def)

lemma render_counts: "level_count lv (snd (render_report m color)) = count_list (levels m all_checks) lv"
  using report_sections_count [of lv m color SECTIONS "([], \<lparr>n_ok = 0, n_warn = 0, n_err = 0\<rparr>)"]
  by (cases lv) (auto simp: render_report_def level_count_def all_checks_def split: prod.splits)

lemma guarded_level: "cr_level (guarded m ck) \<noteq> LevelErr \<longleftrightarrow> clear_of_errors m ck"
  by (auto simp: guarded_def clear_of_errors_def d_err_def split: prod.splits sum.splits)

text \<open>The entries of a report, in order.\<close>

definition entries :: "line list \<Rightarrow> (nat list \<times> finding) list" where
  "entries ls = List.map_filter (\<lambda>l. case l of Entry i f \<Rightarrow> Some (i, f) | _ \<Rightarrow> None) ls"

lemma entries_simps [simp]:
  "entries [] = []" "entries (xs @ ys) = entries xs @ entries ys" "entries (Entry i f # ls) = (i, f) # entries ls"
  "entries (Blank # ls) = entries ls" "entries (Heading s # ls) = entries ls" "entries (Advice g # ls) = entries ls"
  "entries (Summary s # ls) = entries ls"
  by (simp_all add: entries_def List.map_filter_def)

definition shown :: "machine \<Rightarrow> bool \<Rightarrow> check list \<Rightarrow> (nat list \<times> finding) list" where
  "shown m color = map (\<lambda>ck. let r = guarded m ck in (icon (cr_level r) color, cr_title r))"

lemma report_checks_entries:
  "entries (fst (fold (report_check m color) cks st)) = entries (fst st) @ shown m color cks"
  by (induction cks arbitrary: st) (auto simp: shown_def report_check_def Let_def split: prod.splits)

lemma report_sections_entries:
  "entries (fst (fold (report_section m color) ss st)) = entries (fst st) @ shown m color (concat (map snd ss))"
proof (induction ss arbitrary: st)
  case (Cons s ss)
  have "entries (fst (report_section m color s st)) = entries (fst st) @ shown m color (snd s)"
    by (simp add: report_section_def report_checks_entries split: prod.splits)
  with Cons.IH show ?case by (simp add: shown_def)
qed (simp add: shown_def)

lemma entries_drop_blank: "entries (dropWhile (\<lambda>l. l = Blank) ls) = entries ls"
  by (induction ls) auto

lemma render_entries: "entries (fst (render_report m color)) = shown m color all_checks"
  using report_sections_entries [of m color SECTIONS "([], \<lparr>n_ok = 0, n_warn = 0, n_err = 0\<rparr>)"]
  by (auto simp: render_report_def entries_drop_blank all_checks_def split: prod.splits)

lemma count_list_pos: "0 < count_list xs x \<longleftrightarrow> x \<in> set xs"
  by (induction xs) auto

lemma run_doctor_report:
  assumes "run_doctor m isatty argv = ok (report, n)"
  shows "report = fst (render_report m (isatty \<and> argv = []))"
    "n = (if list_all (clear_of_errors m) all_checks then 0 else 1)"
proof -
  let ?c = "isatty \<and> argv = []"
  from assms have n: "n = (if level_count LevelErr (snd (render_report m ?c)) > 0 then 1 else 0)"
    by (auto simp: run_doctor_def usage_exit_def level_count_def split: if_splits prod.splits)
  have "list_all (clear_of_errors m) all_checks \<longleftrightarrow> LevelErr \<notin> set (levels m all_checks)"
    by (auto simp: list_all_iff levels_def image_iff simp flip: guarded_level)
  with n show "n = (if list_all (clear_of_errors m) all_checks then 0 else 1)"
    by (simp add: render_counts count_list_pos)
  from assms show "report = fst (render_report m ?c)"
    by (auto simp: run_doctor_def usage_exit_def split: if_splits prod.splits)
qed

theorem diagnosis_is_complete:
  assumes "run_doctor m isatty argv = ok (report, n)"
  shows "entries report = shown m (isatty \<and> argv = []) all_checks \<and>
    n = (if list_all (clear_of_errors m) all_checks then 0 else 1)"
  using run_doctor_report [OF assms] by (simp add: render_entries)

definition healthy_machine :: machine where
  "healthy_machine = \<lparr>m_host = default_host, m_which = Some, m_run = (\<lambda>_. Some (0, ''x 1.2'', [])), m_uid = 0,
     m_scope_probe = None, m_writable = (\<lambda>_. True), m_slot = (\<lambda>_ _. Free), m_python = (3, 12),
     m_psutil = Some ''5.9'', m_mcp = Some ''1.0''\<rparr>"


lemma healthy_clear: "list_all (clear_of_errors healthy_machine) all_checks"
  by code_simp

theorem diagnosis_is_complete_witness:
  "\<exists>report. run_doctor healthy_machine True [] = ok (report, 0) \<and> entries report = shown healthy_machine True all_checks"
proof -
  obtain report n where "run_doctor healthy_machine True [] = ok (report, n)"
    by (cases "render_report healthy_machine True") (auto simp: run_doctor_def)
  with diagnosis_is_complete [OF this] healthy_clear show ?thesis by auto
qed


lemma clear_check:
  "list_all (clear_of_errors m) all_checks \<Longrightarrow> (name, chk) \<in> set all_checks \<Longrightarrow> \<exists>r. chk m = ok r \<and> cr_level r \<noteq> LevelErr"
  unfolding list_all_iff clear_of_errors_def by (drule (1) bspec) (auto split: sum.splits)

lemma all_checks_members:
  "{(''check_bwrap'', check_bwrap), (''check_fs_ceiling'', check_fs_ceiling), (''check_network_policy'', check_network_policy),
    (''check_slot_files'', check_slot_files)} \<subseteq> set all_checks"
  by (simp add: all_checks_def SECTIONS_def)

lemmas level_defs = d_ok_def d_warn_def d_err_def d_err_bare_def

text \<open>The doctor's reading of the switch is stricter than the server's.\<close>

lemma sandbox_off_disables: "sandbox_off h \<Longrightarrow> load_sandbox_config h which d = ok disabled_sandbox"
  by (auto simp: sandbox_off_def load_sandbox_config_def Let_def lower_str_def lower_chr_def)

lemma bwrap_clear:
  assumes "check_bwrap m = ok r" "cr_level r \<noteq> LevelErr"
  shows "load_sandbox_config (m_host m) (m_which m) d \<noteq> Inl (FileNotFoundError b)"
proof (cases "m_which m (getenv (m_host m) ''HARES_SANDBOX_BWRAP_BIN'' ''bwrap'')")
  case None
  with assms have "sandbox_off (m_host m)" by (auto simp: check_bwrap_def Let_def level_defs split: if_splits)
  then show ?thesis by (simp add: sandbox_off_disables)
next
  case (Some p)
  then show ?thesis by (auto simp: load_sandbox_config_def Let_def split: option.splits)
qed

lemma resolved_ceiling_ok:
  assumes "resolved_on h c" "''.git'' \<notin> set c"
  shows "is_ok (exit_on_unsafe w (validate_ceiling h (rpath_path c))) \<longleftrightarrow> clear_of_system h c"
  using assms by (auto simp: validate_ceiling_def resolved_on_def clear_of_system_def contains_git is_ok_iff)

lemma ceiling_clear:
  assumes "check_fs_ceiling m = ok r" "cr_level r \<noteq> LevelErr"
    and "strip_str (getenv (m_host m) ''HARES_FS_CEILING'' []) = given" "given \<noteq> []"
  shows "\<exists>c. resolve_expanded (m_host m) given = ok c \<and> is_dir (m_host m) c \<and>
    (is_ok (resolve_ceiling (m_host m) None) \<longleftrightarrow> clear_of_system (m_host m) c)"
proof -
  let ?h = "m_host m"
  from assms obtain c where c: "resolve_expanded ?h given = ok c" "is_dir ?h c" "''.git'' \<notin> set c"
    by (auto simp: check_fs_ceiling_def Let_def level_defs split: if_splits)
  have "is_ok (resolve_ceiling ?h None) \<longleftrightarrow> is_ok (exit_on_unsafe given (validate_ceiling ?h (rpath_path c)))"
    using assms(3,4) c(1) by (auto simp: resolve_ceiling_def ceiling_argument_def non_empty_def Let_def is_ok_iff)
  with c resolved_ceiling_ok [OF resolve_expanded_resolved [OF c(1)] c(3)] show ?thesis by blast
qed

lemma slots_clear:
  assumes "check_slot_files m = ok r" "strip_str (getenv (m_host m) ''HARES_COORDINATION_DIR'' []) \<noteq> []"
  shows "\<exists>n. intenv (m_host m) ''HARES_MAX_CONCURRENT'' 2 = ok n"
  using assms by (auto simp: check_slot_files_def intenv_def getenv_def py_int_def Let_def split: option.splits)



definition with_env :: "(string \<times> string) list \<Rightarrow> machine" where
  "with_env vs = healthy_machine\<lparr>m_host := default_host\<lparr>environ := map_of vs\<rparr>\<rparr>"

lemma with_env_ceiling: "list_all (clear_of_errors (with_env [(''HARES_FS_CEILING'', ''/w'')])) all_checks"
  by code_simp


section \<open>Deny lists\<close>

definition outside_only :: "path_problem list \<Rightarrow> path_problem list" where
  "outside_only ps = filter (\<lambda>p. case p of OutsideCeiling v s \<Rightarrow> True | NotThere v s \<Rightarrow> False) ps"

definition rejected_entries :: "check_result \<Rightarrow> path_problem list" where
  "rejected_entries r = (case cr_title r of DenyLists n ps \<Rightarrow> outside_only ps | _ \<Rightarrow> [])"

definition tolerable :: "path_problem option \<Rightarrow> bool" where
  "tolerable p \<longleftrightarrow> (case p of Some (OutsideCeiling v s) \<Rightarrow> False | _ \<Rightarrow> True)"

lemma piece_agrees:
  assumes "is_ok (validate_path_no_traversal piece)"
  shows "validate_denied_piece h ceil var piece = ok () \<longleftrightarrow> (\<exists>p. piece_problem h ceil var piece = ok p \<and> tolerable p)"
proof -
  let ?q = "if is_absolute (path_of (expand_path h piece)) then path_of (expand_path h piece)
    else path_join (rpath_path ceil) (path_of (expand_path h piece))"
  from assms have t: "validate_path_no_traversal piece = ok ()" by (simp add: is_ok_iff)
  show ?thesis
  proof (cases "resolve_on h ?q")
    case None
    then show ?thesis by (simp add: validate_denied_piece_def piece_problem_def Let_def from_option_def t exit_on_unsafe_def)
  next
    case (Some d)
    then show ?thesis
      by (cases "d = ceil \<or> \<not> is_subpath h (rpath_path d) (rpath_path ceil)"; cases "exists_at h d")
        (simp_all add: validate_denied_piece_def piece_problem_def Let_def from_option_def t exit_on_unsafe_def tolerable_def)
  qed
qed

lemma outside_map_filter: "outside_only (List.map_filter id ps) = [] \<longleftrightarrow> list_all tolerable ps"
  by (induction ps) (auto simp: outside_only_def tolerable_def List.map_filter_def split: option.splits path_problem.splits)

lemma collect_tolerable:
  "(\<exists>ps. collect f xs = ok ps \<and> list_all P ps) \<longleftrightarrow> (\<forall>x \<in> set xs. \<exists>p. f x = ok p \<and> P p)"
proof (induction xs)
  case (Cons x xs)
  then show ?case by (cases "f x"; cases "collect f xs") auto
qed simp

lemma variable_agrees:
  assumes "list_all (\<lambda>p. is_ok (validate_path_no_traversal p)) (given_pieces given)" "getenv h var [] = given"
  shows "check_all (validate_denied_piece h ceil var) (pieces h var) = ok () \<longleftrightarrow>
    (\<exists>n ps. variable_problems h ceil (var, given) = ok (n, ps) \<and> outside_only ps = [])"
proof (cases "given = []")
  case True
  with assms(2) show ?thesis by (simp add: pieces_def variable_problems_def outside_only_def)
next
  case False
  have p: "pieces h var = given_pieces given" using assms(2) by (simp add: pieces_def given_pieces_def)
  have "check_all (validate_denied_piece h ceil var) (pieces h var) = ok () \<longleftrightarrow>
    (\<forall>x \<in> set (given_pieces given). \<exists>p. piece_problem h ceil var x = ok p \<and> tolerable p)"
    using assms(1) by (auto simp: check_all_ok p list_all_iff piece_agrees)
  also have "\<dots> \<longleftrightarrow> (\<exists>ps. collect (piece_problem h ceil var) (given_pieces given) = ok ps \<and> list_all tolerable ps)"
    by (rule collect_tolerable [symmetric])
  also have "\<dots> \<longleftrightarrow> (\<exists>n ps. variable_problems h ceil (var, given) = ok (n, ps) \<and> outside_only ps = [])"
    using False by (auto simp: variable_problems_def outside_map_filter)
  finally show ?thesis .
qed

definition plain_value :: "host \<Rightarrow> string \<Rightarrow> bool" where
  "plain_value h var \<longleftrightarrow> (let v = getenv h var [] in strip_str v = v \<and>
     list_all (\<lambda>p. is_ok (validate_path_no_traversal p)) (given_pieces v))"

definition default_ceiling :: "host \<Rightarrow> rpath result" where
  "default_ceiling h = (let given = strip_str (getenv h ''HARES_FS_CEILING'' []) in
     resolve_expanded h (if given = [] then cwd h else given))"

lemma outside_only_nil: "outside_only [] = []"
  by (simp add: outside_only_def)

lemma outside_only_append: "outside_only (ps @ qs) = [] \<longleftrightarrow> outside_only ps = [] \<and> outside_only qs = []"
  by (simp add: outside_only_def)

lemma rejected_result [simp]: "rejected_entries (deny_lists_result ns ps) = outside_only ps"
  by (simp add: deny_lists_result_def rejected_entries_def d_warn_def d_ok_def outside_only_def)

lemma deny_check_result:
  fixes m :: machine
  defines "value_of \<equiv> (\<lambda>var. strip_str (getenv (m_host m) var []))"
  assumes "\<not> (value_of ''HARES_SANDBOX_EXCLUDE'' = [] \<and> value_of ''HARES_SANDBOX_PROTECT'' = [])"
    and "default_ceiling (m_host m) = ok ceil"
  shows "(\<exists>r. check_sandbox_exclude_protect m = ok r \<and> rejected_entries r = []) \<longleftrightarrow>
    (\<exists>n1 ps1 n2 ps2. variable_problems (m_host m) ceil (''HARES_SANDBOX_EXCLUDE'', value_of ''HARES_SANDBOX_EXCLUDE'') = ok (n1, ps1) \<and>
      variable_problems (m_host m) ceil (''HARES_SANDBOX_PROTECT'', value_of ''HARES_SANDBOX_PROTECT'') = ok (n2, ps2) \<and>
      outside_only (ps1 @ ps2) = [])"
proof -
  let ?vs = "[(''HARES_SANDBOX_EXCLUDE'', value_of ''HARES_SANDBOX_EXCLUDE''), (''HARES_SANDBOX_PROTECT'', value_of ''HARES_SANDBOX_PROTECT'')]"
  have "check_sandbox_exclude_protect m = rbind (collect (variable_problems (m_host m) ceil) ?vs)
      (\<lambda>found. ok (deny_lists_result (concat (map fst found)) (concat (map snd found))))"
    using assms(2,3) unfolding check_sandbox_exclude_protect_def default_ceiling_def value_of_def Let_def
    by (simp only: if_False rbind_simps)
  then show ?thesis by auto
qed

text \<open>
  C39: the doctor and startup agree on the exclude and protect lists. For values without outer white
  space and without dot-dot components, startup accepts the lists below the configured ceiling exactly when
  the check runs through and names no entry as outside of it.
\<close>

theorem denylist_diagnosis_agrees:
  assumes "plain_value (m_host m) ''HARES_SANDBOX_EXCLUDE''" "plain_value (m_host m) ''HARES_SANDBOX_PROTECT''"
    and "default_ceiling (m_host m) = ok ceil"
  shows "validate_exclude_protect_paths (m_host m) ceil = ok () \<longleftrightarrow>
    (\<exists>r. check_sandbox_exclude_protect m = ok r \<and> rejected_entries r = [])"
proof -
  let ?h = "m_host m" and ?e = "''HARES_SANDBOX_EXCLUDE''" and ?p = "''HARES_SANDBOX_PROTECT''"
  have v: "check_all (validate_denied_piece ?h ceil var) (pieces ?h var) = ok () \<longleftrightarrow>
      (\<exists>n ps. variable_problems ?h ceil (var, strip_str (getenv ?h var [])) = ok (n, ps) \<and> outside_only ps = [])"
    if "plain_value ?h var" for var
    using variable_agrees [of "getenv ?h var []" ?h var ceil] that by (simp add: plain_value_def Let_def)
  have "(check_all (\<lambda>var. check_all (validate_denied_piece ?h ceil var) (pieces ?h var)) [?e, ?p] = ok ()) \<longleftrightarrow>
      (check_all (validate_denied_piece ?h ceil ?e) (pieces ?h ?e) = ok () \<and>
       check_all (validate_denied_piece ?h ceil ?p) (pieces ?h ?p) = ok ())"
    by (cases "check_all (validate_denied_piece ?h ceil ?e) (pieces ?h ?e)";
        cases "check_all (validate_denied_piece ?h ceil ?p) (pieces ?h ?p)") simp_all
  then have val: "validate_exclude_protect_paths ?h ceil = ok () \<longleftrightarrow>
      (\<exists>n ps. variable_problems ?h ceil (?e, strip_str (getenv ?h ?e [])) = ok (n, ps) \<and> outside_only ps = []) \<and>
      (\<exists>n ps. variable_problems ?h ceil (?p, strip_str (getenv ?h ?p [])) = ok (n, ps) \<and> outside_only ps = [])"
    unfolding validate_exclude_protect_paths_def v [OF assms(1)] v [OF assms(2)] .
  show ?thesis
  proof (cases "strip_str (getenv ?h ?e []) = [] \<and> strip_str (getenv ?h ?p []) = []")
    case True
    then have "check_sandbox_exclude_protect m = ok (d_ok NoDenyLists)"
      unfolding check_sandbox_exclude_protect_def Let_def by (rule if_P)
    moreover have "rejected_entries (d_ok NoDenyLists) = []" by (simp add: rejected_entries_def d_ok_def)
    ultimately show ?thesis unfolding val using True by (simp add: variable_problems_def outside_only_nil)
  next
    case False
    from deny_check_result [OF this assms(3)] show ?thesis unfolding val outside_only_append by blast
  qed
qed

definition guarded_machine :: machine where
  "guarded_machine = with_env [(''HARES_SANDBOX_EXCLUDE'', ''s/key:new''), (''HARES_SANDBOX_PROTECT'', ''/w/s'')]"

theorem denylist_diagnosis_agrees_witness:
  "\<exists>r. check_sandbox_exclude_protect guarded_machine = ok r \<and> rejected_entries r = []"
proof -
  have "plain_value (m_host guarded_machine) ''HARES_SANDBOX_EXCLUDE''"
    "plain_value (m_host guarded_machine) ''HARES_SANDBOX_PROTECT''"
    "default_ceiling (m_host guarded_machine) = ok [''w'']"
    "validate_exclude_protect_paths (m_host guarded_machine) [''w''] = ok ()"
    by code_simp+
  with denylist_diagnosis_agrees [of guarded_machine "[''w'']"] show ?thesis by blast
qed

section \<open>Where the report misleads\<close>

text \<open>The switch: with \<open>HARES_SANDBOX_DISABLED=true\<close> commands run without a sandbox, and the report says
  that it is enabled; without bwrap it even fails with an error.\<close>

theorem unsandboxed_reported_enabled:
  "let m = with_env [(''HARES_SANDBOX_DISABLED'', ''true'')] in
   load_sandbox_config (m_host m) (m_which m) None = ok disabled_sandbox \<and>
   check_sandbox_disabled m = ok (d_ok SandboxOn) \<and>
   check_bwrap (m\<lparr>m_which := \<lambda>_. None\<rparr>) = ok (d_err (BwrapMissing ''bwrap''))"
  unfolding Let_def by (intro conjI; code_simp)

text \<open>The ceiling: with the system directories disallowed, one of them passes, and startup refuses it.\<close>

theorem system_ceiling_diagnosed_ok:
  "let m = with_env [(''HARES_FS_CEILING'', ''/etc''), (''HARES_DISALLOW_SYSTEM_DIRS'', ''1'')];
       m = m\<lparr>m_host := (m_host m)\<lparr>disk := ([''etc''], DirN) # disk (m_host m)\<rparr>\<rparr> in
   check_fs_ceiling m = ok (d_ok (CeilingWritable [''etc''])) \<and>
   resolve_ceiling (m_host m) None = Inl (SystemExit ''/etc'')"
  unfolding Let_def by (intro conjI; code_simp)

text \<open>The allowlist: whatever is written there is reported as active, entries that parse or not. With
  none that does, commands have the whole network.\<close>

theorem useless_allowlist_reported_active:
  "let m = with_env [(''HARES_SANDBOX_NETWORK_ALLOW'', ''pypi.org'')];
       np = load_network_policy (m_host m) (\<lambda>_ _. Some ''1.2.3.4'') in
   check_network_policy m = ok (d_ok (AllowlistActive ''pypi.org'')) \<and>
   network_mode_of (default_runner\<lparr>net_policy := np\<rparr>) = NetFull"
  unfolding Let_def by (intro conjI; code_simp)

text \<open>The coordination directory: the check expands the value, the server and the check of the slots take it
  literally.\<close>

theorem other_coordination_dir_diagnosed:
  "let m = with_env [(''HARES_COORDINATION_DIR'', ''$D/c''), (''D'', ''/w'')];
       m = m\<lparr>m_host := (m_host m)\<lparr>disk := ([''w'', ''c''], DirN) # disk (m_host m)\<rparr>\<rparr> in
   check_coordination_dir m = ok (d_ok (CoordAt [''w'', ''c''])) \<and>
   check_slot_files m = ok (d_warn (CoordinationAbsent ''$D/c'')) \<and>
   map_sum id cf_coordination_dir (load_config (m_host m) Some (\<lambda>_ _. None) None) = ok (Some [''w'', ''$D'', ''c''])"
  unfolding Let_def by (intro conjI; code_simp)

text \<open>The number of slots: set to nothing it is the default of the server, and crashes the check.\<close>

theorem empty_slot_number_crashes_check:
  "let m = with_env [(''HARES_COORDINATION_DIR'', ''/w''), (''HARES_MAX_CONCURRENT'', [])] in
   guarded m (''check_slot_files'', check_slot_files) =
     d_err (Crashed ''check_slot_files'' (ValueError ''HARES_MAX_CONCURRENT'')) \<and>
   intenv (m_host m) ''HARES_MAX_CONCURRENT'' 2 = ok 2"
  unfolding Let_def by (intro conjI; code_simp)

end
