(* ===== verification/Spec2Isabelle.thy ===== *)
theory Spec2Isabelle
  imports Tool_Schemas Dialogs Pool_Lock Audit_Log Doctor
begin

text \<open>
  Hares (\<open>src/hares\<close>) is a guard between an agent and a machine: an MCP server that offers file
  operations, shell commands or cluster jobs, bounded by a ceiling directory, deny lists, an active
  scope, grants a human approves, a command policy, a bubblewrap sandbox and resource limits. This
  development models the Python code as executable functions and step relations and proves what
  makes it correct, and where it is not.

  \<^bold>\<open>How the parts work together.\<close> The command line is parsed and checked, the environment is read, and
  a server is built. A call reaches it as a tool name with JSON arguments and is dispatched to a file
  operation, a command, a narrowing of the scope or a request for a grant. All of these share
  one disk, one scope store, one grant store and one runner; every path goes through the same
  resolution and containment checks. A command passes the policy and its approvals, then the runner
  computes limits and mounts, takes a slot and cores, and runs it in the sandbox under a
  monitor. A cluster server has the same front and a job table with a scheduler behind it.

  \<^bold>\<open>The theories.\<close>
  \<^item> \<open>Prelude\<close>: the result type (every Python exception is a value), the collections \<open>path_facts\<close>,
    \<open>result_facts\<close> and \<open>inv_facts\<close>, and the part of Python's string library the code uses.
    \<open>Json\<close>, \<open>Fnmatch\<close>, \<open>Shlex\<close>: the standard modules of these names, as far as they are used.
    \<open>Json_Schema\<close>: the JSON schemas the servers publish, as values, with what conforming to one means.
  \<^item> \<open>Paths\<close>, \<open>Environ\<close>, \<open>Fs_Tree\<close>, \<open>Disk_View\<close>: the host - environment, working directory, a tree disk with
    symbolic links - with \<open>Path.resolve\<close>, \<open>os.path\<close> and the system calls; \<open>Disk_View\<close> shows that
    writing files and directories changes no path decision.
  \<^item> \<open>Path_Safety\<close>, \<open>Grants\<close>, \<open>Scope_State\<close>: \<open>path_safety.py\<close>, \<open>grants.py\<close>, \<open>fs/state.py\<close>. A save is the
    sequence of disk states it goes through, so a crash is a prefix of it.
  \<^item> \<open>Fs_Ops\<close>, \<open>Fs_Confine\<close>, \<open>Fs_Contents\<close>: \<open>fs/operations.py\<close>, what the operations may touch, and what
    they mean for contents. \<open>Fs_Tools\<close>: the file tools over them, from raw JSON arguments to a reply, with their
    schemas. \<open>Restrict_Tools\<close>: \<open>fs/tools.py\<close>. \<open>Grant_Tools\<close>: \<open>grant_tools.py\<close>.
  \<^item> \<open>Policy\<close>, \<open>Inspector\<close>, \<open>Sandbox\<close>, \<open>Net_Policy\<close>, \<open>Memlimit\<close>: the files of these names. \<open>Sandbox\<close> gives the
    bwrap argument vector a semantics as a list of mounts.
  \<^item> \<open>Runner\<close>, \<open>Monitor\<close>, \<open>Exec_Tools\<close>: \<open>runner.py\<close> before the subprocess (\<open>prepare\<close>), beside it - the
    allowlist handshake, the scope of the command, the polls that watch memory and time, the
    verdict - and after it (\<open>conclude\<close>); the two handlers of \<open>exec_tools.py\<close> with their schemas, arguments and gates.
  \<^item> \<open>Slots\<close>, \<open>Semaphore\<close>, \<open>Core_Pool\<close>, \<open>Pool_Lock\<close>, \<open>Coordination\<close>: \<open>coordination.py\<close>. The lock files and the
    processes that hold them, the event loop's semaphore with the calls waiting on it, the shared core
    file as claims and the system calls that update it under its lock, and the coordinator as the servers
    construct it.
  \<^item> \<open>Cluster_Base\<close>, \<open>Cluster_Backends\<close>, \<open>Cluster_Server\<close>: \<open>cluster/base.py\<close> as operations on a job table,
    \<open>slurm.py\<close> and \<open>lsf.py\<close> as values of one record of hooks, and \<open>server.py\<close> with sessions of calls.
  \<^item> \<open>Call_Cycle\<close>: the calls of one process around \<open>Runner.execute\<close>, interleaved at every \<open>await\<close>, with the
    slots and cores they hold and the \<open>finally\<close> block that gives them back.
  \<^item> \<open>Arguments\<close>, \<open>Startup\<close>, \<open>Servers\<close>, \<open>Audit_Log\<close>: the argument parser, \<open>cli.py\<close>, \<open>config.py\<close> and
    \<open>roots.py\<close>; the three servers with their dispatch and shared state; \<open>audit.py\<close>. \<open>Doctor\<close>: the checks of
    \<open>doctor.py\<close>, its report and exit code, beside what startup does on the same host.
  \<^item> \<open>Program\<close>: the \<open>_serve_async\<close> of the server files composed with the command line, and a session of calls, listings and
    outside disk changes on the server they build. \<open>Tool_Schemas\<close>: the published schemas against the handlers behind
    them. \<open>Live_Server\<close>: the built server with calls in flight, switching wherever a coroutine waits.
    \<open>Dialogs\<close>: the texts and forms of the approvals in \<open>policy.py\<close>, against what is done on them.

  \<^bold>\<open>Interfaces.\<close> \<open>path_resolver\<close> (what containment needs of a resolution; interpreted for the link walk
  and for the host), \<open>rewriting\<close> (a pass over tokens; four passes of the inspector), \<open>slot_provider\<close>
  (acquire and give back; the flock scan), \<open>scheduler\<close> (what the base asks of a backend;
  both schedulers), \<open>table_invariant\<close> (what the elementary moves on the job table keep, every session
  keeps; well-formedness and the known ids).

  \<^bold>\<open>What is shown.\<close> The program: what startup checked holds at every moment of every session, and a
  read-only program changes nothing but adding directories. Confinement: file operations change only what passed every check, a command can write
  exactly the computed places, a read-only server writes nothing but directories. Gates: nothing
  runs, is granted or is started without the checks in front of it. Persistence: a crash leaves the
  old or the new scope, a loaded scope is authentic, a restart restores it. Schemas: a call that conforms to
  the schema of its tool never fails on the shape of its arguments, and is the operation it names. Dialogs: a text shown to the user stands for one
  request, and the memory budget it names bounds the run in all but one case. Coordination: slots are
  never overcommitted and refine a counter, calls with one permit complete, claims of cores stay
  disjoint and updates of their file are atomic. Over any interleaving of calls on one server, a command
  runs under the gates, scope and grants of the moment it is spawned, and every call gives back what it took. The verdict on a call is the one read off what was
  seen of it. Cluster: the job table stays well-formed, submissions are accounted for, live jobs are
  never evicted, array tasks meet their files. The limits, policies, quoting, redaction and
  parsing have their functional characterisations, and the theorems named in the findings
  show where the code does not do what it says.

  \<^bold>\<open>Bounds.\<close> Link resolution takes as fuel the bound of the kernel on links followed, walks over the disk
  its depth; both are reached only where Python raises. Loops of the scheduler and the monitor run over the
  list of what their polls see, so a deadline is the end of the list. A session in \<open>Program\<close> is a sequence of whole
  calls; how running calls and processes interleave is the matter of \<open>Live_Server\<close>, \<open>Call_Cycle\<close>, \<open>Semaphore\<close>,
  \<open>Slots\<close> and \<open>Pool_Lock\<close>. Numbers in JSON are integers; floats occur as literals in the environment.

  \<^bold>\<open>Not modelled.\<close> The MCP transport; its schema check is a parameter, of which the theorems that need it assume that
  what it lets through conforms to the schema (the cluster server, whose arguments are read into records, refuses others).
  Subprocesses themselves (what the polls read of them is an input), MACs, name resolution, clocks and fresh names
  (parameters), times and modes of files, tool descriptions, the wording of notes and
  diagnostics, log messages, and the shell server without a ceiling, which the command line never starts.
\<close>

end
